(* ===== verification/Prelude.thy ===== *)
theory Prelude
  imports Main "HOL-Library.Word" "HOL-Library.Signed_Division" "HOL-Library.Monad_Syntax"
begin

text \<open>
  What the components share: the machine types of the target (Cortex-M0+, 32-bit \<open>int\<close>,
  unsigned \<open>char\<close>, little endian), the result type of an operation that C may leave
  undefined, bounded array access, counted loops and the little-endian byte layout of
  16- and 32-bit values.
\<close>

unbundle bit_operations_syntax

section \<open>Machine types\<close>

type_synonym u8 = "8 word"
type_synonym u16 = "16 word"
type_synonym u32 = "32 word"
type_synonym u64 = "64 word"

text \<open>Signed C types have the same carrier and are read with \<open>sint\<close>.\<close>

type_synonym i16 = "16 word"
type_synonym i32 = "32 word"

text \<open>
  An operation whose C execution can be undefined (an access outside an array, a division by
  zero, a read through a null pointer) has type \<open>'a option\<close>; \<^term>\<open>None\<close> is the undefined
  execution and sequencing is the option monad. Error codes of the program itself are
  ordinary values.
\<close>

named_theorems regmap \<open>constants of the register map\<close>
named_theorems wf_intro \<open>well-formedness of a component state is kept\<close>
named_theorems frame \<open>what an operation leaves unchanged\<close>

section \<open>Signed arithmetic\<close>

text \<open>Division of C: undefined on zero, otherwise truncated towards zero.\<close>

definition c_div :: "i32 \<Rightarrow> i32 \<Rightarrow> i32 option" where
  "c_div a b = (if b = 0 then None else Some (word_of_int (sint a sdiv sint b)))"

text \<open>A 32-bit signed value holds \<open>k\<close>.\<close>

definition fits32 :: "int \<Rightarrow> bool" where
  "fits32 k \<longleftrightarrow> - (2 ^ 31) \<le> k \<and> k < 2 ^ 31"

lemma sint_word_of_int_32 [simp]: "fits32 k \<Longrightarrow> sint (word_of_int k :: i32) = k"
  by (simp add: fits32_def sint_sbintrunc' signed_take_bit_int_eq_self)

lemma fits32_sint [simp]: "fits32 (sint (w :: i32))"
  using sint_greater_eq [of w] sint_less [of w] by (simp add: fits32_def)

lemma word_of_int_sint32 [simp]: "word_of_int (sint (w :: i32)) = w"
  by simp

lemma sint_word_of_int_16: "- 32768 \<le> k \<Longrightarrow> k < 32768 \<Longrightarrow> sint (word_of_int k :: i16) = k"
  by (simp add: sint_sbintrunc' signed_take_bit_int_eq_self)

lemma c_div_pos:
  assumes "0 < sint b" "0 \<le> sint a"
  shows "c_div a b = Some (word_of_int (sint a div sint b))"
proof -
  have "b \<noteq> 0" using assms(1) by auto
  moreover have "sint a sdiv sint b = sint a div sint b"
    using assms by (auto simp: signed_divide_int_def sgn_if)
  ultimately show ?thesis by (simp add: c_div_def)
qed

lemma c_div_word_pos:
  "0 < b \<Longrightarrow> 0 \<le> a \<Longrightarrow> fits32 a \<Longrightarrow> fits32 b \<Longrightarrow>
   c_div (word_of_int a) (word_of_int b) = Some (word_of_int (a div b))"
  by (simp add: c_div_pos)

lemma c_div_zero [simp]: "c_div a 0 = None"
  by (simp add: c_div_def)

lemma div_mult_le_int: "0 < b \<Longrightarrow> a div b * b \<le> a" for a b :: int
  using div_mult_mod_eq [of a b] pos_mod_sign [of b a] by linarith

lemma div_less_int: "0 < b \<Longrightarrow> a < c * b \<Longrightarrow> a div b < c" for a b c :: int
  using div_mult_le_int [of b a] mult_right_mono [of c "a div b" b] by linarith

lemma le_div_int: "0 < b \<Longrightarrow> c * b \<le> a \<Longrightarrow> c \<le> a div b" for a b c :: int
  using zdiv_mono1 [of "c * b" a b] by simp

lemma ceil_div: "0 < k \<Longrightarrow> (x + (k - 1)) div k = (if x mod k \<noteq> 0 then x div k + 1 else x div k)"
  for x k :: nat
proof -
  assume k: "0 < k"
  have "(x + (k - 1)) div k = (x div k * k + (x mod k + (k - 1))) div k"
    by (metis add.assoc div_mult_mod_eq)
  also have "\<dots> = x div k + (x mod k + (k - 1)) div k"
    by (rule div_mult_self3) (use k in simp)
  also have "(x mod k + (k - 1)) div k = (if x mod k \<noteq> 0 then 1 else 0)"
  proof (cases "x mod k")
    case (Suc r)
    then have "r < k" using mod_less_divisor [OF k, of x] by simp
    then have "(r + k) div k = 1" using k by (simp add: div_add_self2)
    moreover have "x mod k + (k - 1) = r + k" using Suc k by simp
    ultimately show ?thesis using Suc by (simp del: One_nat_def)
  qed (use k in simp)
  finally show ?thesis by simp
qed

section \<open>Words\<close>

lemma unat_u8_less [simp]: "unat (b :: u8) < 256"
  using unsigned_less [of b, where ?'a = nat] by simp

lemma unat_u16_less [simp]: "unat (b :: u16) < 65536"
  using unsigned_less [of b, where ?'a = nat] by simp

lemma unat_u8_inj [simp]: "unat p = unat q \<longleftrightarrow> p = q" for p q :: u8
  by (simp add: word_unat_eq_iff)

lemma unat_ucast_u16_u32 [simp]: "unat (ucast (w :: u16) :: u32) = unat w"
proof -
  have "unat w < 2 ^ 32" by (rule less_trans [OF unat_u16_less]) simp
  then show ?thesis by (simp add: unsigned_ucast_eq take_bit_nat_eq_self)
qed

lemma word_zero_bits: "w = 0 \<longleftrightarrow> (\<forall>n. \<not> bit w n)" for w :: "'a :: len word"
  by (auto intro: bit_word_eqI)

lemma xor_cancel_right [simp]: "a XOR c = b XOR c \<longleftrightarrow> a = b"
  for a b c :: "'a :: len word"
  by (metis xor.assoc xor.right_neutral xor_self_eq)

lemma xor_eq_zero [simp]: "a XOR b = 0 \<longleftrightarrow> a = b"
  for a b :: "'a :: len word"
  by (metis xor.left_neutral xor_cancel_right xor_self_eq)

section \<open>Arrays\<close>

text \<open>Reading and writing a C array held as a list; outside the array is undefined.\<close>

definition arr_get :: "'a list \<Rightarrow> nat \<Rightarrow> 'a option" where
  "arr_get xs i = (if i < length xs then Some (xs ! i) else None)"

definition arr_set :: "'a list \<Rightarrow> nat \<Rightarrow> 'a \<Rightarrow> 'a list option" where
  "arr_set xs i v = (if i < length xs then Some (xs[i := v]) else None)"

lemma arr_get_some [simp]: "i < length xs \<Longrightarrow> arr_get xs i = Some (xs ! i)"
  by (simp add: arr_get_def)

lemma arr_set_some [simp]: "i < length xs \<Longrightarrow> arr_set xs i v = Some (xs[i := v])"
  by (simp add: arr_set_def)

lemma arr_get_eq_Some: "arr_get xs i = Some v \<longleftrightarrow> i < length xs \<and> v = xs ! i"
  by (auto simp: arr_get_def)

lemma arr_set_eq_Some: "arr_set xs i v = Some ys \<longleftrightarrow> i < length xs \<and> ys = xs[i := v]"
  by (auto simp: arr_set_def)

lemma arr_get_eq_None [simp]: "arr_get xs i = None \<longleftrightarrow> length xs \<le> i"
  by (auto simp: arr_get_def)

lemma arr_set_eq_None [simp]: "arr_set xs i v = None \<longleftrightarrow> length xs \<le> i"
  by (auto simp: arr_set_def)

text \<open>\<open>memcpy\<close> of whole elements into an array at an index.\<close>

definition arr_copy :: "'a list \<Rightarrow> nat \<Rightarrow> 'a list \<Rightarrow> 'a list option" where
  "arr_copy xs i ys =
     (if i + length ys \<le> length xs
      then Some (take i xs @ ys @ drop (i + length ys) xs) else None)"

lemma arr_copy_some [simp]:
  "i + length ys \<le> length xs \<Longrightarrow>
   arr_copy xs i ys = Some (take i xs @ ys @ drop (i + length ys) xs)"
  by (simp add: arr_copy_def)

lemma arr_copy_length: "arr_copy xs i ys = Some zs \<Longrightarrow> length zs = length xs"
  by (auto simp: arr_copy_def split: if_splits)

lemma nth_splice:
  assumes "i + length ys \<le> length xs" and "j < length xs"
  shows "(take i xs @ ys @ drop (i + length ys) xs) ! j =
    (if i \<le> j \<and> j < i + length ys then ys ! (j - i) else xs ! j)"
  using assms by (auto simp: nth_append min_def)

section \<open>Counted loops\<close>

text \<open>\<open>for_loop i n f s\<close> runs \<open>f i\<close>, \<open>f (i + 1)\<close>, \<dots>, \<open>n\<close> times.\<close>

primrec for_loop :: "nat \<Rightarrow> nat \<Rightarrow> (nat \<Rightarrow> 's \<Rightarrow> 's option) \<Rightarrow> 's \<Rightarrow> 's option" where
  "for_loop i 0 f s = Some s"
| "for_loop i (Suc n) f s = do { s' \<leftarrow> f i s; for_loop (Suc i) n f s' }"

lemma for_loop_inv:
  assumes "for_loop i n f s = Some t" and "P i s"
    and "\<And>j s t. i \<le> j \<Longrightarrow> j < i + n \<Longrightarrow> P j s \<Longrightarrow> f j s = Some t \<Longrightarrow> P (Suc j) t"
  shows "P (i + n) t"
  using assms
proof (induction n arbitrary: i s)
  case 0
  then show ?case by simp
next
  case (Suc n)
  from Suc.prems(1) obtain s' where s': "f i s = Some s'" and rest: "for_loop (Suc i) n f s' = Some t"
    by (auto simp: Option.bind_eq_Some_conv)
  have "P (Suc i) s'" using Suc.prems(2,3) s' by simp
  then have "P (Suc i + n) t"
    by (rule Suc.IH [OF rest]) (use Suc.prems(3) in simp)
  then show ?case by simp
qed

lemma for_loop_total:
  assumes "P i s"
    and "\<And>j s. i \<le> j \<Longrightarrow> j < i + n \<Longrightarrow> P j s \<Longrightarrow> \<exists>t. f j s = Some t \<and> P (Suc j) t"
  shows "\<exists>t. for_loop i n f s = Some t \<and> P (i + n) t"
  using assms
proof (induction n arbitrary: i s)
  case 0
  then show ?case by simp
next
  case (Suc n)
  from Suc.prems(2) [of i s] Suc.prems(1) obtain s' where "f i s = Some s'" "P (Suc i) s'"
    by auto
  moreover have "\<exists>t. for_loop (Suc i) n f s' = Some t \<and> P (Suc i + n) t"
    by (rule Suc.IH) (use \<open>P (Suc i) s'\<close> Suc.prems(2) in auto)
  ultimately show ?case by simp
qed

text \<open>Running an operation on each element of a list.\<close>

primrec run_all :: "('a \<Rightarrow> 's \<Rightarrow> 's option) \<Rightarrow> 'a list \<Rightarrow> 's \<Rightarrow> 's option" where
  "run_all f [] s = Some s"
| "run_all f (x # xs) s = do { s' \<leftarrow> f x s; run_all f xs s' }"

lemma run_all_append:
  "run_all f (xs @ ys) s = do { s' \<leftarrow> run_all f xs s; run_all f ys s' }"
proof (induction xs arbitrary: s)
  case Nil
  then show ?case by simp
next
  case (Cons x xs)
  then show ?case by (cases "f x s") simp_all
qed

section \<open>Little-endian bytes\<close>

definition le16 :: "u16 \<Rightarrow> u8 list" where
  "le16 w = [ucast w, ucast (drop_bit 8 w)]"

definition le32 :: "u32 \<Rightarrow> u8 list" where
  "le32 w = [ucast w, ucast (drop_bit 8 w), ucast (drop_bit 16 w), ucast (drop_bit 24 w)]"

definition of_le16 :: "u8 \<Rightarrow> u8 \<Rightarrow> u16" where
  "of_le16 b0 b1 = ucast b0 OR push_bit 8 (ucast b1)"

definition of_le32 :: "u8 \<Rightarrow> u8 \<Rightarrow> u8 \<Rightarrow> u8 \<Rightarrow> u32" where
  "of_le32 b0 b1 b2 b3 =
     ucast b0 OR push_bit 8 (ucast b1) OR push_bit 16 (ucast b2) OR push_bit 24 (ucast b3)"

lemma length_le16 [simp]: "length (le16 w) = 2"
  by (simp add: le16_def)

lemma length_le32 [simp]: "length (le32 w) = 4"
  by (simp add: le32_def)

lemma of_le16_le16: "of_le16 (ucast w) (ucast (drop_bit 8 w)) = w"
  by (rule bit_eqI) (auto simp: of_le16_def bit_simps not_less)

lemma of_le32_le32:
  "of_le32 (ucast w) (ucast (drop_bit 8 w)) (ucast (drop_bit 16 w)) (ucast (drop_bit 24 w)) = w"
proof (rule bit_eqI)
  fix n
  assume "possible_bit TYPE(32 word) n"
  then have "n < 32" by simp
  then consider "n < 8" | "8 \<le> n \<and> n < 16" | "16 \<le> n \<and> n < 24" | "24 \<le> n \<and> n < 32"
    by linarith
  then show "bit (of_le32 (ucast w) (ucast (drop_bit 8 w)) (ucast (drop_bit 16 w))
      (ucast (drop_bit 24 w))) n = bit w n"
    by cases (auto simp: of_le32_def bit_simps)
qed

lemma le16_of_le16: "le16 (of_le16 b0 b1) = [b0, b1]"
proof -
  have "ucast (of_le16 b0 b1) = b0"
    by (rule bit_eqI) (auto simp: of_le16_def bit_simps)
  moreover have "ucast (drop_bit 8 (of_le16 b0 b1)) = b1"
    by (rule bit_eqI) (auto simp: of_le16_def bit_simps dest: bit_imp_le_length)
  ultimately show ?thesis by (simp add: le16_def)
qed

lemma le32_of_le32: "le32 (of_le32 b0 b1 b2 b3) = [b0, b1, b2, b3]"
proof -
  have "ucast (of_le32 b0 b1 b2 b3) = b0"
    by (rule bit_eqI) (auto simp: of_le32_def bit_simps)
  moreover have "ucast (drop_bit 8 (of_le32 b0 b1 b2 b3)) = b1"
    by (rule bit_eqI) (auto simp: of_le32_def bit_simps dest: bit_imp_le_length)
  moreover have "ucast (drop_bit 16 (of_le32 b0 b1 b2 b3)) = b2"
    by (rule bit_eqI) (auto simp: of_le32_def bit_simps dest: bit_imp_le_length)
  moreover have "ucast (drop_bit 24 (of_le32 b0 b1 b2 b3)) = b3"
    by (rule bit_eqI) (auto simp: of_le32_def bit_simps dest: bit_imp_le_length)
  ultimately show ?thesis by (simp add: le32_def)
qed

text \<open>A \<open>void *\<close> buffer read as an array of \<open>bool\<close>, \<open>short\<close> or \<open>int\<close>.\<close>

definition as_bools :: "u8 list \<Rightarrow> bool list" where
  "as_bools bs = map (\<lambda>b. b \<noteq> 0) bs"

fun as_shorts :: "u8 list \<Rightarrow> i16 list" where
  "as_shorts (b0 # b1 # bs) = of_le16 b0 b1 # as_shorts bs"
| "as_shorts _ = []"

fun as_ints :: "u8 list \<Rightarrow> i32 list" where
  "as_ints (b0 # b1 # b2 # b3 # bs) = of_le32 b0 b1 b2 b3 # as_ints bs"
| "as_ints _ = []"

definition short_bytes :: "i16 list \<Rightarrow> u8 list" where
  "short_bytes ws = concat (map le16 ws)"

definition int_bytes :: "i32 list \<Rightarrow> u8 list" where
  "int_bytes ws = concat (map le32 ws)"

lemma length_short_bytes [simp]: "length (short_bytes ws) = 2 * length ws"
  by (induction ws) (auto simp: short_bytes_def)

lemma length_int_bytes [simp]: "length (int_bytes ws) = 4 * length ws"
  by (induction ws) (auto simp: int_bytes_def)

lemma as_shorts_short_bytes [simp]: "as_shorts (short_bytes ws) = ws"
proof (induction ws)
  case Nil
  then show ?case by (simp add: short_bytes_def)
next
  case (Cons w ws)
  then show ?case by (simp add: short_bytes_def le16_def of_le16_le16)
qed

lemma as_ints_int_bytes [simp]: "as_ints (int_bytes ws) = ws"
proof (induction ws)
  case Nil
  then show ?case by (simp add: int_bytes_def)
next
  case (Cons w ws)
  then show ?case by (simp add: int_bytes_def le32_def of_le32_le32)
qed

lemma length_as_shorts [simp]: "length (as_shorts bs) = length bs div 2"
  by (induction bs rule: as_shorts.induct) auto

lemma length_as_ints [simp]: "length (as_ints bs) = length bs div 4"
  by (induction bs rule: as_ints.induct) auto

lemma short_bytes_as_shorts: "even (length bs) \<Longrightarrow> short_bytes (as_shorts bs) = bs"
  by (induction bs rule: as_shorts.induct) (auto simp: short_bytes_def le16_of_le16)

lemma int_bytes_as_ints: "4 dvd length bs \<Longrightarrow> int_bytes (as_ints bs) = bs"
proof (induction bs rule: as_ints.induct)
  case (1 b0 b1 b2 b3 bs)
  then have "4 dvd length bs" by (simp add: numeral_eq_Suc dvd_def) presburger
  with 1 show ?case by (simp add: int_bytes_def le32_of_le32)
qed (auto simp: int_bytes_def dest: dvd_imp_le)

end
