(* ===== verification/Board_Defs.thy ===== *)
theory Board_Defs
  imports Prelude
begin

text \<open>
  \<open>include/board_defs.h\<close>: the constants of the board, the register map and the two macros
  that classify a register address. The build defines \<open>__NO_FLOAT__\<close>, so the map has a
  bank of booleans, one of shorts and one of ints.
\<close>

section \<open>Constants\<close>

definition SysTick_frequency_hz :: i32 where [regmap]: "SysTick_frequency_hz = 2000"
definition SysTicksButtonDebounce :: u32 where [regmap]: "SysTicksButtonDebounce = 5"

definition SysI2C_ADDR_ALL :: u8 where [regmap]: "SysI2C_ADDR_ALL = 0x00"
definition SysI2C_ADDR_Recirculador :: u8 where [regmap]: "SysI2C_ADDR_Recirculador = 0x10"
definition SysI2C_ADDR_WiFi :: u8 where [regmap]: "SysI2C_ADDR_WiFi = 0x30"
definition SysI2C_ADDR_Rec_Display :: u8 where [regmap]: "SysI2C_ADDR_Rec_Display = 0x40"
definition SysI2C_ADDR_RTC_BQ32000 :: u8 where [regmap]: "SysI2C_ADDR_RTC_BQ32000 = 0x68"
definition SysI2C_ADDR_Slave_Vet :: "u8 list" where [regmap]:
  "SysI2C_ADDR_Slave_Vet = [SysI2C_ADDR_WiFi, SysI2C_ADDR_Rec_Display]"

definition SysEepromSize :: nat where [regmap]: "SysEepromSize = 0x380"
definition SysEepromADDR :: u32 where [regmap]: "SysEepromADDR = 0x7800"

definition SysADCMeasureLenght :: u16 where [regmap]: "SysADCMeasureLenght = 5"
definition SysADC_TempS1 :: u8 where [regmap]: "SysADC_TempS1 = 3"
definition SysADC_TempS2 :: u8 where [regmap]: "SysADC_TempS2 = 10"
definition SysADC_VRef :: u8 where [regmap]: "SysADC_VRef = 0"
definition SysADC_Current :: u8 where [regmap]: "SysADC_Current = 8"

definition Syspin_nReload :: u8 where [regmap]: "Syspin_nReload = 12"
definition Syspin_RESET :: u8 where [regmap]: "Syspin_RESET = 5"
definition Syspin_SDA :: u8 where [regmap]: "Syspin_SDA = 4"
definition Syspin_SCL :: u8 where [regmap]: "Syspin_SCL = 0"
definition Syspin_nReady :: u8 where [regmap]: "Syspin_nReady = 2"
definition Syspin_nLink :: u8 where [regmap]: "Syspin_nLink = 11"
definition Syspin_Botoeira :: u8 where [regmap]: "Syspin_Botoeira = 9"
definition Syspin_SensorDeFluxo :: u8 where [regmap]: "Syspin_SensorDeFluxo = 8"
definition Syspin_Pump :: u8 where [regmap]: "Syspin_Pump = 17"

definition Sys_firmware_version_major :: i16 where [regmap]: "Sys_firmware_version_major = 1"
definition Sys_firmware_version_minor :: i16 where [regmap]: "Sys_firmware_version_minor = 0"
definition Sys_firmware_version_patch :: i16 where [regmap]: "Sys_firmware_version_patch = 0"
definition Sys_timestamp_min :: nat where [regmap]: "Sys_timestamp_min = 1704067200"
definition Sys_equip_code :: i16 where [regmap]: "Sys_equip_code = 0x10"
definition Sys_schedulers_default :: i32 where [regmap]:
  "Sys_schedulers_default = 0b11111110010110100010010110000000"
definition Sys_schedulers_total :: nat where [regmap]: "Sys_schedulers_total = 0xA"

definition Sys_task_max :: nat where [regmap]: "Sys_task_max = 12"
definition Sys_task_name_length :: nat where [regmap]: "Sys_task_name_length = 20"

definition Sys_Modbus_Set_Mult_Num_Reg :: u8 where [regmap]: "Sys_Modbus_Set_Mult_Num_Reg = 0x10"
definition Sys_Modbus_Report_Slave_ID :: u8 where [regmap]: "Sys_Modbus_Report_Slave_ID = 0x11"
definition Sys_Modbus_Message_Queue_Size :: nat where [regmap]:
  "Sys_Modbus_Message_Queue_Size = 15"
definition Sys_Modbus_Time_Reply :: u32 where [regmap]: "Sys_Modbus_Time_Reply = 5"

section \<open>The register map\<close>

definition Sys_RegMap_Offset_Bool :: u32 where [regmap]: "Sys_RegMap_Offset_Bool = 0x03E8"
definition Sys_RegMap_Offset_Short :: u32 where [regmap]: "Sys_RegMap_Offset_Short = 0x0BB8"
definition Sys_RegMap_Offset_Int :: u32 where [regmap]: "Sys_RegMap_Offset_Int = 0x1388"
definition Sys_RegMap_End :: u32 where [regmap]: "Sys_RegMap_End = 0x176F"
definition Sys_RegMap_Nreg_Bool_tot :: nat where [regmap]: "Sys_RegMap_Nreg_Bool_tot = 128"
definition Sys_RegMap_Nreg_Short_tot :: nat where [regmap]: "Sys_RegMap_Nreg_Short_tot = 128"
definition Sys_RegMap_Nreg_Int_tot :: nat where [regmap]: "Sys_RegMap_Nreg_Int_tot = 128"

text \<open>The relative index of an address, or \<open>-1\<close>.\<close>

definition Sys_RegMap_GetIndex :: "u32 \<Rightarrow> int" where
  "Sys_RegMap_GetIndex addr =
     (if Sys_RegMap_Offset_Bool \<le> addr \<and> addr < Sys_RegMap_Offset_Short
      then uint (addr - Sys_RegMap_Offset_Bool)
      else if Sys_RegMap_Offset_Short \<le> addr \<and> addr < Sys_RegMap_Offset_Int
      then uint (addr - Sys_RegMap_Offset_Short)
      else if Sys_RegMap_Offset_Int \<le> addr \<and> addr < Sys_RegMap_End
      then uint (addr - Sys_RegMap_Offset_Int)
      else -1)"

text \<open>
  The size of a register in bytes. The branches \<open>sizeof\<close> make the type of the conditional
  \<open>unsigned\<close>, so the last one is \<open>0xFFFFFFFF\<close>.
\<close>

definition Sys_RegMap_GetRegBytes :: "u32 \<Rightarrow> u32" where
  "Sys_RegMap_GetRegBytes addr =
     (if Sys_RegMap_Offset_Bool \<le> addr \<and> addr < Sys_RegMap_Offset_Short then 0
      else if Sys_RegMap_Offset_Short \<le> addr \<and> addr < Sys_RegMap_Offset_Int then 2
      else if Sys_RegMap_Offset_Int \<le> addr \<and> addr < Sys_RegMap_End then 4
      else - 1)"

definition Sys_RegMap_Total_Bytes :: nat where [regmap]:
  "Sys_RegMap_Total_Bytes =
     Sys_RegMap_Nreg_Bool_tot div 8 + Sys_RegMap_Nreg_Short_tot * 2 + Sys_RegMap_Nreg_Int_tot * 4"

subsection \<open>The enumeration of addresses\<close>

definition Sys_RegMap_Pump :: u32 where [regmap]: "Sys_RegMap_Pump = Sys_RegMap_Offset_Bool"
definition Sys_RegMap_Button :: u32 where [regmap]: "Sys_RegMap_Button = Sys_RegMap_Pump + 1"
definition Sys_RegMap_Reset_Button :: u32 where [regmap]: "Sys_RegMap_Reset_Button = Sys_RegMap_Button + 1"
definition Sys_RegMap_Model :: u32 where [regmap]: "Sys_RegMap_Model = Sys_RegMap_Offset_Short"
definition Sys_RegMap_FV_Major :: u32 where [regmap]: "Sys_RegMap_FV_Major = Sys_RegMap_Model + 1"
definition Sys_RegMap_FV_Minor :: u32 where [regmap]: "Sys_RegMap_FV_Minor = Sys_RegMap_FV_Major + 1"
definition Sys_RegMap_FV_Patch :: u32 where [regmap]: "Sys_RegMap_FV_Patch = Sys_RegMap_FV_Minor + 1"
definition Sys_RegMap_Mac_Addr_0 :: u32 where [regmap]: "Sys_RegMap_Mac_Addr_0 = Sys_RegMap_FV_Patch + 1"
definition Sys_RegMap_Mac_Addr_1 :: u32 where [regmap]: "Sys_RegMap_Mac_Addr_1 = Sys_RegMap_Mac_Addr_0 + 1"
definition Sys_RegMap_Mac_Addr_2 :: u32 where [regmap]: "Sys_RegMap_Mac_Addr_2 = Sys_RegMap_Mac_Addr_1 + 1"
definition Sys_RegMap_ssid_0 :: u32 where [regmap]: "Sys_RegMap_ssid_0 = Sys_RegMap_Mac_Addr_2 + 1"
definition Sys_RegMap_pass_0 :: u32 where [regmap]: "Sys_RegMap_pass_0 = Sys_RegMap_ssid_0 + 16"
definition Sys_RegMap_eeprom_reg_bool_0 :: u32 where [regmap]: "Sys_RegMap_eeprom_reg_bool_0 = Sys_RegMap_pass_0 + 16"
definition Sys_RegMap_eeprom_reg_short_0 :: u32 where [regmap]: "Sys_RegMap_eeprom_reg_short_0 = Sys_RegMap_eeprom_reg_bool_0 + 8"
definition Sys_RegMap_eeprom_reg_int_0 :: u32 where [regmap]: "Sys_RegMap_eeprom_reg_int_0 = Sys_RegMap_eeprom_reg_short_0 + 8"
definition Sys_RegMap_eeprom_reg_float_0 :: u32 where [regmap]: "Sys_RegMap_eeprom_reg_float_0 = Sys_RegMap_eeprom_reg_int_0 + 8"
definition Sys_RegMap_priority_reg_bool_0 :: u32 where [regmap]: "Sys_RegMap_priority_reg_bool_0 = Sys_RegMap_eeprom_reg_float_0 + 8"
definition Sys_RegMap_priority_reg_short_0 :: u32 where [regmap]: "Sys_RegMap_priority_reg_short_0 = Sys_RegMap_priority_reg_bool_0 + 8"
definition Sys_RegMap_priority_reg_int_0 :: u32 where [regmap]: "Sys_RegMap_priority_reg_int_0 = Sys_RegMap_priority_reg_short_0 + 8"
definition Sys_RegMap_GTM :: u32 where [regmap]: "Sys_RegMap_GTM = Sys_RegMap_priority_reg_int_0 + 8"
definition Sys_RegMap_Timestamp :: u32 where [regmap]: "Sys_RegMap_Timestamp = Sys_RegMap_Offset_Int"
definition Sys_RegMap_Flux_Counter :: u32 where [regmap]: "Sys_RegMap_Flux_Counter = Sys_RegMap_Timestamp + 1"
definition Sys_RegMap_Flux_Liters :: u32 where [regmap]: "Sys_RegMap_Flux_Liters = Sys_RegMap_Flux_Counter + 1"
definition Sys_RegMap_Flux_Total_Liters :: u32 where [regmap]: "Sys_RegMap_Flux_Total_Liters = Sys_RegMap_Flux_Liters + 1"
definition Sys_RegMap_S1_Adc :: u32 where [regmap]: "Sys_RegMap_S1_Adc = Sys_RegMap_Flux_Total_Liters + 1"
definition Sys_RegMap_S1_mV :: u32 where [regmap]: "Sys_RegMap_S1_mV = Sys_RegMap_S1_Adc + 1"
definition Sys_RegMap_S1_Temp :: u32 where [regmap]: "Sys_RegMap_S1_Temp = Sys_RegMap_S1_mV + 1"
definition Sys_RegMap_S2_Adc :: u32 where [regmap]: "Sys_RegMap_S2_Adc = Sys_RegMap_S1_Temp + 1"
definition Sys_RegMap_S2_mV :: u32 where [regmap]: "Sys_RegMap_S2_mV = Sys_RegMap_S2_Adc + 1"
definition Sys_RegMap_S2_Temp :: u32 where [regmap]: "Sys_RegMap_S2_Temp = Sys_RegMap_S2_mV + 1"
definition Sys_RegMap_Current_Adc :: u32 where [regmap]: "Sys_RegMap_Current_Adc = Sys_RegMap_S2_Temp + 1"
definition Sys_RegMap_Current_mV :: u32 where [regmap]: "Sys_RegMap_Current_mV = Sys_RegMap_Current_Adc + 1"
definition Sys_RegMap_Current :: u32 where [regmap]: "Sys_RegMap_Current = Sys_RegMap_Current_mV + 1"
definition Sys_RegMap_Errors :: u32 where [regmap]: "Sys_RegMap_Errors = Sys_RegMap_Current + 1"
definition Sys_RegMap_Flux_Calib :: u32 where [regmap]: "Sys_RegMap_Flux_Calib = Sys_RegMap_Errors + 1"
definition Sys_RegMap_Flux_Error_Max :: u32 where [regmap]: "Sys_RegMap_Flux_Error_Max = Sys_RegMap_Flux_Calib + 1"
definition Sys_RegMap_Flux_Error_Min :: u32 where [regmap]: "Sys_RegMap_Flux_Error_Min = Sys_RegMap_Flux_Error_Max + 1"
definition Sys_RegMap_S1_Temp_Ref :: u32 where [regmap]: "Sys_RegMap_S1_Temp_Ref = Sys_RegMap_Flux_Error_Min + 1"
definition Sys_RegMap_S1_Temp_Hysteresis :: u32 where [regmap]: "Sys_RegMap_S1_Temp_Hysteresis = Sys_RegMap_S1_Temp_Ref + 1"
definition Sys_RegMap_S1_Calib_1 :: u32 where [regmap]: "Sys_RegMap_S1_Calib_1 = Sys_RegMap_S1_Temp_Hysteresis + 1"
definition Sys_RegMap_S1_Calib_2 :: u32 where [regmap]: "Sys_RegMap_S1_Calib_2 = Sys_RegMap_S1_Calib_1 + 1"
definition Sys_RegMap_S1_Calib_3 :: u32 where [regmap]: "Sys_RegMap_S1_Calib_3 = Sys_RegMap_S1_Calib_2 + 1"
definition Sys_RegMap_S1_Error_High :: u32 where [regmap]: "Sys_RegMap_S1_Error_High = Sys_RegMap_S1_Calib_3 + 1"
definition Sys_RegMap_S1_Error_Low :: u32 where [regmap]: "Sys_RegMap_S1_Error_Low = Sys_RegMap_S1_Error_High + 1"
definition Sys_RegMap_S1_Error_Desconnect :: u32 where [regmap]: "Sys_RegMap_S1_Error_Desconnect = Sys_RegMap_S1_Error_Low + 1"
definition Sys_RegMap_S1_Error_Short_Circuit :: u32 where [regmap]: "Sys_RegMap_S1_Error_Short_Circuit = Sys_RegMap_S1_Error_Desconnect + 1"
definition Sys_RegMap_S2_Temp_Ref :: u32 where [regmap]: "Sys_RegMap_S2_Temp_Ref = Sys_RegMap_S1_Error_Short_Circuit + 1"
definition Sys_RegMap_S2_Temp_Hysteresis :: u32 where [regmap]: "Sys_RegMap_S2_Temp_Hysteresis = Sys_RegMap_S2_Temp_Ref + 1"
definition Sys_RegMap_S2_Calib_1 :: u32 where [regmap]: "Sys_RegMap_S2_Calib_1 = Sys_RegMap_S2_Temp_Hysteresis + 1"
definition Sys_RegMap_S2_Calib_2 :: u32 where [regmap]: "Sys_RegMap_S2_Calib_2 = Sys_RegMap_S2_Calib_1 + 1"
definition Sys_RegMap_S2_Calib_3 :: u32 where [regmap]: "Sys_RegMap_S2_Calib_3 = Sys_RegMap_S2_Calib_2 + 1"
definition Sys_RegMap_S2_Error_High :: u32 where [regmap]: "Sys_RegMap_S2_Error_High = Sys_RegMap_S2_Calib_3 + 1"
definition Sys_RegMap_S2_Error_Low :: u32 where [regmap]: "Sys_RegMap_S2_Error_Low = Sys_RegMap_S2_Error_High + 1"
definition Sys_RegMap_S2_Error_Desconnect :: u32 where [regmap]: "Sys_RegMap_S2_Error_Desconnect = Sys_RegMap_S2_Error_Low + 1"
definition Sys_RegMap_S2_Error_Short_Circuit :: u32 where [regmap]: "Sys_RegMap_S2_Error_Short_Circuit = Sys_RegMap_S2_Error_Desconnect + 1"
definition Sys_RegMap_Current_Resistor :: u32 where [regmap]: "Sys_RegMap_Current_Resistor = Sys_RegMap_S2_Error_Short_Circuit + 1"
definition Sys_RegMap_Current_Calib :: u32 where [regmap]: "Sys_RegMap_Current_Calib = Sys_RegMap_Current_Resistor + 1"
definition Sys_RegMap_Current_Error_Desconnect :: u32 where [regmap]: "Sys_RegMap_Current_Error_Desconnect = Sys_RegMap_Current_Calib + 1"
definition Sys_RegMap_Current_Error_Short_Circuit :: u32 where [regmap]: "Sys_RegMap_Current_Error_Short_Circuit = Sys_RegMap_Current_Error_Desconnect + 1"
definition Sys_RegMap_Time_Recirculation :: u32 where [regmap]: "Sys_RegMap_Time_Recirculation = Sys_RegMap_Current_Error_Short_Circuit + 1"
definition Sys_RegMap_Temp_Ref_Recirculation :: u32 where [regmap]: "Sys_RegMap_Temp_Ref_Recirculation = Sys_RegMap_Time_Recirculation + 1"
definition Sys_RegMap_Schedules_0 :: u32 where [regmap]: "Sys_RegMap_Schedules_0 = Sys_RegMap_Temp_Ref_Recirculation + 1"
definition Sys_RegMap_Schedules_1 :: u32 where [regmap]: "Sys_RegMap_Schedules_1 = Sys_RegMap_Schedules_0 + 1"
definition Sys_RegMap_Schedules_2 :: u32 where [regmap]: "Sys_RegMap_Schedules_2 = Sys_RegMap_Schedules_1 + 1"
definition Sys_RegMap_Schedules_3 :: u32 where [regmap]: "Sys_RegMap_Schedules_3 = Sys_RegMap_Schedules_2 + 1"
definition Sys_RegMap_Schedules_4 :: u32 where [regmap]: "Sys_RegMap_Schedules_4 = Sys_RegMap_Schedules_3 + 1"
definition Sys_RegMap_Schedules_5 :: u32 where [regmap]: "Sys_RegMap_Schedules_5 = Sys_RegMap_Schedules_4 + 1"
definition Sys_RegMap_Schedules_6 :: u32 where [regmap]: "Sys_RegMap_Schedules_6 = Sys_RegMap_Schedules_5 + 1"
definition Sys_RegMap_Schedules_7 :: u32 where [regmap]: "Sys_RegMap_Schedules_7 = Sys_RegMap_Schedules_6 + 1"
definition Sys_RegMap_Schedules_8 :: u32 where [regmap]: "Sys_RegMap_Schedules_8 = Sys_RegMap_Schedules_7 + 1"
definition Sys_RegMap_Schedules_9 :: u32 where [regmap]: "Sys_RegMap_Schedules_9 = Sys_RegMap_Schedules_8 + 1"

definition Sys_RegMap_Nreg_Bool :: u32 where [regmap]:
  "Sys_RegMap_Nreg_Bool = Sys_RegMap_Reset_Button + 1 - Sys_RegMap_Offset_Bool"
definition Sys_RegMap_Nreg_Short :: u32 where [regmap]:
  "Sys_RegMap_Nreg_Short = Sys_RegMap_GTM + 1 - Sys_RegMap_Offset_Short"
definition Sys_RegMap_Nreg_Int_static :: u32 where [regmap]:
  "Sys_RegMap_Nreg_Int_static = Sys_RegMap_Schedules_9 - Sys_RegMap_Errors"
definition Sys_RegMap_Nreg_Int :: u32 where [regmap]:
  "Sys_RegMap_Nreg_Int = Sys_RegMap_Schedules_9 + 1 - Sys_RegMap_Offset_Int"

section \<open>Error bits\<close>

text \<open>\<open>Sys_ERROR_S2_LOW\<close> lacks the \<open>0b\<close> prefix of its neighbours: the literal is octal.\<close>

definition Sys_ERROR_NO :: i32 where [regmap]: "Sys_ERROR_NO = 0"
definition Sys_ERROR_S1_HIGH :: i32 where [regmap]: "Sys_ERROR_S1_HIGH = 0b00000001"
definition Sys_ERROR_S1_LOW :: i32 where [regmap]: "Sys_ERROR_S1_LOW = 0b00000010"
definition Sys_ERROR_S1_SHORT_CIRCUIT :: i32 where [regmap]: "Sys_ERROR_S1_SHORT_CIRCUIT = 0b00000100"
definition Sys_ERROR_S1_OPEN_CIRCUIT :: i32 where [regmap]: "Sys_ERROR_S1_OPEN_CIRCUIT = 0b00001000"
definition Sys_ERROR_S2_HIGH :: i32 where [regmap]: "Sys_ERROR_S2_HIGH = 0b0000000100000000"
definition Sys_ERROR_S2_LOW :: i32 where [regmap]: "Sys_ERROR_S2_LOW = 8 ^ 9"
definition Sys_ERROR_S2_SHORT_CIRCUIT :: i32 where [regmap]: "Sys_ERROR_S2_SHORT_CIRCUIT = 0b0000100000000000"
definition Sys_ERROR_S2_OPEN_CIRCUIT :: i32 where [regmap]: "Sys_ERROR_S2_OPEN_CIRCUIT = 0b0001000000000000"

section \<open>Facts about the map\<close>

lemma uint_minus_le: "uint y \<le> uint x \<Longrightarrow> uint (x - y) = uint x - uint y"
  for x y :: u32
  by (simp add: uint_minus_simple_alt [symmetric] word_le_def)

lemma GetIndex_eq:
  "Sys_RegMap_GetIndex a =
     (if 1000 \<le> uint a \<and> uint a < 3000 then uint a - 1000
      else if 3000 \<le> uint a \<and> uint a < 5000 then uint a - 3000
      else if 5000 \<le> uint a \<and> uint a < 5999 then uint a - 5000 else -1)"
  by (auto simp: Sys_RegMap_GetIndex_def regmap word_le_def word_less_def uint_minus_le)

lemma GetIndex_range: "-1 \<le> Sys_RegMap_GetIndex a \<and> Sys_RegMap_GetIndex a < 2000"
  by (auto simp: GetIndex_eq)

end
