(* ===== verification/Hardware.thy ===== *)
theory Hardware
  imports Board_Defs
begin

text \<open>
  The memory-mapped registers the drivers access. The machine keeps the trace of all accesses; the
  value a read returns is chosen by the environment \<open>env\<close> from the trace so far, so a theorem holds
  for whatever the peripherals and the outside world do. The trace has the newest access first.
\<close>

section \<open>Registers, accesses and the machine\<close>

datatype hwreg =
    SYSAHBCLKCTRL0 | PRESETCTRL0 | PDRUNCFG | MAINCLKSEL | MAINCLKUEN | ADCCLKSEL | ADCCLKDIV
  | I2C0CLKSEL | UART0CLKSEL | FRGCLKSEL | FRGDIV | FRGMULT | PINTSEL nat
  | PINASSIGN0 | PINASSIGN5 | PINENABLE0
  | GPIO_B nat | GPIO_DIRSET nat | GPIO_DIRCLR nat | GPIO_SET nat | GPIO_CLR nat | GPIO_NOT nat
  | PINT_ISEL | PINT_SIENF | PINT_CIENF | PINT_SIENR | PINT_CIENR | PINT_IST
  | MRT_CTRL nat | MRT_INTVAL nat | MRT_STAT nat | MRT_IRQ_FLAG
  | ADC_SEQ_CTRL | ADC_DAT nat
  | I2C_CFG | I2C_STAT | I2C_SLVADR | I2C_SLVCTL | I2C_SLVDAT | I2C_MSTCTL | I2C_MSTDAT
  | I2C_CLKDIV | I2C_MSTTIME
  | USART_CFG | USART_CTL | USART_STAT | USART_BRG | USART_OSR | USART_TXDAT
  | WWDT_TC | WWDT_MOD | WWDT_FEED
  | NVIC_ISER | NVIC_ICER | SYSTICK_LOAD

datatype access = Rd hwreg u32 | Wr hwreg u32

record hw =
  env :: "access list \<Rightarrow> hwreg \<Rightarrow> u32"
  trace :: "access list"
  irq_on :: bool
  SystemCoreClock :: u32

definition hw_read :: "hwreg \<Rightarrow> 'a hw_scheme \<Rightarrow> u32 \<times> 'a hw_scheme" where
  "hw_read r s = (let v = env s (trace s) r in (v, s\<lparr>trace := Rd r v # trace s\<rparr>))"

definition hw_write :: "hwreg \<Rightarrow> u32 \<Rightarrow> 'a hw_scheme \<Rightarrow> 'a hw_scheme" where
  "hw_write r v s = s\<lparr>trace := Wr r v # trace s\<rparr>"

text \<open>\<open>REG |= m\<close> and \<open>REG &= m\<close>: a read and a write.\<close>

definition hw_or :: "hwreg \<Rightarrow> u32 \<Rightarrow> 'a hw_scheme \<Rightarrow> 'a hw_scheme" where
  "hw_or r m s = (case hw_read r s of (v, s) \<Rightarrow> hw_write r (v OR m) s)"

definition hw_and :: "hwreg \<Rightarrow> u32 \<Rightarrow> 'a hw_scheme \<Rightarrow> 'a hw_scheme" where
  "hw_and r m s = (case hw_read r s of (v, s) \<Rightarrow> hw_write r (v AND m) s)"

text \<open>CMSIS: the global interrupt mask and the interrupt controller.\<close>

definition disable_irq :: "'a hw_scheme \<Rightarrow> 'a hw_scheme" where
  "disable_irq s = s\<lparr>irq_on := False\<rparr>"

definition enable_irq :: "'a hw_scheme \<Rightarrow> 'a hw_scheme" where
  "enable_irq s = s\<lparr>irq_on := True\<rparr>"

definition NVIC_EnableIRQ :: "int \<Rightarrow> 'a hw_scheme \<Rightarrow> 'a hw_scheme" where
  "NVIC_EnableIRQ n s = (if 0 \<le> n then hw_write NVIC_ISER (push_bit (nat n) 1) s else s)"

definition NVIC_DisableIRQ :: "int \<Rightarrow> 'a hw_scheme \<Rightarrow> 'a hw_scheme" where
  "NVIC_DisableIRQ n s = (if 0 \<le> n then hw_write NVIC_ICER (push_bit (nat n) 1) s else s)"

definition SysTick_IRQn :: int where "SysTick_IRQn = - 1"
definition I2C0_IRQn :: int where "I2C0_IRQn = 8"
definition MRT0_IRQn :: int where "MRT0_IRQn = 10"
definition PIN_INT0_IRQn :: int where "PIN_INT0_IRQn = 24"

section \<open>The bits of the device header used by the drivers\<close>

definition GPIO0_CLK_MASK :: u32 where "GPIO0_CLK_MASK = 0x40"
definition GPIO0_RST_N_MASK :: u32 where "GPIO0_RST_N_MASK = 0x40"
definition ADC_PD_MASK :: u32 where "ADC_PD_MASK = 0x10"
definition ADC_CLK_MASK :: u32 where "ADC_CLK_MASK = 0x1000000"
definition SWM_CLK_MASK :: u32 where "SWM_CLK_MASK = 0x80"
definition ADC_RST_N_MASK :: u32 where "ADC_RST_N_MASK = 0x1000000"
definition ADCCLKSEL_SEL_MASK :: u32 where "ADCCLKSEL_SEL_MASK = 0x3"
definition ADC_SEQ_CTRL_START_SHIFT :: nat where "ADC_SEQ_CTRL_START_SHIFT = 26"
definition ADC_SEQ_CTRL_TRIGPOL_SHIFT :: nat where "ADC_SEQ_CTRL_TRIGPOL_SHIFT = 18"
definition ADC_SEQ_CTRL_SEQ_ENA_SHIFT :: nat where "ADC_SEQ_CTRL_SEQ_ENA_SHIFT = 31"
definition ADC_DAT_RESULT_MASK :: u32 where "ADC_DAT_RESULT_MASK = 0xFFF0"
definition ADC_DAT_RESULT_SHIFT :: nat where "ADC_DAT_RESULT_SHIFT = 4"
definition PINENABLE0_ADC_0_SHIFT :: nat where "PINENABLE0_ADC_0_SHIFT = 10"
definition GPIO_INT_CLK_MASK :: u32 where "GPIO_INT_CLK_MASK = 0x10000000"
definition GPIOINT_RST_N_MASK :: u32 where "GPIOINT_RST_N_MASK = 0x10000000"
definition MRT_CLK_MASK :: u32 where "MRT_CLK_MASK = 0x400"
definition MRT_RST_N_MASK :: u32 where "MRT_RST_N_MASK = 0x400"
definition MRT_CTRL_MODE_SHIFT :: nat where "MRT_CTRL_MODE_SHIFT = 1"
definition MRT_CTRL_INTEN_MASK :: u32 where "MRT_CTRL_INTEN_MASK = 1"
definition MRT_INTVAL_LOAD_MASK :: u32 where "MRT_INTVAL_LOAD_MASK = 0x80000000"
definition MRT_STAT_INTFLAG_MASK :: u32 where "MRT_STAT_INTFLAG_MASK = 1"
definition PINASSIGN5_SCL_MASK :: u32 where "PINASSIGN5_SCL_MASK = 0xFF00"
definition PINASSIGN5_SDA_MASK :: u32 where "PINASSIGN5_SDA_MASK = 0xFF"
definition I2C0_CLK_MASK :: u32 where "I2C0_CLK_MASK = 0x20"
definition I2C0_RST_N_MASK :: u32 where "I2C0_RST_N_MASK = 0x20"
definition I2C_CFG_MSTEN_MASK :: u32 where "I2C_CFG_MSTEN_MASK = 1"
definition I2C_CFG_SLVEN_MASK :: u32 where "I2C_CFG_SLVEN_MASK = 2"
definition I2C_STAT_MSTPENDING_MASK :: u32 where "I2C_STAT_MSTPENDING_MASK = 1"
definition I2C_STAT_SLVPENDING_MASK :: u32 where "I2C_STAT_SLVPENDING_MASK = 0x100"
definition UART0_CLK_MASK :: u32 where "UART0_CLK_MASK = 0x4000"
definition UART0_RST_N_MASK :: u32 where "UART0_RST_N_MASK = 0x4000"
definition USART_STAT_TXRDY_MASK :: u32 where "USART_STAT_TXRDY_MASK = 4"
definition USART_CFG_ENABLE_MASK :: u32 where "USART_CFG_ENABLE_MASK = 1"
definition LPOSC_PD_MASK :: u32 where "LPOSC_PD_MASK = 0x40"
definition WWDT_CLK_MASK :: u32 where "WWDT_CLK_MASK = 0x20000"

section \<open>Accesses only extend the trace\<close>

lemma env_hw_ops [simp]:
  "env (hw_write r v s) = env s" "env (snd (hw_read r s)) = env s"
  "env (hw_or r v s) = env s" "env (hw_and r v s) = env s"
  "env (disable_irq s) = env s" "env (enable_irq s) = env s"
  "env (NVIC_EnableIRQ n s) = env s" "env (NVIC_DisableIRQ n s) = env s"
  by (simp_all add: hw_write_def hw_read_def hw_or_def hw_and_def disable_irq_def enable_irq_def
      NVIC_EnableIRQ_def NVIC_DisableIRQ_def Let_def)

lemma clock_hw_ops [simp]:
  "SystemCoreClock (hw_write r v s) = SystemCoreClock s"
  "SystemCoreClock (snd (hw_read r s)) = SystemCoreClock s"
  "SystemCoreClock (hw_or r v s) = SystemCoreClock s"
  "SystemCoreClock (hw_and r v s) = SystemCoreClock s"
  "SystemCoreClock (disable_irq s) = SystemCoreClock s"
  "SystemCoreClock (enable_irq s) = SystemCoreClock s"
  "SystemCoreClock (NVIC_EnableIRQ n s) = SystemCoreClock s"
  "SystemCoreClock (NVIC_DisableIRQ n s) = SystemCoreClock s"
  by (simp_all add: hw_write_def hw_read_def hw_or_def hw_and_def disable_irq_def enable_irq_def
      NVIC_EnableIRQ_def NVIC_DisableIRQ_def Let_def)

text \<open>The part of a state that is not hardware is the same.\<close>

lemma more_hw_ops [simp]:
  "hw.more (hw_write r v s) = hw.more s" "hw.more (snd (hw_read r s)) = hw.more s"
  "hw.more (hw_or r v s) = hw.more s" "hw.more (hw_and r v s) = hw.more s"
  "hw.more (disable_irq s) = hw.more s" "hw.more (enable_irq s) = hw.more s"
  "hw.more (NVIC_EnableIRQ n s) = hw.more s" "hw.more (NVIC_DisableIRQ n s) = hw.more s"
  by (simp_all add: hw_write_def hw_read_def hw_or_def hw_and_def disable_irq_def enable_irq_def
      NVIC_EnableIRQ_def NVIC_DisableIRQ_def Let_def)

text \<open>The writes of a trace, oldest first.\<close>

fun writes_of :: "access list \<Rightarrow> (hwreg \<times> u32) list" where
  "writes_of [] = []"
| "writes_of (Wr r v # t) = writes_of t @ [(r, v)]"
| "writes_of (Rd r v # t) = writes_of t"

end
