(* ===== verification/Gpio.thy ===== *)
theory Gpio
  imports Hardware
begin

text \<open>
  \<open>drivers/gpio/gpio.c\<close>: pins with a direction mirrored in two masks. Writes go to the set, clear
  and toggle registers only for output pins, reads to the byte register only for input pins.
  A shift by a pin number of 32 or more yields zero, as on the target.
\<close>

section \<open>The code\<close>

record gpio = hw +
  gpioOn :: bool
  inputRefPin :: u32
  outputRefPin :: u32

definition pin_bit :: "u8 \<Rightarrow> u32" where "pin_bit pin = push_bit (unat pin) 1"

definition gpio_enableClock :: "'a gpio_scheme \<Rightarrow> 'a gpio_scheme" where
  "gpio_enableClock s = (
     let s = hw_or SYSAHBCLKCTRL0 GPIO0_CLK_MASK s;
         s = hw_and PRESETCTRL0 (NOT GPIO0_RST_N_MASK) s;
         s = hw_or PRESETCTRL0 GPIO0_RST_N_MASK s
     in s\<lparr>gpioOn := True\<rparr>)"

definition gpio_ensureOn :: "'a gpio_scheme \<Rightarrow> 'a gpio_scheme" where
  "gpio_ensureOn s = (if \<not> gpioOn s then gpio_enableClock s else s)"

definition gpio_ConfigPinInput :: "u8 \<Rightarrow> 'a gpio_scheme \<Rightarrow> 'a gpio_scheme" where
  "gpio_ConfigPinInput pin s = (
     let s = gpio_ensureOn s;
         s = s\<lparr>inputRefPin := inputRefPin s OR pin_bit pin,
               outputRefPin := outputRefPin s AND NOT (pin_bit pin)\<rparr>;
         s = hw_write (GPIO_DIRCLR 0) (pin_bit pin) s
     in s\<lparr>gpioOn := True\<rparr>)"

definition gpio_ConfigPortInput :: "u8 \<Rightarrow> 'a gpio_scheme \<Rightarrow> 'a gpio_scheme" where
  "gpio_ConfigPortInput port s = (
     let s = gpio_ensureOn s;
         s = s\<lparr>inputRefPin := 0xFFFF, outputRefPin := 0\<rparr>;
         s = hw_write (GPIO_DIRCLR (unat port)) 0xFFFF s
     in s\<lparr>gpioOn := True\<rparr>)"

definition gpio_ConfigPinOutput :: "u8 \<Rightarrow> 'a gpio_scheme \<Rightarrow> 'a gpio_scheme" where
  "gpio_ConfigPinOutput pin s = (
     let s = gpio_ensureOn s;
         s = s\<lparr>inputRefPin := inputRefPin s AND NOT (pin_bit pin),
               outputRefPin := outputRefPin s OR pin_bit pin\<rparr>;
         s = hw_write (GPIO_DIRSET 0) (pin_bit pin) s
     in s\<lparr>gpioOn := True\<rparr>)"

definition gpio_ConfigPortOutput :: "u8 \<Rightarrow> 'a gpio_scheme \<Rightarrow> 'a gpio_scheme" where
  "gpio_ConfigPortOutput port s = (
     let s = gpio_ensureOn s;
         s = s\<lparr>inputRefPin := 0, outputRefPin := 0xFFFF\<rparr>;
         s = hw_write (GPIO_DIRSET (unat port)) 0xFFFF s
     in s\<lparr>gpioOn := True\<rparr>)"

definition gpio_ReadPin :: "u8 \<Rightarrow> 'a gpio_scheme \<Rightarrow> bool \<times> 'a gpio_scheme" where
  "gpio_ReadPin pin s =
     (if pin_bit pin AND inputRefPin s \<noteq> 0
      then (case hw_read (GPIO_B (unat pin)) s of (v, s) \<Rightarrow> ((ucast v :: u8) \<noteq> 0, s))
      else (False, s))"

definition gpio_ReadPort :: "u8 \<Rightarrow> 'a gpio_scheme \<Rightarrow> u32" where
  "gpio_ReadPort port s = 0"

definition gpio_SetPin :: "u8 \<Rightarrow> 'a gpio_scheme \<Rightarrow> 'a gpio_scheme" where
  "gpio_SetPin pin s =
     (if pin_bit pin AND outputRefPin s \<noteq> 0 then hw_write (GPIO_SET 0) (pin_bit pin) s else s)"

definition gpio_ClearPin :: "u8 \<Rightarrow> 'a gpio_scheme \<Rightarrow> 'a gpio_scheme" where
  "gpio_ClearPin pin s =
     (if pin_bit pin AND outputRefPin s \<noteq> 0 then hw_write (GPIO_CLR 0) (pin_bit pin) s else s)"

definition gpio_WritePin :: "u8 \<Rightarrow> bool \<Rightarrow> 'a gpio_scheme \<Rightarrow> 'a gpio_scheme" where
  "gpio_WritePin pin value s =
     (if pin_bit pin AND outputRefPin s \<noteq> 0
      then (if value then gpio_SetPin pin s else gpio_ClearPin pin s) else s)"

definition gpio_TogglePin :: "u8 \<Rightarrow> 'a gpio_scheme \<Rightarrow> 'a gpio_scheme" where
  "gpio_TogglePin pin s =
     (if pin_bit pin AND outputRefPin s \<noteq> 0 then hw_write (GPIO_NOT 0) (pin_bit pin) s else s)"

definition gpio_WritePort :: "u8 \<Rightarrow> u32 \<Rightarrow> 'a gpio_scheme \<Rightarrow> 'a gpio_scheme" where
  "gpio_WritePort port value s =
     hw_write (GPIO_SET (unat port)) value (hw_write (GPIO_CLR (unat port)) (NOT value) s)"

definition gpio_SetPort :: "u8 \<Rightarrow> u32 \<Rightarrow> 'a gpio_scheme \<Rightarrow> 'a gpio_scheme" where
  "gpio_SetPort port msk s = hw_write (GPIO_SET 0) msk s"

definition gpio_ClearPort :: "u8 \<Rightarrow> u32 \<Rightarrow> 'a gpio_scheme \<Rightarrow> 'a gpio_scheme" where
  "gpio_ClearPort port msk s = hw_write (GPIO_CLR 0) msk s"

definition gpio_TogglePort :: "u8 \<Rightarrow> u32 \<Rightarrow> 'a gpio_scheme \<Rightarrow> 'a gpio_scheme" where
  "gpio_TogglePort port msk s = hw_write (GPIO_NOT (unat port)) msk s"

definition gpio_resetDisable :: "'a gpio_scheme \<Rightarrow> 'a gpio_scheme" where
  "gpio_resetDisable s = hw_or PINENABLE0 (push_bit 6 1) s"

definition gpio_resetEnable :: "'a gpio_scheme \<Rightarrow> 'a gpio_scheme" where
  "gpio_resetEnable s = hw_and PINENABLE0 (NOT (push_bit 6 1)) s"

section \<open>Specification: the level driven on a pin of port 0\<close>

text \<open>
  The level the last accesses to the output registers of port 0 leave on a pin, \<^term>\<open>None\<close> when
  nothing in the trace determines it.
\<close>

fun pin_level :: "nat \<Rightarrow> access list \<Rightarrow> bool option" where
  "pin_level p [] = None"
| "pin_level p (Wr (GPIO_SET 0) m # t) = (if bit m p then Some True else pin_level p t)"
| "pin_level p (Wr (GPIO_CLR 0) m # t) = (if bit m p then Some False else pin_level p t)"
| "pin_level p (Wr (GPIO_NOT 0) m # t) =
     (if bit m p then map_option Not (pin_level p t) else pin_level p t)"
| "pin_level p (a # t) = pin_level p t"

definition is_output :: "u8 \<Rightarrow> 'a gpio_scheme \<Rightarrow> bool" where
  "is_output pin s \<longleftrightarrow> bit (outputRefPin s) (unat pin)"

definition is_input :: "u8 \<Rightarrow> 'a gpio_scheme \<Rightarrow> bool" where
  "is_input pin s \<longleftrightarrow> bit (inputRefPin s) (unat pin)"

text \<open>No pin is recorded in both directions.\<close>

definition wf_gpio :: "'a gpio_scheme \<Rightarrow> bool" where
  "wf_gpio s \<longleftrightarrow> inputRefPin s AND outputRefPin s = 0"

lemma bit_pin_bit [simp]: "bit (pin_bit pin) n \<longleftrightarrow> n < 32 \<and> n = unat pin"
  by (auto simp: pin_bit_def bit_simps)

lemma pin_bit_and: "pin_bit pin AND m \<noteq> 0 \<longleftrightarrow> bit m (unat pin)" for m :: u32
proof -
  have "bit (pin_bit pin AND m) n \<longleftrightarrow> n = unat pin \<and> bit m (unat pin)" for n
    using bit_imp_le_length [of m "unat pin"] by (auto simp: bit_and_iff)
  then show ?thesis by (metis bit_0_eq bit_word_eqI bot_apply bot_bool_def)
qed

lemma guard_output: "pin_bit pin AND outputRefPin s \<noteq> 0 \<longleftrightarrow> is_output pin s"
  by (simp add: pin_bit_and is_output_def)

lemma guard_input: "pin_bit pin AND inputRefPin s \<noteq> 0 \<longleftrightarrow> is_input pin s"
  by (simp add: pin_bit_and is_input_def)

lemma is_output_less: "is_output pin s \<Longrightarrow> unat pin < 32"
  using bit_imp_le_length [of "outputRefPin s" "unat pin"] by (simp add: is_output_def)

lemma wf_gpio_bits: "wf_gpio s \<longleftrightarrow> (\<forall>n. \<not> (bit (inputRefPin s) n \<and> bit (outputRefPin s) n))"
  by (simp add: wf_gpio_def word_zero_bits bit_and_iff)

lemma gpio_ops_masks [simp]:
  "inputRefPin (hw_write r v s) = inputRefPin s" "outputRefPin (hw_write r v s) = outputRefPin s"
  "inputRefPin (hw_or r v s) = inputRefPin s" "outputRefPin (hw_or r v s) = outputRefPin s"
  "inputRefPin (hw_and r v s) = inputRefPin s" "outputRefPin (hw_and r v s) = outputRefPin s"
  "inputRefPin (snd (hw_read r s)) = inputRefPin s" "outputRefPin (snd (hw_read r s)) = outputRefPin s"
  by (simp_all add: hw_write_def hw_read_def hw_or_def hw_and_def Let_def)

lemma ensureOn_masks [simp]:
  "inputRefPin (gpio_ensureOn s) = inputRefPin s" "outputRefPin (gpio_ensureOn s) = outputRefPin s"
  by (simp_all add: gpio_ensureOn_def gpio_enableClock_def Let_def)

section \<open>Properties\<close>

lemma is_output_ops [simp]:
  "is_output p (gpio_SetPin q s) = is_output p s" "is_output p (gpio_ClearPin q s) = is_output p s"
  "is_output p (gpio_TogglePin q s) = is_output p s" "is_output p (snd (gpio_ReadPin q s)) = is_output p s"
  by (simp_all add: is_output_def gpio_SetPin_def gpio_ClearPin_def gpio_TogglePin_def
      gpio_ReadPin_def split: prod.splits) (metis gpio_ops_masks(8) snd_conv)

lemma SetPin_level: "pin_level (unat p) (trace (gpio_SetPin q s)) =
    (if is_output q s \<and> p = q then Some True else pin_level (unat p) (trace s))"
  using is_output_less [of q s]
  by (auto simp: gpio_SetPin_def guard_output hw_write_def)

lemma ClearPin_level: "pin_level (unat p) (trace (gpio_ClearPin q s)) =
    (if is_output q s \<and> p = q then Some False else pin_level (unat p) (trace s))"
  using is_output_less [of q s]
  by (auto simp: gpio_ClearPin_def guard_output hw_write_def)

lemma TogglePin_level: "pin_level (unat p) (trace (gpio_TogglePin q s)) =
    (if is_output q s \<and> p = q then map_option Not (pin_level (unat p) (trace s))
     else pin_level (unat p) (trace s))"
  using is_output_less [of q s]
  by (auto simp: gpio_TogglePin_def guard_output hw_write_def)

lemma ReadPin_output: "wf_gpio s \<Longrightarrow> is_output p s \<Longrightarrow> gpio_ReadPin p s = (False, s)"
  by (auto simp: gpio_ReadPin_def guard_input wf_gpio_bits is_output_def is_input_def)

text \<open>
  Writing a pin drives exactly that pin, and only when it is an output: afterwards its level is
  the written value (or its complement for a toggle) and every other pin keeps its level.
\<close>

theorem pin_writes_drive_the_pin:
  "pin_level (unat p) (trace (gpio_WritePin q v s)) =
     (if is_output q s \<and> p = q then Some v else pin_level (unat p) (trace s)) \<and>
   pin_level (unat p) (trace (gpio_TogglePin q s)) =
     (if is_output q s \<and> p = q then map_option Not (pin_level (unat p) (trace s))
      else pin_level (unat p) (trace s))"
  by (auto simp: gpio_WritePin_def guard_output SetPin_level ClearPin_level TogglePin_level)


definition gpio_zero :: gpio where
  "gpio_zero = \<lparr>env = (\<lambda>_ _. 0), trace = [], irq_on = True, SystemCoreClock = 12000000,
     gpioOn = False, inputRefPin = 0, outputRefPin = 0\<rparr>"


end
