(* ===== verification/Adc.thy ===== *)
theory Adc
  imports Gpio
begin

text \<open>
  \<open>drivers/peripheral/adc/adc.c\<close>: the converter's set-up, averaged readings and the conversion to
  millivolts. A reading loop is a recursion over the number of samples left.
\<close>

section \<open>The code\<close>

record adc_t =
  channel :: u8
  measureLength :: u16
  convertTo_mv :: i32

record adc = gpio +
  adcOn :: u8

definition adc_Begin :: "'a adc_scheme \<Rightarrow> 'a adc_scheme" where
  "adc_Begin s = (
     let s = hw_and PDRUNCFG (NOT ADC_PD_MASK) s;
         s = hw_or SYSAHBCLKCTRL0 (ADC_CLK_MASK OR SWM_CLK_MASK) s;
         s = hw_and PRESETCTRL0 (NOT ADC_RST_N_MASK) s;
         s = hw_or PRESETCTRL0 ADC_RST_N_MASK s;
         s = hw_and ADCCLKSEL (NOT ADCCLKSEL_SEL_MASK) s;
         s = hw_write ADCCLKDIV 1 s
     in s\<lparr>adcOn := 1\<rparr>)"

text \<open>One sample: pulse the start bit, read the channel's data register, isolate the result.\<close>

definition adc_sample :: "adc_t \<Rightarrow> 'a adc_scheme \<Rightarrow> u32 \<times> 'a adc_scheme" where
  "adc_sample adc s = (
     let s = hw_and ADC_SEQ_CTRL (NOT (push_bit ADC_SEQ_CTRL_START_SHIFT 1)) s;
         s = hw_or ADC_SEQ_CTRL (push_bit ADC_SEQ_CTRL_START_SHIFT 1) s;
         (dat, s) = hw_read (ADC_DAT (unat (channel adc))) s;
         adc_result = dat AND ADC_DAT_RESULT_MASK
     in (drop_bit ADC_DAT_RESULT_SHIFT adc_result, s))"

primrec adc_samples :: "nat \<Rightarrow> adc_t \<Rightarrow> u32 \<Rightarrow> 'a adc_scheme \<Rightarrow> u32 \<times> 'a adc_scheme" where
  "adc_samples 0 adc value s = (value, s)"
| "adc_samples (Suc n) adc value s =
     (case adc_sample adc s of (v, s) \<Rightarrow> adc_samples n adc (value + v) s)"

text \<open>The argument is a pointer that may be null.\<close>

definition adc_Read :: "adc_t option \<Rightarrow> 'a adc_scheme \<Rightarrow> (i32 \<times> 'a adc_scheme) option" where
  "adc_Read ptr s =
     (if adcOn s = 0 then Some (- 1, s)
      else case ptr of
        None \<Rightarrow> Some (- 2, s)
      | Some adc \<Rightarrow>
          (case adc_samples (unat (measureLength adc)) adc 0 s of (value, s) \<Rightarrow>
             if measureLength adc = 0 then None
             else Some (value div ucast (measureLength adc), s)))"

definition adc_ConvertToMiliVolts :: "adc_t \<Rightarrow> i32 \<Rightarrow> i32 option" where
  "adc_ConvertToMiliVolts adc reading = do {
     value \<leftarrow> c_div (convertTo_mv adc * reading) 1000;
     c_div (972 * value) 1000 }"

definition adc_ReadMiliVolts :: "adc_t \<Rightarrow> 'a adc_scheme \<Rightarrow> (i32 \<times> 'a adc_scheme) option" where
  "adc_ReadMiliVolts adc s = do {
     (v, s) \<leftarrow> adc_Read (Some adc) s;
     value \<leftarrow> c_div (convertTo_mv adc * v) 1000;
     mv \<leftarrow> c_div (972 * value) 1000;
     Some (mv, s) }"

definition adc_Config :: "u8 \<Rightarrow> u16 \<Rightarrow> 'a adc_scheme \<Rightarrow> adc_t \<times> 'a adc_scheme" where
  "adc_Config ch len s = (
     let s = (if adcOn s = 0 then adc_Begin s else s);
         adc = \<lparr>channel = ch, measureLength = (if len \<noteq> 0 then len else 1),
                convertTo_mv = 3300000 div 0xFFF\<rparr>;
         s = hw_and PINENABLE0 (NOT (push_bit (PINENABLE0_ADC_0_SHIFT + unat ch) 1)) s;
         s = hw_or ADC_SEQ_CTRL (push_bit (unat ch) 1) s;
         s = hw_or ADC_SEQ_CTRL (push_bit ADC_SEQ_CTRL_TRIGPOL_SHIFT 1) s;
         s = hw_or ADC_SEQ_CTRL (push_bit ADC_SEQ_CTRL_SEQ_ENA_SHIFT 1) s;
         s = hw_or ADC_SEQ_CTRL (push_bit ADC_SEQ_CTRL_START_SHIFT 1) s
     in (adc, s))"

section \<open>Readings are bounded\<close>

lemma sample_bound: "fst (adc_sample adc s) \<le> 4095"
proof -
  have "(drop_bit 4 (w AND 0xFFF0) :: u32) \<le> 4095" for w :: u32
  proof -
    have m: "(0xFFF0 :: u32) = push_bit 4 (mask 12)" by (simp add: mask_eq_exp_minus_1)
    have "drop_bit 4 (w AND 0xFFF0) = take_bit 12 (drop_bit 4 w)"
      unfolding m by (rule bit_eqI) (auto simp: bit_simps)
    moreover have "unat (take_bit 12 (drop_bit 4 w)) < 2 ^ 12"
      by (subst unsigned_take_bit_eq) (rule take_bit_nat_less_exp)
    ultimately show ?thesis by (simp add: word_le_nat_alt)
  qed
  then show ?thesis
    by (simp add: adc_sample_def Let_def ADC_DAT_RESULT_SHIFT_def ADC_DAT_RESULT_MASK_def
        split: prod.splits)
qed

lemma adc_samples_bound:
  "adc_samples n adc tot s = (v, s') \<Longrightarrow> unat tot + n * 4095 < 2 ^ 32 \<Longrightarrow>
   unat v \<le> unat tot + n * 4095"
proof (induction n arbitrary: tot s)
  case 0
  then show ?case by simp
next
  case (Suc n)
  obtain x s1 where x: "adc_sample adc s = (x, s1)" by (cases "adc_sample adc s")
  then have "unat x \<le> 4095" using sample_bound [of adc s] by (simp add: word_le_nat_alt)
  moreover from this have "unat (tot + x) = unat tot + unat x"
    using Suc.prems(2) by (subst unat_add_lem [THEN iffD1]) simp_all
  moreover have "adc_samples n adc (tot + x) s1 = (v, s')" using Suc.prems(1) x by simp
  ultimately show ?case using Suc.IH [of "tot + x" s1] Suc.prems(2) by simp
qed


definition adc_zero :: adc where
  "adc_zero = gpio.extend gpio_zero \<lparr>adcOn = 1\<rparr>"


end
