(* ===== verification/System.thy ===== *)
theory System
  imports Adc
begin

text \<open>
  \<open>app/system.c\<close>: the clock of the target and the watchdog. The routine of the ROM that sets the
  oscillator is called from inline assembly and is a parameter; it gets the frequency in kHz. After
  the call all three set-up functions branch to the label \<open>Exit\<close>, which is the end of the assembly
  of the first: the 24 and the 18 MHz variant, which nothing calls, go on there and never reach
  their own assignment of the clock.
\<close>

text \<open>What follows the label \<open>Exit\<close>.\<close>

definition clock_Exit :: "'a adc_scheme \<Rightarrow> 'a adc_scheme" where
  "clock_Exit s = s\<lparr>SystemCoreClock := 15000000\<rparr>"

definition SysConfigClock30M ::
  "(u32 \<Rightarrow> 'a adc_scheme \<Rightarrow> 'a adc_scheme) \<Rightarrow> 'a adc_scheme \<Rightarrow> 'a adc_scheme" where
  "SysConfigClock30M rom_set_fro_frequency s = clock_Exit (rom_set_fro_frequency 30000 s)"

definition SysConfigClock24M ::
  "(u32 \<Rightarrow> 'a adc_scheme \<Rightarrow> 'a adc_scheme) \<Rightarrow> 'a adc_scheme \<Rightarrow> 'a adc_scheme" where
  "SysConfigClock24M rom_set_fro_frequency s = clock_Exit (rom_set_fro_frequency 24000 s)"

definition SysConfigClock18M ::
  "(u32 \<Rightarrow> 'a adc_scheme \<Rightarrow> 'a adc_scheme) \<Rightarrow> 'a adc_scheme \<Rightarrow> 'a adc_scheme" where
  "SysConfigClock18M rom_set_fro_frequency s = clock_Exit (rom_set_fro_frequency 18000 s)"

definition watchdog_feed :: "'a adc_scheme \<Rightarrow> 'a adc_scheme" where
  "watchdog_feed s = hw_write WWDT_FEED 0x55 (hw_write WWDT_FEED 0xAA s)"

definition watchdog_init :: "i32 \<Rightarrow> 'a adc_scheme \<Rightarrow> 'a adc_scheme" where
  "watchdog_init time s = (
     let s = hw_and PDRUNCFG (NOT LPOSC_PD_MASK) s;
         s = hw_or SYSAHBCLKCTRL0 WWDT_CLK_MASK s;
         s = hw_write WWDT_TC (250 * time) s;
         s = hw_write WWDT_MOD (push_bit 0 1 OR push_bit 1 1) s;
         s = hw_write WWDT_FEED 0xAA s
     in hw_write WWDT_FEED 0x55 s)"

section \<open>Feeding\<close>

text \<open>The values written to the feed register, oldest first.\<close>

definition feeds :: "'a hw_scheme \<Rightarrow> u32 list" where
  "feeds s = map snd (filter (\<lambda>(r, v). r = WWDT_FEED) (writes_of (trace s)))"

lemma feeds_hw [simp]:
  "feeds (hw_write r v s) = (if r = WWDT_FEED then feeds s @ [v] else feeds s)"
  "r \<noteq> WWDT_FEED \<Longrightarrow> feeds (hw_or r v s) = feeds s"
  "r \<noteq> WWDT_FEED \<Longrightarrow> feeds (hw_and r v s) = feeds s"
  by (auto simp: feeds_def hw_write_def hw_or_def hw_and_def hw_read_def Let_def)

lemma feeds_watchdog_feed: "feeds (watchdog_feed s) = feeds s @ [0xAA, 0x55]"
  by (simp add: watchdog_feed_def)

lemma feeds_watchdog_init: "feeds (watchdog_init t s) = feeds s @ [0xAA, 0x55]"
  by (simp add: watchdog_init_def Let_def)

end
