(* ===== verification/Interrupt.thy ===== *)
theory Interrupt
  imports System
begin

text \<open>
  \<open>drivers/interrupt/interrupt.c\<close>: external, timer and tick interrupts. Pointers to functions are
  the names of the program's functions; a handler takes the meaning of a call as an argument.
  The arguments stored for external interrupts (\<open>vetArg\<close>) are never assigned in the code and stay
  null, so a call has no argument.
\<close>

section \<open>State\<close>

datatype c_func =
    Rec_isr_Botoeira | Rec_isr_Flow | IsrScheduler
  | Rec_get_Temp | Rec_measure | Rec_current_measure | Rec_ref_measure | Rec_system
  | Rec_error_process | TickTimestamp | Rec_change_verify | Rec_create_messages | RTC_Loop

datatype INTERRUPT_TRIGGER = FALLING | RISING | EDGE | LOW_LEVEL | HIGH_LEVEL

primrec trigger_bits :: "INTERRUPT_TRIGGER \<Rightarrow> u32" where
  "trigger_bits FALLING = 0b01"
| "trigger_bits RISING = 0b10"
| "trigger_bits EDGE = 0b011"
| "trigger_bits LOW_LEVEL = 0b101"
| "trigger_bits HIGH_LEVEL = 0b110"

datatype TIMER_MODE = RepeatInterrupt | OneShot | BusStall

primrec mode_bits :: "TIMER_MODE \<Rightarrow> u32" where
  "mode_bits RepeatInterrupt = 0"
| "mode_bits OneShot = 1"
| "mode_bits BusStall = 2"

record interrupt = adc +
  intCount :: u8
  ptrIsrFunc :: "c_func option list"
  ptrIsrTimer :: "c_func option list"
  ptrSysTickISR :: "c_func option"
  SysTickCount :: u64
  SysTickFreq :: u32
  dT_us :: u32

section \<open>External interrupts\<close>

text \<open>The loops over the channels in use.\<close>

primrec nvic_all :: "(int \<Rightarrow> 's \<Rightarrow> 's) \<Rightarrow> nat \<Rightarrow> 's \<Rightarrow> 's" where
  "nvic_all f 0 s = s"
| "nvic_all f (Suc n) s = f (PIN_INT0_IRQn + int n) (nvic_all f n s)"

definition newExternInterrupt ::
  "u8 \<Rightarrow> c_func option \<Rightarrow> INTERRUPT_TRIGGER \<Rightarrow> 'a interrupt_scheme \<Rightarrow> 'a interrupt_scheme option" where
  "newExternInterrupt pin isrFunc trigger s =
     (if isrFunc = None then Some s
      else if 8 \<le> intCount s then Some s
      else let
        n = unat (intCount s);
        t = trigger_bits trigger;
        s = disable_irq s;
        s = (if intCount s = 0
             then hw_or PRESETCTRL0 GPIOINT_RST_N_MASK
                    (hw_and PRESETCTRL0 (NOT GPIOINT_RST_N_MASK)
                      (hw_or SYSAHBCLKCTRL0 GPIO_INT_CLK_MASK
                        (NVIC_DisableIRQ PIN_INT0_IRQn s)))
             else s);
        s = nvic_all NVIC_DisableIRQ n s;
        s = hw_write (PINTSEL n) (ucast pin) s;
        s = hw_or PINT_ISEL (push_bit n (drop_bit 2 (t AND 0b100))) s;
        s = hw_or PINT_SIENF (push_bit n (t AND 0b01)) s;
        s = hw_or PINT_CIENF (push_bit n (NOT t AND 0b01)) s;
        s = hw_or PINT_SIENR (push_bit n (drop_bit 1 (t AND 0b10))) s;
        s = hw_or PINT_CIENR (push_bit n (drop_bit 1 (NOT t AND 0b10))) s;
        s = hw_write PINT_IST 0xFF s
      in do {
        funcs \<leftarrow> arr_set (ptrIsrFunc s) n isrFunc;
        let s = s\<lparr>ptrIsrFunc := funcs, intCount := intCount s + 1\<rparr>;
        let s = nvic_all NVIC_EnableIRQ (unat (intCount s)) s;
        Some (enable_irq s) })"

text \<open>The eight handlers of the external channels differ only in the channel.\<close>

definition PIN_INT_IRQHandler ::
  "(c_func \<Rightarrow> 'a interrupt_scheme \<Rightarrow> 'a interrupt_scheme option) \<Rightarrow> nat \<Rightarrow>
   'a interrupt_scheme \<Rightarrow> 'a interrupt_scheme option" where
  "PIN_INT_IRQHandler call ch s =
     (case hw_read PINT_IST s of (ist, s) \<Rightarrow>
        if ist AND push_bit ch 1 \<noteq> 0
        then let s = hw_write PINT_IST (push_bit ch 1) s in do {
          f \<leftarrow> arr_get (ptrIsrFunc s) ch;
          (case f of None \<Rightarrow> Some s | Some g \<Rightarrow> call g s) }
        else Some s)"

section \<open>Timer interrupts\<close>

definition newTimerInterrupt ::
  "u8 \<Rightarrow> c_func option \<Rightarrow> TIMER_MODE \<Rightarrow> u32 \<Rightarrow> 'a interrupt_scheme \<Rightarrow> 'a interrupt_scheme option" where
  "newTimerInterrupt Timer isrFunc timerMode ticks s =
     (if \<not> (0 < ticks \<and> isrFunc \<noteq> None) then Some s
      else let
        s = disable_irq s;
        s = NVIC_DisableIRQ MRT0_IRQn s;
        s = hw_or SYSAHBCLKCTRL0 MRT_CLK_MASK s;
        s = hw_and PRESETCTRL0 (NOT MRT_RST_N_MASK) s;
        s = hw_or PRESETCTRL0 MRT_RST_N_MASK s;
        s = hw_write (MRT_CTRL (unat Timer))
              (push_bit MRT_CTRL_MODE_SHIFT (mode_bits timerMode) OR MRT_CTRL_INTEN_MASK) s;
        s = hw_write (MRT_INTVAL (unat Timer)) (ticks AND NOT MRT_INTVAL_LOAD_MASK) s
      in do {
        funcs \<leftarrow> arr_set (ptrIsrTimer s) (unat Timer) isrFunc;
        let s = s\<lparr>ptrIsrTimer := funcs\<rparr>;
        Some (enable_irq (NVIC_EnableIRQ MRT0_IRQn s)) })"

definition newTimerIntFreq ::
  "u8 \<Rightarrow> c_func option \<Rightarrow> i32 \<Rightarrow> 'a interrupt_scheme \<Rightarrow> 'a interrupt_scheme option" where
  "newTimerIntFreq Timer isrFunc frequency s =
     (if \<not> (0 < sint frequency \<and> isrFunc \<noteq> None) then Some s
      else let ticks = SystemCoreClock s div frequency
           in newTimerInterrupt Timer isrFunc RepeatInterrupt ticks s)"

definition newTimerIntOneShot ::
  "u8 \<Rightarrow> c_func option \<Rightarrow> i32 \<Rightarrow> 'a interrupt_scheme \<Rightarrow> 'a interrupt_scheme option" where
  "newTimerIntOneShot Timer isrFunc time_us s =
     (if \<not> (0 < sint time_us \<and> isrFunc \<noteq> None) then Some s
      else let ticks = (SystemCoreClock s div 1000000) * time_us
           in newTimerInterrupt Timer isrFunc OneShot ticks s)"

text \<open>One channel of the timer's handler, then the handler.\<close>

definition MRT0_channel ::
  "(c_func \<Rightarrow> 'a interrupt_scheme \<Rightarrow> 'a interrupt_scheme option) \<Rightarrow> nat \<Rightarrow>
   'a interrupt_scheme \<Rightarrow> 'a interrupt_scheme option" where
  "MRT0_channel call ch s =
     (case hw_read MRT_IRQ_FLAG s of (flags, s) \<Rightarrow>
        if flags AND push_bit ch 1 \<noteq> 0
        then let s = hw_write (MRT_STAT ch) MRT_STAT_INTFLAG_MASK s in do {
          f \<leftarrow> arr_get (ptrIsrTimer s) ch;
          (case f of None \<Rightarrow> Some s | Some g \<Rightarrow> call g s) }
        else Some s)"

definition MRT0_IRQHandler ::
  "(c_func \<Rightarrow> 'a interrupt_scheme \<Rightarrow> 'a interrupt_scheme option) \<Rightarrow>
   'a interrupt_scheme \<Rightarrow> 'a interrupt_scheme option" where
  "MRT0_IRQHandler call s = do { s \<leftarrow> MRT0_channel call 0 s; MRT0_channel call 1 s }"

section \<open>The system tick\<close>

text \<open>
  \<open>SysTick_Config\<close> of CMSIS refuses a reload value above 24 bits. The division by the frequency
  is undefined when the number of ticks exceeds the clock.
\<close>

definition SysTickBegin :: "i32 \<Rightarrow> 'a interrupt_scheme \<Rightarrow> 'a interrupt_scheme option" where
  "SysTickBegin ticks s =
     (if \<not> 0 < sint ticks then Some s
      else let
        s = disable_irq s;
        s = NVIC_DisableIRQ SysTick_IRQn s;
        s = hw_write MAINCLKSEL 0 s;
        s = hw_and MAINCLKUEN (NOT 1) s;
        s = hw_or MAINCLKUEN 1 s;
        s = s\<lparr>SysTickFreq := SystemCoreClock s div ticks\<rparr>
      in if SysTickFreq s = 0 then None
         else let
           s = s\<lparr>dT_us := 1000000 div SysTickFreq s\<rparr>;
           s = (if ticks - 1 \<le> 0xFFFFFF then hw_write SYSTICK_LOAD (ticks - 1) s else s);
           s = NVIC_EnableIRQ SysTick_IRQn s
         in Some (enable_irq s))"

definition SysTickBeginISR ::
  "i32 \<Rightarrow> c_func option \<Rightarrow> 'a interrupt_scheme \<Rightarrow> 'a interrupt_scheme option" where
  "SysTickBeginISR frequency isrFunc s =
     (if \<not> (0 < sint frequency \<and> isrFunc \<noteq> None \<and> sint frequency < 40000) then Some s
      else let s = s\<lparr>ptrSysTickISR := isrFunc\<rparr>
           in SysTickBegin (SystemCoreClock s div frequency) s)"

definition SysTickGetTicks :: "'a interrupt_scheme \<Rightarrow> u64" where
  "SysTickGetTicks s = SysTickCount s"

definition SysTick_Handler ::
  "(c_func \<Rightarrow> 'a interrupt_scheme \<Rightarrow> 'a interrupt_scheme option) \<Rightarrow>
   'a interrupt_scheme \<Rightarrow> 'a interrupt_scheme option" where
  "SysTick_Handler call s = (
     let s = s\<lparr>SysTickCount := SysTickCount s + 1\<rparr> in
     case ptrSysTickISR s of None \<Rightarrow> Some s | Some f \<Rightarrow> call f s)"

definition SysTickGetTime_us :: "'a interrupt_scheme \<Rightarrow> u64" where
  "SysTickGetTime_us s = ucast (dT_us s) * SysTickCount s"

definition SysTickGetTime_ms :: "'a interrupt_scheme \<Rightarrow> u64" where
  "SysTickGetTime_ms s = (ucast (dT_us s) * SysTickCount s) div 1000"

definition SysTickGetTime_seconds :: "'a interrupt_scheme \<Rightarrow> u64" where
  "SysTickGetTime_seconds s = SysTickGetTime_ms s div 1000"

section \<open>What hardware accesses leave unchanged\<close>

definition wf_int :: "'a interrupt_scheme \<Rightarrow> bool" where
  "wf_int s \<longleftrightarrow> length (ptrIsrFunc s) = 8 \<and> length (ptrIsrTimer s) = 2 \<and> unat (intCount s) \<le> 8"

lemma hw_ops_int [simp]:
  "ptrIsrFunc (hw_write r v s) = ptrIsrFunc s" "ptrIsrTimer (hw_write r v s) = ptrIsrTimer s"
  "intCount (hw_write r v s) = intCount s" "SysTickCount (hw_write r v s) = SysTickCount s"
  "ptrSysTickISR (hw_write r v s) = ptrSysTickISR s" "dT_us (hw_write r v s) = dT_us s"
  "SysTickFreq (hw_write r v s) = SysTickFreq s"
  by (simp_all add: hw_write_def)

lemma hw_or_int [simp]:
  "ptrIsrFunc (hw_or r v s) = ptrIsrFunc s" "ptrIsrTimer (hw_or r v s) = ptrIsrTimer s"
  "intCount (hw_or r v s) = intCount s" "SysTickCount (hw_or r v s) = SysTickCount s"
  "ptrSysTickISR (hw_or r v s) = ptrSysTickISR s" "dT_us (hw_or r v s) = dT_us s"
  "SysTickFreq (hw_or r v s) = SysTickFreq s"
  by (simp_all add: hw_or_def hw_write_def hw_read_def Let_def)

lemma hw_and_int [simp]:
  "ptrIsrFunc (hw_and r v s) = ptrIsrFunc s" "ptrIsrTimer (hw_and r v s) = ptrIsrTimer s"
  "intCount (hw_and r v s) = intCount s" "SysTickCount (hw_and r v s) = SysTickCount s"
  "ptrSysTickISR (hw_and r v s) = ptrSysTickISR s" "dT_us (hw_and r v s) = dT_us s"
  "SysTickFreq (hw_and r v s) = SysTickFreq s"
  by (simp_all add: hw_and_def hw_write_def hw_read_def Let_def)

lemma irq_int [simp]:
  "ptrIsrFunc (disable_irq s) = ptrIsrFunc s" "ptrIsrTimer (disable_irq s) = ptrIsrTimer s"
  "intCount (disable_irq s) = intCount s" "SysTickCount (disable_irq s) = SysTickCount s"
  "ptrSysTickISR (disable_irq s) = ptrSysTickISR s" "dT_us (disable_irq s) = dT_us s"
  "SysTickFreq (disable_irq s) = SysTickFreq s"
  "ptrIsrFunc (enable_irq s) = ptrIsrFunc s" "ptrIsrTimer (enable_irq s) = ptrIsrTimer s"
  "intCount (enable_irq s) = intCount s" "SysTickCount (enable_irq s) = SysTickCount s"
  "ptrSysTickISR (enable_irq s) = ptrSysTickISR s" "dT_us (enable_irq s) = dT_us s"
  "SysTickFreq (enable_irq s) = SysTickFreq s"
  by (simp_all add: disable_irq_def enable_irq_def)

lemma nvic_int [simp]:
  "ptrIsrFunc (NVIC_EnableIRQ n s) = ptrIsrFunc s" "ptrIsrTimer (NVIC_EnableIRQ n s) = ptrIsrTimer s"
  "intCount (NVIC_EnableIRQ n s) = intCount s" "SysTickCount (NVIC_EnableIRQ n s) = SysTickCount s"
  "ptrSysTickISR (NVIC_EnableIRQ n s) = ptrSysTickISR s" "dT_us (NVIC_EnableIRQ n s) = dT_us s"
  "ptrIsrFunc (NVIC_DisableIRQ n s) = ptrIsrFunc s" "ptrIsrTimer (NVIC_DisableIRQ n s) = ptrIsrTimer s"
  "intCount (NVIC_DisableIRQ n s) = intCount s" "SysTickCount (NVIC_DisableIRQ n s) = SysTickCount s"
  "ptrSysTickISR (NVIC_DisableIRQ n s) = ptrSysTickISR s" "dT_us (NVIC_DisableIRQ n s) = dT_us s"
  by (simp_all add: NVIC_EnableIRQ_def NVIC_DisableIRQ_def)

lemma nvic_all_int [simp]:
  "ptrIsrFunc (nvic_all NVIC_EnableIRQ n s) = ptrIsrFunc s"
  "ptrIsrTimer (nvic_all NVIC_EnableIRQ n s) = ptrIsrTimer s"
  "intCount (nvic_all NVIC_EnableIRQ n s) = intCount s"
  "ptrIsrFunc (nvic_all NVIC_DisableIRQ n s) = ptrIsrFunc s"
  "ptrIsrTimer (nvic_all NVIC_DisableIRQ n s) = ptrIsrTimer s"
  "intCount (nvic_all NVIC_DisableIRQ n s) = intCount s"
  by (induction n) simp_all

section \<open>Properties\<close>

lemma newExternInterrupt_ok:
  assumes "wf_int s" "intCount s < 8"
  shows "\<exists>s'. newExternInterrupt pin (Some f) trig s = Some s' \<and>
    ptrIsrFunc s' = (ptrIsrFunc s)[unat (intCount s) := Some f] \<and> ptrIsrTimer s' = ptrIsrTimer s \<and>
    intCount s' = intCount s + 1"
proof -
  have "unat (intCount s) < length (ptrIsrFunc s)"
    using assms by (simp add: wf_int_def word_less_nat_alt)
  moreover have "\<not> 8 \<le> intCount s" using assms(2) by simp
  ultimately show ?thesis
    by (cases "intCount s = 0") (simp_all add: newExternInterrupt_def Let_def)
qed

text \<open>
  C31: registering a handler takes the next of the eight channels and no other; when the channel's
  flag is pending, its interrupt first clears exactly that flag and then calls exactly that
  function. A ninth registration and a null handler change nothing.
\<close>

theorem extern_interrupt_dispatch:
  assumes "wf_int s" "intCount s < 8"
  shows "\<exists>s'. newExternInterrupt pin (Some f) trig s = Some s' \<and> wf_int s' \<and>
    intCount s' = intCount s + 1 \<and>
    (\<forall>n<8. ptrIsrFunc s' ! n = (if n = unat (intCount s) then Some f else ptrIsrFunc s ! n)) \<and>
    PIN_INT_IRQHandler call (unat (intCount s)) s' =
      (let (ist, t) = hw_read PINT_IST s' in
       if bit ist (unat (intCount s)) then call f (hw_write PINT_IST (push_bit (unat (intCount s)) 1) t)
       else Some t) \<and>
    newExternInterrupt pin None trig s = Some s"
proof -
  from newExternInterrupt_ok [OF assms] obtain s' where
    s': "newExternInterrupt pin (Some f) trig s = Some s'"
      "ptrIsrFunc s' = (ptrIsrFunc s)[unat (intCount s) := Some f]"
      "ptrIsrTimer s' = ptrIsrTimer s" "intCount s' = intCount s + 1"
    by blast
  define n where "n = unat (intCount s)"
  have n: "n < 8" "length (ptrIsrFunc s) = 8" using assms by (simp_all add: n_def wf_int_def word_less_nat_alt)
  have "unat (intCount s + 1) = n + 1"
    using n by (subst unat_add_lem [THEN iffD1]) (simp_all add: n_def)
  then have "wf_int s'" using assms s' n by (simp add: wf_int_def)
  moreover have "ist AND push_bit n 1 \<noteq> 0 \<longleftrightarrow> bit ist n" for ist :: u32
  proof -
    have "bit (ist AND push_bit n 1) m \<longleftrightarrow> m = n \<and> bit ist n" for m
      using n by (auto simp: bit_simps)
    then show ?thesis by (auto simp: word_zero_bits)
  qed
  then have "PIN_INT_IRQHandler call n s' =
      (let (ist, t) = hw_read PINT_IST s' in
       if bit ist n then call f (hw_write PINT_IST (push_bit n 1) t) else Some t)"
    using n s'(2) by (simp add: PIN_INT_IRQHandler_def Let_def hw_read_def n_def)
  moreover have "\<forall>m<8. ptrIsrFunc s' ! m = (if m = n then Some f else ptrIsrFunc s ! m)"
    using n by (simp add: s'(2) n_def nth_list_update)
  moreover have "newExternInterrupt pin None trig s = Some s" by (simp add: newExternInterrupt_def)
  ultimately show ?thesis using s' unfolding n_def by blast
qed

definition int_zero :: interrupt where
  "int_zero = adc.extend adc_zero
     \<lparr>intCount = 0, ptrIsrFunc = replicate 8 None, ptrIsrTimer = replicate 2 None,
      ptrSysTickISR = None, SysTickCount = 0, SysTickFreq = 0, dT_us = 0\<rparr>"

lemma int_zero_fields [simp]:
  "intCount int_zero = 0" "ptrIsrFunc int_zero = replicate 8 None" "ptrIsrTimer int_zero = replicate 2 None"
  "SystemCoreClock int_zero = 12000000" "SysTickCount int_zero = 0"
  by (simp_all add: int_zero_def adc.defs adc_zero_def gpio.defs gpio_zero_def)

theorem extern_interrupt_dispatch_witness:
  "\<exists>s'. newExternInterrupt 9 (Some Rec_isr_Botoeira) FALLING int_zero = Some s' \<and> wf_int s' \<and>
    intCount s' = intCount int_zero + 1 \<and>
    (\<forall>n<8. ptrIsrFunc s' ! n =
       (if n = unat (intCount int_zero) then Some Rec_isr_Botoeira else ptrIsrFunc int_zero ! n)) \<and>
    PIN_INT_IRQHandler (\<lambda>f s. Some s) (unat (intCount int_zero)) s' =
      (let (ist, t) = hw_read PINT_IST s' in
       if bit ist (unat (intCount int_zero))
       then Some (hw_write PINT_IST (push_bit (unat (intCount int_zero)) 1) t) else Some t) \<and>
    newExternInterrupt 9 None FALLING int_zero = Some int_zero"
  using extern_interrupt_dispatch [of int_zero 9 Rec_isr_Botoeira FALLING "\<lambda>f s. Some s"]
  by (simp add: wf_int_def)

lemma SysTickBeginISR_2000:
  assumes "SystemCoreClock s = 15000000"
  shows "\<exists>s'. SysTickBeginISR 2000 (Some f) s = Some s' \<and> dT_us s' = 500 \<and>
    ptrSysTickISR s' = Some f \<and> SysTickCount s' = SysTickCount s"
  using assms by (simp add: SysTickBeginISR_def SysTickBegin_def Let_def)

text \<open>
  At the 15 MHz clock and the 2 kHz tick the scheduler is started with, a tick is 500
  microseconds; from then on, until 500 times the count would exceed 64 bits, the clocks return
  the exact microseconds, milliseconds and seconds of the count.
\<close>

theorem tick_clock_exact:
  assumes "SystemCoreClock s = 15000000" "SysTickBeginISR SysTick_frequency_hz (Some f) s = Some s'"
    and "500 * n < 2 ^ 64"
  shows "dT_us s' = 500 \<and> ptrSysTickISR s' = Some f \<and>
    unat (SysTickGetTime_us (s'\<lparr>SysTickCount := of_nat n\<rparr>)) = 500 * n \<and>
    unat (SysTickGetTime_ms (s'\<lparr>SysTickCount := of_nat n\<rparr>)) = n div 2 \<and>
    unat (SysTickGetTime_seconds (s'\<lparr>SysTickCount := of_nat n\<rparr>)) = n div 2000"
proof -
  have s': "dT_us s' = 500" "ptrSysTickISR s' = Some f"
    using SysTickBeginISR_2000 [OF assms(1), of f] assms(2) by (auto simp: SysTick_frequency_hz_def)
  have "unat (500 * of_nat n :: u64) = 500 * n"
  proof -
    have "(500 * of_nat n :: u64) = of_nat (500 * n)" by simp
    then show ?thesis using assms(3) by (simp only: unat_of_nat) simp
  qed
  then show ?thesis
    using s' by (simp add: SysTickGetTime_us_def SysTickGetTime_ms_def SysTickGetTime_seconds_def
        unat_div_distrib flip: div_mult2_eq)
qed

theorem tick_clock_exact_witness:
  "\<exists>s'. SysTickBeginISR SysTick_frequency_hz (Some IsrScheduler)
      (int_zero\<lparr>SystemCoreClock := 15000000\<rparr>) = Some s' \<and>
    dT_us s' = 500 \<and> ptrSysTickISR s' = Some IsrScheduler \<and>
    unat (SysTickGetTime_us (s'\<lparr>SysTickCount := of_nat 2000\<rparr>)) = 500 * 2000 \<and>
    unat (SysTickGetTime_ms (s'\<lparr>SysTickCount := of_nat 2000\<rparr>)) = 2000 div 2 \<and>
    unat (SysTickGetTime_seconds (s'\<lparr>SysTickCount := of_nat 2000\<rparr>)) = 2000 div 2000"
proof -
  have clk: "SystemCoreClock (int_zero\<lparr>SystemCoreClock := 15000000\<rparr>) = 15000000" by simp
  from SysTickBeginISR_2000 [OF clk, of IsrScheduler] obtain s' where
    "SysTickBeginISR SysTick_frequency_hz (Some IsrScheduler)
      (int_zero\<lparr>SystemCoreClock := 15000000\<rparr>) = Some s'"
    unfolding SysTick_frequency_hz_def by blast
  from this tick_clock_exact [OF clk this, of 2000] show ?thesis by (intro exI [of _ s']) simp
qed

end
