(* ===== verification/Log_Lpc804.thy ===== *)
theory Log_Lpc804
  imports Interrupt
begin

text \<open>
  \<open>services/log_lpc804/log_lpc804.c\<close>: the debug output over USART0. The wait for the transmitter has
  no bound in the code, so printing is a partial function: \<^term>\<open>None\<close> when it never returns.
\<close>

definition initDebug :: "'a hw_scheme \<Rightarrow> 'a hw_scheme" where
  "initDebug s = (
     let s = disable_irq s;
         s = hw_or SYSAHBCLKCTRL0 UART0_CLK_MASK s;
         s = hw_and PRESETCTRL0 (NOT UART0_RST_N_MASK) s;
         s = hw_or PRESETCTRL0 UART0_RST_N_MASK s;
         s = hw_or SYSAHBCLKCTRL0 SWM_CLK_MASK s;
         s = hw_and PINASSIGN0 (NOT (0xFF OR 0xFF00)) s;
         s = hw_or PINASSIGN0 (push_bit 0 4 OR push_bit 8 0) s;
         s = hw_and SYSAHBCLKCTRL0 (NOT SWM_CLK_MASK) s;
         s = hw_write UART0CLKSEL 0x02 s;
         s = hw_write FRGCLKSEL 0x00 s;
         s = hw_write FRGDIV 0xFF s;
         s = hw_write FRGMULT 244 s;
         s = hw_write USART_BRG 1279 s;
         s = hw_write USART_OSR 0xF s;
         s = hw_or USART_CFG (push_bit 2 1 OR push_bit 4 0 OR push_bit 6 0) s;
         s = hw_write USART_CTL 0 s;
         s = hw_write USART_STAT 0xFFFF s;
         s = hw_or USART_CFG USART_CFG_ENABLE_MASK s
     in enable_irq s)"

definition endDebug :: "'a hw_scheme \<Rightarrow> 'a hw_scheme" where
  "endDebug s = s"

partial_function (option) wait_txrdy :: "'a hw_scheme \<Rightarrow> 'a hw_scheme option" where
  "wait_txrdy s = (case hw_read USART_STAT s of (v, s) \<Rightarrow>
     if v AND USART_STAT_TXRDY_MASK = 0 then wait_txrdy s else Some s)"

primrec SerialPrintln_loop :: "nat \<Rightarrow> nat \<Rightarrow> u8 list \<Rightarrow> 'a hw_scheme \<Rightarrow> 'a hw_scheme option" where
  "SerialPrintln_loop 0 i message s = Some s"
| "SerialPrintln_loop (Suc n) i message s = do {
     s \<leftarrow> wait_txrdy s;
     b \<leftarrow> arr_get message i;
     SerialPrintln_loop n (Suc i) message (hw_write USART_TXDAT (ucast b) s) }"

definition SerialPrintln :: "u8 list \<Rightarrow> u8 \<Rightarrow> 'a hw_scheme \<Rightarrow> 'a hw_scheme option" where
  "SerialPrintln message len s = SerialPrintln_loop (unat len) 0 message s"

text \<open>The search for the terminator stops after 256 characters and then prints nothing.\<close>

primrec SerialPrint_loop :: "nat \<Rightarrow> nat \<Rightarrow> u8 list \<Rightarrow> 'a hw_scheme \<Rightarrow> 'a hw_scheme option" where
  "SerialPrint_loop 0 i str s = Some s"
| "SerialPrint_loop (Suc n) i str s = do {
     b \<leftarrow> arr_get str i;
     if b = 0 then SerialPrintln str (of_nat i) s else SerialPrint_loop n (Suc i) str s }"

definition SerialPrint :: "u8 list \<Rightarrow> 'a hw_scheme \<Rightarrow> 'a hw_scheme option" where
  "SerialPrint str s = SerialPrint_loop 256 0 str s"

section \<open>What is transmitted\<close>

definition txdata :: "'a hw_scheme \<Rightarrow> u32 list" where
  "txdata s = map snd (filter (\<lambda>(r, v). r = USART_TXDAT) (writes_of (trace s)))"

lemma txdata_hw [simp]:
  "txdata (hw_write r v s) = (if r = USART_TXDAT then txdata s @ [v] else txdata s)"
  by (simp add: txdata_def hw_write_def)

lemma wait_txrdy_txdata: "wait_txrdy s = Some s' \<Longrightarrow> txdata s' = txdata s"
proof (induction rule: wait_txrdy.raw_induct [rotated 1, consumes 1])
  case (1 f s s')
  then show ?case
    by (auto simp: hw_read_def Let_def txdata_def split: if_splits)
qed

lemma SerialPrintln_loop_txdata:
  "SerialPrintln_loop n i message s = Some s' \<Longrightarrow>
   i + n \<le> length message \<and> txdata s' = txdata s @ map ucast (take n (drop i message)) \<or> n = 0 \<and> s' = s"
proof (induction n arbitrary: i s)
  case 0
  then show ?case by simp
next
  case (Suc n)
  then obtain s1 b where s1: "wait_txrdy s = Some s1" and b: "i < length message" "b = message ! i"
    and rest: "SerialPrintln_loop n (Suc i) message (hw_write USART_TXDAT (ucast b) s1) = Some s'"
    by (auto simp: Option.bind_eq_Some_conv arr_get_eq_Some)
  have "take (Suc n) (drop i message) = b # take n (drop (Suc i) message)"
    using b by (simp add: Cons_nth_drop_Suc [symmetric])
  then show ?case
    using Suc.IH [OF rest] wait_txrdy_txdata [OF s1] b by auto
qed

end
