(* ===== verification/Registers_Manager.thy ===== *)
theory Registers_Manager
  imports Board_Defs
begin

text \<open>
  \<open>services/registers_manager/registers_manager.c\<close>: the three register banks, the typed and the
  untyped accessors, the pointers into the bank and the pending-change flags. \<open>reg_Begin\<close>, which
  fills the banks from the EEPROM, is in the theory of the start-up.

  A read or write outside an array of the bank is undefined (\<^term>\<open>None\<close>). A caller's buffer is
  the list of its elements (its bytes for \<open>bool *\<close> and \<open>void *\<close>), and an accessor that fills a
  buffer returns it.
\<close>

section \<open>State\<close>

record registers_manager =
  bool_reg_vet :: "u8 list"
  short_reg_vet :: "i16 list"
  int_reg_vet :: "i32 list"

record reg_state = registers_manager +
  change_flag :: u8

definition Reg_Change_Bool_Register :: u8 where "Reg_Change_Bool_Register = 0b00000001"
definition Reg_Change_Short_Register :: u8 where "Reg_Change_Short_Register = 0b00000010"
definition Reg_Change_Int_Register :: u8 where "Reg_Change_Int_Register = 0b00000100"

definition wf_regs :: "reg_state \<Rightarrow> bool" where
  "wf_regs r \<longleftrightarrow> length (bool_reg_vet r) = 16 \<and> length (short_reg_vet r) = 128 \<and>
     length (int_reg_vet r) = 128"

text \<open>The zero-initialised static storage.\<close>

definition reg_zero :: reg_state where
  "reg_zero = \<lparr>bool_reg_vet = replicate 16 0, short_reg_vet = replicate 128 0,
     int_reg_vet = replicate 128 0, change_flag = 0\<rparr>"

lemma wf_reg_zero [wf_intro]: "wf_regs reg_zero"
  by (simp add: wf_regs_def reg_zero_def)

section \<open>Writing\<close>

definition bool_index_addr :: "int \<Rightarrow> int" where "bool_index_addr index = index div 8"
definition bool_index_pos :: "int \<Rightarrow> int" where "bool_index_pos index = index mod 8"

definition bool_mask :: "nat \<Rightarrow> u8" where "bool_mask pos = drop_bit pos 0b10000000"

definition reg_write_bool :: "bool \<Rightarrow> u32 \<Rightarrow> reg_state \<Rightarrow> reg_state option" where
  "reg_write_bool value addr r = (
     let index = Sys_RegMap_GetIndex addr in
     if index < 0 then Some r
     else do {
       value_register \<leftarrow> arr_get (bool_reg_vet r) (nat (bool_index_addr index));
       let pos = nat (bool_index_pos index);
       let value_write = (if value then value_register OR bool_mask pos
                          else value_register AND NOT (bool_mask pos));
       if value_register \<noteq> value_write
       then do {
         vet \<leftarrow> arr_set (bool_reg_vet r) (nat (bool_index_addr index)) value_write;
         Some (r\<lparr>bool_reg_vet := vet,
                 change_flag := change_flag r OR Reg_Change_Bool_Register\<rparr>) }
       else Some r })"

text \<open>The guards of the array accessors add an \<open>int\<close> to an \<open>unsigned\<close>: the sum wraps at 32 bits.\<close>

definition vet_too_long :: "int \<Rightarrow> u32 \<Rightarrow> nat \<Rightarrow> bool" where
  "vet_too_long index len tot \<longleftrightarrow> of_nat tot < word_of_int index + len"

definition reg_write_bool_vet :: "u8 list \<Rightarrow> u32 \<Rightarrow> u32 \<Rightarrow> reg_state \<Rightarrow> reg_state option" where
  "reg_write_bool_vet vet len addr r = (
     let index = Sys_RegMap_GetIndex addr in
     if index < 0 then Some r
     else if vet_too_long index len Sys_RegMap_Nreg_Bool_tot then Some r
     else for_loop 0 (unat len)
            (\<lambda>i r. do { v \<leftarrow> arr_get vet i; reg_write_bool (v \<noteq> 0) (addr + of_nat i) r }) r)"

definition reg_write_short :: "i16 \<Rightarrow> u32 \<Rightarrow> reg_state \<Rightarrow> reg_state option" where
  "reg_write_short value addr r = (
     let index = Sys_RegMap_GetIndex addr in
     if index < 0 then Some r
     else do {
       old \<leftarrow> arr_get (short_reg_vet r) (nat index);
       if old \<noteq> value
       then do {
         vet \<leftarrow> arr_set (short_reg_vet r) (nat index) value;
         Some (r\<lparr>short_reg_vet := vet,
                 change_flag := change_flag r OR Reg_Change_Short_Register\<rparr>) }
       else Some r })"

text \<open>The search of the array writers for the first element that differs.\<close>

primrec vet_differs :: "nat \<Rightarrow> nat \<Rightarrow> (nat \<Rightarrow> bool option) \<Rightarrow> bool option" where
  "vet_differs i 0 d = Some False"
| "vet_differs i (Suc n) d = do { b \<leftarrow> d i; if b then Some True else vet_differs (Suc i) n d }"

text \<open>\<open>memcpy\<close> of the first \<open>n\<close> elements of a buffer.\<close>

definition vet_memcpy :: "'a list \<Rightarrow> nat \<Rightarrow> 'a list \<Rightarrow> nat \<Rightarrow> 'a list option" where
  "vet_memcpy dst i src n = (if n \<le> length src then arr_copy dst i (take n src) else None)"

definition reg_write_short_vet :: "i16 list \<Rightarrow> u32 \<Rightarrow> u32 \<Rightarrow> reg_state \<Rightarrow> reg_state option" where
  "reg_write_short_vet vet len addr r = (
     let index = Sys_RegMap_GetIndex addr in
     if index < 0 then Some r
     else if vet_too_long index len Sys_RegMap_Nreg_Short_tot then Some r
     else do {
       differs \<leftarrow> vet_differs 0 (unat len) (\<lambda>i. do {
         v \<leftarrow> arr_get vet i;
         old \<leftarrow> arr_get (short_reg_vet r) (nat index + i);
         Some (v \<noteq> old) });
       if differs
       then do {
         new \<leftarrow> vet_memcpy (short_reg_vet r) (nat index) vet (unat len);
         Some (r\<lparr>short_reg_vet := new,
                 change_flag := change_flag r OR Reg_Change_Short_Register\<rparr>) }
       else Some r })"

definition reg_write_int :: "i32 \<Rightarrow> u32 \<Rightarrow> reg_state \<Rightarrow> reg_state option" where
  "reg_write_int value addr r = (
     let index = Sys_RegMap_GetIndex addr in
     if index < 0 then Some r
     else do {
       old \<leftarrow> arr_get (int_reg_vet r) (nat index);
       if old \<noteq> value
       then do {
         vet \<leftarrow> arr_set (int_reg_vet r) (nat index) value;
         Some (r\<lparr>int_reg_vet := vet,
                 change_flag := change_flag r OR Reg_Change_Int_Register\<rparr>) }
       else Some r })"

text \<open>The array writer of ints compares with the bank of shorts, promoted to \<open>int\<close>.\<close>

definition reg_write_int_vet :: "i32 list \<Rightarrow> u32 \<Rightarrow> u32 \<Rightarrow> reg_state \<Rightarrow> reg_state option" where
  "reg_write_int_vet vet len addr r = (
     let index = Sys_RegMap_GetIndex addr in
     if index < 0 then Some r
     else if vet_too_long index len Sys_RegMap_Nreg_Int_tot then Some r
     else do {
       differs \<leftarrow> vet_differs 0 (unat len) (\<lambda>i. do {
         v \<leftarrow> arr_get vet i;
         old \<leftarrow> arr_get (short_reg_vet r) (nat index + i);
         Some (v \<noteq> scast old) });
       if differs
       then do {
         new \<leftarrow> vet_memcpy (int_reg_vet r) (nat index) vet (unat len);
         Some (r\<lparr>int_reg_vet := new,
                 change_flag := change_flag r OR Reg_Change_Int_Register\<rparr>) }
       else Some r })"

text \<open>The \<open>case\<close> ranges of the untyped accessors include their upper ends.\<close>

definition case_range :: "u32 \<Rightarrow> u32 \<Rightarrow> nat \<Rightarrow> bool" where
  "case_range addr off tot \<longleftrightarrow> off \<le> addr \<and> addr \<le> off + of_nat tot"

definition reg_write :: "u8 list \<Rightarrow> u32 \<Rightarrow> reg_state \<Rightarrow> reg_state option" where
  "reg_write val addr r =
     (if case_range addr Sys_RegMap_Offset_Bool Sys_RegMap_Nreg_Bool_tot
      then do { v \<leftarrow> arr_get val 0; reg_write_bool (v \<noteq> 0) addr r }
      else if case_range addr Sys_RegMap_Offset_Short Sys_RegMap_Nreg_Short_tot
      then do { v \<leftarrow> arr_get (as_shorts val) 0; reg_write_short v addr r }
      else if case_range addr Sys_RegMap_Offset_Int Sys_RegMap_Nreg_Int_tot
      then do { v \<leftarrow> arr_get (as_ints val) 0; reg_write_int v addr r }
      else Some r)"

definition reg_write_vet :: "u8 list \<Rightarrow> u32 \<Rightarrow> u32 \<Rightarrow> reg_state \<Rightarrow> reg_state option" where
  "reg_write_vet vet nRegs addr r =
     (if case_range addr Sys_RegMap_Offset_Bool Sys_RegMap_Nreg_Bool_tot
      then reg_write_bool_vet vet nRegs addr r
      else if case_range addr Sys_RegMap_Offset_Short Sys_RegMap_Nreg_Short_tot
      then reg_write_short_vet (as_shorts vet) nRegs addr r
      else if case_range addr Sys_RegMap_Offset_Int Sys_RegMap_Nreg_Int_tot
      then reg_write_int_vet (as_ints vet) nRegs addr r
      else Some r)"

section \<open>Reading\<close>

definition reg_read_bool :: "u32 \<Rightarrow> reg_state \<Rightarrow> bool option" where
  "reg_read_bool addr r = (
     let index = Sys_RegMap_GetIndex addr in
     if index < 0 then Some False
     else do {
       b \<leftarrow> arr_get (bool_reg_vet r) (nat (bool_index_addr index));
       Some (b AND bool_mask (nat (bool_index_pos index)) \<noteq> 0) })"

text \<open>A \<open>bool\<close> is stored as the byte 0 or 1.\<close>

definition reg_read_bool_vet :: "u8 list \<Rightarrow> u32 \<Rightarrow> u32 \<Rightarrow> reg_state \<Rightarrow> u8 list option" where
  "reg_read_bool_vet vet len addr r = (
     let index = Sys_RegMap_GetIndex addr in
     if index < 0 then Some vet
     else if vet_too_long index len Sys_RegMap_Nreg_Bool_tot then Some vet
     else for_loop 0 (unat len)
            (\<lambda>i vet. do { b \<leftarrow> reg_read_bool (addr + of_nat i) r; arr_set vet i (of_bool b) }) vet)"

definition reg_read_short :: "u32 \<Rightarrow> reg_state \<Rightarrow> i16 option" where
  "reg_read_short addr r = (
     let index = Sys_RegMap_GetIndex addr in
     if index < 0 then Some 0 else arr_get (short_reg_vet r) (nat index))"

text \<open>\<open>memcpy\<close> of \<open>n\<close> elements of a bank into a buffer.\<close>

definition vet_fetch :: "'a list \<Rightarrow> 'a list \<Rightarrow> nat \<Rightarrow> nat \<Rightarrow> 'a list option" where
  "vet_fetch dst src i n = (if i + n \<le> length src then arr_copy dst 0 (take n (drop i src)) else None)"

definition reg_read_short_vet :: "i16 list \<Rightarrow> u32 \<Rightarrow> u32 \<Rightarrow> reg_state \<Rightarrow> i16 list option" where
  "reg_read_short_vet vet len addr r = (
     let index = Sys_RegMap_GetIndex addr in
     if index < 0 then Some vet
     else if vet_too_long index len Sys_RegMap_Nreg_Short_tot then Some vet
     else vet_fetch vet (short_reg_vet r) (nat index) (unat len))"

definition reg_read_int :: "u32 \<Rightarrow> reg_state \<Rightarrow> i32 option" where
  "reg_read_int addr r = (
     let index = Sys_RegMap_GetIndex addr in
     if index < 0 then Some 0 else arr_get (int_reg_vet r) (nat index))"

definition reg_read_int_vet :: "i32 list \<Rightarrow> u32 \<Rightarrow> u32 \<Rightarrow> reg_state \<Rightarrow> i32 list option" where
  "reg_read_int_vet vet len addr r = (
     let index = Sys_RegMap_GetIndex addr in
     if index < 0 then Some vet
     else if vet_too_long index len Sys_RegMap_Nreg_Int_tot then Some vet
     else vet_fetch vet (int_reg_vet r) (nat index) (unat len))"

text \<open>The untyped readers store the bytes of the value at the front of the buffer.\<close>

definition reg_read :: "u8 list \<Rightarrow> u32 \<Rightarrow> reg_state \<Rightarrow> u8 list option" where
  "reg_read ptr addr r =
     (if case_range addr Sys_RegMap_Offset_Bool Sys_RegMap_Nreg_Bool_tot
      then do { b \<leftarrow> reg_read_bool addr r; arr_copy ptr 0 [of_bool b] }
      else if case_range addr Sys_RegMap_Offset_Short Sys_RegMap_Nreg_Short_tot
      then do { v \<leftarrow> reg_read_short addr r; arr_copy ptr 0 (le16 v) }
      else if case_range addr Sys_RegMap_Offset_Int Sys_RegMap_Nreg_Int_tot
      then do { v \<leftarrow> reg_read_int addr r; arr_copy ptr 0 (le32 v) }
      else Some ptr)"

definition reg_read_vet :: "u8 list \<Rightarrow> u32 \<Rightarrow> u32 \<Rightarrow> reg_state \<Rightarrow> u8 list option" where
  "reg_read_vet vet nRegs addr r =
     (if case_range addr Sys_RegMap_Offset_Bool Sys_RegMap_Nreg_Bool_tot
      then reg_read_bool_vet vet nRegs addr r
      else if case_range addr Sys_RegMap_Offset_Short Sys_RegMap_Nreg_Short_tot
      then do {
        ws \<leftarrow> reg_read_short_vet (as_shorts vet) nRegs addr r;
        Some (short_bytes ws @ drop (2 * length ws) vet) }
      else if case_range addr Sys_RegMap_Offset_Int Sys_RegMap_Nreg_Int_tot
      then do {
        ws \<leftarrow> reg_read_int_vet (as_ints vet) nRegs addr r;
        Some (int_bytes ws @ drop (4 * length ws) vet) }
      else Some vet)"

section \<open>Pointers and sizes\<close>

text \<open>A pointer into the packed structure \<open>reg_vet\<close> is the offset of a byte of it.\<close>

datatype reg_pointer = NULL | Reg_Vet nat

definition reg_mem_size_bool :: u32 where "reg_mem_size_bool = 16"
definition reg_mem_size_short :: u32 where "reg_mem_size_short = 256"
definition reg_mem_size_int :: u32 where "reg_mem_size_int = 512"
definition reg_mem_size :: u32 where "reg_mem_size = 784"

definition reg_ptr :: reg_pointer where "reg_ptr = Reg_Vet 0"
definition reg_ptr_bool :: reg_pointer where "reg_ptr_bool = Reg_Vet 0"

text \<open>Computing the address of an element beyond one past the end of an array is undefined.\<close>

definition reg_ptr_short :: "i32 \<Rightarrow> reg_pointer option" where
  "reg_ptr_short index = (
     let i = (if index \<noteq> 0 then Sys_RegMap_GetIndex index else 0) in
     if i < 0 then Some NULL
     else if nat i \<le> Sys_RegMap_Nreg_Short_tot then Some (Reg_Vet (16 + 2 * nat i)) else None)"

definition reg_ptr_int :: "i32 \<Rightarrow> reg_pointer option" where
  "reg_ptr_int index = (
     let i = (if index \<noteq> 0 then Sys_RegMap_GetIndex index else 0) in
     if i < 0 then Some NULL
     else if nat i \<le> Sys_RegMap_Nreg_Int_tot then Some (Reg_Vet (272 + 4 * nat i)) else None)"

text \<open>The bytes of the structure, and the structure that a block of bytes is.\<close>

definition reg_image :: "('a) registers_manager_scheme \<Rightarrow> u8 list" where
  "reg_image r = bool_reg_vet r @ short_bytes (short_reg_vet r) @ int_bytes (int_reg_vet r)"

definition reg_load :: "u8 list \<Rightarrow> reg_state \<Rightarrow> reg_state" where
  "reg_load bs r = r\<lparr>bool_reg_vet := take 16 bs,
     short_reg_vet := as_shorts (take 256 (drop 16 bs)),
     int_reg_vet := as_ints (take 512 (drop 272 bs))\<rparr>"

section \<open>Pending changes\<close>

definition reg_return_change_flag :: "reg_state \<Rightarrow> u8" where
  "reg_return_change_flag r = change_flag r"

definition reg_clear_change_flag :: "u8 \<Rightarrow> reg_state \<Rightarrow> reg_state" where
  "reg_clear_change_flag flag r =
     (if flag = 0 then r\<lparr>change_flag := 0\<rparr>
      else r\<lparr>change_flag := change_flag r AND NOT flag\<rparr>)"

definition reg_set_change_flag :: "u8 \<Rightarrow> reg_state \<Rightarrow> reg_state" where
  "reg_set_change_flag flag r = r\<lparr>change_flag := flag\<rparr>"

section \<open>The interface of a register bank\<close>

text \<open>
  What the rest of the program relies on: on the addresses of a bank, reading and writing are
  defined and behave as a map from addresses to values.
\<close>

locale register_bank =
  fixes rd :: "u32 \<Rightarrow> 'r \<Rightarrow> 'v option"
    and wr :: "'v \<Rightarrow> u32 \<Rightarrow> 'r \<Rightarrow> 'r option"
    and ok :: "u32 \<Rightarrow> bool"
    and wf :: "'r \<Rightarrow> bool"
  assumes rd_total: "wf r \<Longrightarrow> ok a \<Longrightarrow> \<exists>v. rd a r = Some v"
    and wr_total: "wf r \<Longrightarrow> ok a \<Longrightarrow> \<exists>r'. wr v a r = Some r'"
    and wr_wf: "wf r \<Longrightarrow> ok a \<Longrightarrow> wr v a r = Some r' \<Longrightarrow> wf r'"
    and rd_wr: "wf r \<Longrightarrow> ok a \<Longrightarrow> ok b \<Longrightarrow> wr v a r = Some r' \<Longrightarrow>
      rd b r' = (if b = a then Some v else rd b r)"
begin

definition view :: "'r \<Rightarrow> u32 \<rightharpoonup> 'v" where
  "view r a = (if ok a then rd a r else None)"

lemma view_wr: "wf r \<Longrightarrow> ok a \<Longrightarrow> wr v a r = Some r' \<Longrightarrow> view r' = (view r)(a \<mapsto> v)"
  by (auto simp: view_def fun_eq_iff rd_wr)

lemma writes_refine_map:
  assumes "wf r" and "\<forall>(a, v) \<in> set kvs. ok a"
  shows "\<exists>r'. run_all (\<lambda>(a, v). wr v a) kvs r = Some r' \<and> wf r' \<and>
    view r' = view r ++ map_of (rev kvs)"
  using assms
proof (induction kvs arbitrary: r)
  case Nil
  then show ?case by simp
next
  case (Cons kv kvs)
  obtain a v where kv: "kv = (a, v)" by (cases kv)
  with Cons.prems have "ok a" by simp
  then obtain r1 where r1: "wr v a r = Some r1" using wr_total Cons.prems(1) by blast
  then have "wf r1" "view r1 = (view r)(a \<mapsto> v)"
    using wr_wf view_wr \<open>ok a\<close> Cons.prems(1) by blast+
  from Cons.IH [OF \<open>wf r1\<close>] Cons.prems(2) obtain r' where
    "run_all (\<lambda>(a, v). wr v a) kvs r1 = Some r'" "wf r'" "view r' = view r1 ++ map_of (rev kvs)"
    by auto
  with r1 \<open>view r1 = (view r)(a \<mapsto> v)\<close> show ?case
    by (simp add: kv)
qed

lemma rd_after_writes:
  assumes "wf r" and "\<forall>(a, v) \<in> set kvs. ok a" and "ok b"
  shows "do { r' \<leftarrow> run_all (\<lambda>(a, v). wr v a) kvs r; rd b r' } =
    (case map_of (rev kvs) b of Some v \<Rightarrow> Some v | None \<Rightarrow> rd b r)"
proof -
  from writes_refine_map [OF assms(1,2)] obtain r' where
    r': "run_all (\<lambda>(a, v). wr v a) kvs r = Some r'" and v: "view r' = view r ++ map_of (rev kvs)"
    by blast
  from v have "view r' b = (view r ++ map_of (rev kvs)) b" by simp
  with r' assms(3) show ?thesis
    by (auto simp: view_def map_add_def split: option.splits)
qed

end

text \<open>A bank that marks a change: the mark is set by exactly the writes that change a value.\<close>

locale marked_bank = register_bank rd wr ok wf
  for rd :: "u32 \<Rightarrow> 'r \<Rightarrow> 'v option" and wr ok wf +
  fixes mark :: "'r \<Rightarrow> bool"
  assumes wr_mark: "wf r \<Longrightarrow> ok a \<Longrightarrow> wr v a r = Some r' \<Longrightarrow>
      mark r' \<longleftrightarrow> mark r \<or> rd a r \<noteq> Some v"
begin

lemma unmarked_unchanged:
  assumes "wf r" and "\<forall>(a, v) \<in> set kvs. ok a"
    and "run_all (\<lambda>(a, v). wr v a) kvs r = Some r'" and "\<not> mark r'"
  shows "\<not> mark r \<and> view r' = view r"
  using assms
proof (induction kvs arbitrary: r)
  case Nil
  then show ?case by simp
next
  case (Cons kv kvs)
  obtain a v where kv: "kv = (a, v)" by (cases kv)
  with Cons.prems have "ok a" by simp
  from Cons.prems(3) obtain r1 where r1: "wr v a r = Some r1"
    and rest: "run_all (\<lambda>(a, v). wr v a) kvs r1 = Some r'"
    by (auto simp: kv Option.bind_eq_Some_conv)
  have "wf r1" using wr_wf r1 \<open>ok a\<close> Cons.prems(1) by blast
  with Cons.IH [OF _ _ rest] Cons.prems have "\<not> mark r1" "view r' = view r1" by auto
  moreover from this have "\<not> mark r" "rd a r = Some v"
    using wr_mark [OF Cons.prems(1) \<open>ok a\<close> r1] by auto
  ultimately show ?case
    using view_wr [OF Cons.prems(1) \<open>ok a\<close> r1] \<open>ok a\<close> by (auto simp: view_def fun_eq_iff)
qed

end

section \<open>The banks implement the interface\<close>

definition bool_addr :: "u32 \<Rightarrow> bool" where
  "bool_addr a \<longleftrightarrow> 1000 \<le> uint a \<and> uint a < 1128"

definition short_addr :: "u32 \<Rightarrow> bool" where
  "short_addr a \<longleftrightarrow> 3000 \<le> uint a \<and> uint a < 3128"

definition int_addr :: "u32 \<Rightarrow> bool" where
  "int_addr a \<longleftrightarrow> 5000 \<le> uint a \<and> uint a < 5128"

lemma GetIndex_bool:
  "bool_addr a \<Longrightarrow> Sys_RegMap_GetIndex a = uint a - 1000"
  "bool_addr a \<Longrightarrow> Sys_RegMap_GetIndex a < 0 \<longleftrightarrow> False"
  by (simp_all add: GetIndex_eq bool_addr_def)

lemma GetIndex_short:
  "short_addr a \<Longrightarrow> Sys_RegMap_GetIndex a = uint a - 3000"
  "short_addr a \<Longrightarrow> Sys_RegMap_GetIndex a < 0 \<longleftrightarrow> False"
  by (simp_all add: GetIndex_eq short_addr_def)

lemma GetIndex_int:
  "int_addr a \<Longrightarrow> Sys_RegMap_GetIndex a = uint a - 5000"
  "int_addr a \<Longrightarrow> Sys_RegMap_GetIndex a < 0 \<longleftrightarrow> False"
  by (simp_all add: GetIndex_eq int_addr_def)

lemma bool_ix: "bool_addr a \<Longrightarrow> nat (uint a - 1000) < 128"
  by (simp add: bool_addr_def nat_less_iff)

lemma short_ix: "short_addr a \<Longrightarrow> nat (uint a - 3000) < 128"
  by (simp add: short_addr_def nat_less_iff)

lemma int_ix: "int_addr a \<Longrightarrow> nat (uint a - 5000) < 128"
  by (simp add: int_addr_def nat_less_iff)

lemma ix_eq_iff: "nat (uint a - k) = nat (uint b - k) \<longleftrightarrow> a = b"
  if "k \<le> uint a" "k \<le> uint b" for a b :: u32
  using that by (auto simp: word_uint_eq_iff)

subsection \<open>Ints and shorts\<close>

lemma reg_read_int_ok: "wf_regs r \<Longrightarrow> int_addr a \<Longrightarrow>
    reg_read_int a r = Some (int_reg_vet r ! nat (uint a - 5000))"
  by (simp add: reg_read_int_def Let_def GetIndex_int(2) wf_regs_def) (simp add: GetIndex_int(1) int_ix)

lemma reg_write_int_ok: "wf_regs r \<Longrightarrow> int_addr a \<Longrightarrow>
    reg_write_int v a r = Some (if int_reg_vet r ! nat (uint a - 5000) = v then r
      else r\<lparr>int_reg_vet := (int_reg_vet r)[nat (uint a - 5000) := v],
             change_flag := change_flag r OR Reg_Change_Int_Register\<rparr>)"
  by (simp add: reg_write_int_def Let_def GetIndex_int(2) wf_regs_def) (simp add: GetIndex_int(1) int_ix)

lemma reg_read_short_ok: "wf_regs r \<Longrightarrow> short_addr a \<Longrightarrow>
    reg_read_short a r = Some (short_reg_vet r ! nat (uint a - 3000))"
  by (simp add: reg_read_short_def Let_def GetIndex_short(2) wf_regs_def) (simp add: GetIndex_short(1) short_ix)

lemma reg_write_short_ok: "wf_regs r \<Longrightarrow> short_addr a \<Longrightarrow>
    reg_write_short v a r = Some (if short_reg_vet r ! nat (uint a - 3000) = v then r
      else r\<lparr>short_reg_vet := (short_reg_vet r)[nat (uint a - 3000) := v],
             change_flag := change_flag r OR Reg_Change_Short_Register\<rparr>)"
  by (simp add: reg_write_short_def Let_def GetIndex_short(2) wf_regs_def) (simp add: GetIndex_short(1) short_ix)

lemma change_bits [simp]:
  "bit Reg_Change_Bool_Register n \<longleftrightarrow> n = 0" "bit Reg_Change_Short_Register n \<longleftrightarrow> n = 1"
  "bit Reg_Change_Int_Register n \<longleftrightarrow> n = 2"
  by (auto simp: Reg_Change_Bool_Register_def Reg_Change_Short_Register_def
      Reg_Change_Int_Register_def bit_simps bit_numeral_rec split: nat.splits)

interpretation ints: marked_bank reg_read_int reg_write_int int_addr wf_regs
  "\<lambda>r. bit (change_flag r) 2"
proof unfold_locales
  fix r r' :: reg_state and a b :: u32 and v :: i32
  assume r: "wf_regs r" and a: "int_addr a"
  then show "\<exists>v. reg_read_int a r = Some v" "\<exists>r'. reg_write_int v a r = Some r'"
    by (simp_all add: reg_read_int_ok reg_write_int_ok)
  have len: "nat (uint a - 5000) < length (int_reg_vet r)"
    using r int_ix [OF a] by (simp add: wf_regs_def)
  assume w: "reg_write_int v a r = Some r'"
  then show "wf_regs r'"
    using r by (auto simp: reg_write_int_ok [OF r a] wf_regs_def)
  then show "reg_read_int b r' = (if b = a then Some v else reg_read_int b r)"
    if b: "int_addr b"
  proof -
    have "b = a \<longleftrightarrow> nat (uint b - 5000) = nat (uint a - 5000)"
      using a b by (auto simp: int_addr_def ix_eq_iff)
    then show ?thesis
      using w len by (auto simp: reg_write_int_ok [OF r a] reg_read_int_ok [OF r b]
          reg_read_int_ok [OF \<open>wf_regs r'\<close> b] nth_list_update)
  qed
  show "bit (change_flag r') 2 \<longleftrightarrow> bit (change_flag r) 2 \<or> reg_read_int a r \<noteq> Some v"
    using w by (auto simp: reg_write_int_ok [OF r a] reg_read_int_ok [OF r a] bit_simps)
qed

interpretation shorts: marked_bank reg_read_short reg_write_short short_addr wf_regs
  "\<lambda>r. bit (change_flag r) 1"
proof unfold_locales
  fix r r' :: reg_state and a b :: u32 and v :: i16
  assume r: "wf_regs r" and a: "short_addr a"
  then show "\<exists>v. reg_read_short a r = Some v" "\<exists>r'. reg_write_short v a r = Some r'"
    by (simp_all add: reg_read_short_ok reg_write_short_ok)
  have len: "nat (uint a - 3000) < length (short_reg_vet r)"
    using r short_ix [OF a] by (simp add: wf_regs_def)
  assume w: "reg_write_short v a r = Some r'"
  then show "wf_regs r'"
    using r by (auto simp: reg_write_short_ok [OF r a] wf_regs_def)
  then show "reg_read_short b r' = (if b = a then Some v else reg_read_short b r)"
    if b: "short_addr b"
  proof -
    have "b = a \<longleftrightarrow> nat (uint b - 3000) = nat (uint a - 3000)"
      using a b by (auto simp: short_addr_def ix_eq_iff)
    then show ?thesis
      using w len by (auto simp: reg_write_short_ok [OF r a] reg_read_short_ok [OF r b]
          reg_read_short_ok [OF \<open>wf_regs r'\<close> b] nth_list_update)
  qed
  show "bit (change_flag r') 1 \<longleftrightarrow> bit (change_flag r) 1 \<or> reg_read_short a r \<noteq> Some v"
    using w by (auto simp: reg_write_short_ok [OF r a] reg_read_short_ok [OF r a] bit_simps)
qed

subsection \<open>Booleans: bits, most significant first\<close>

definition bool_bit :: "reg_state \<Rightarrow> nat \<Rightarrow> bool" where
  "bool_bit r i = bit (bool_reg_vet r ! (i div 8)) (7 - i mod 8)"

lemma bit_bool_mask: "p < 8 \<Longrightarrow> bit (bool_mask p) n \<longleftrightarrow> n = 7 - p"
proof -
  assume "p < 8"
  have "(0b10000000 :: u8) = push_bit 7 1" by simp
  with \<open>p < 8\<close> show ?thesis
    unfolding bool_mask_def by (auto simp only: bit_drop_bit_eq bit_push_bit_iff o_apply)
      (auto simp: bit_simps)
qed

lemma and_bool_mask: "p < 8 \<Longrightarrow> x AND bool_mask p \<noteq> 0 \<longleftrightarrow> bit x (7 - p)"
proof -
  assume p: "p < 8"
  have "bit (x AND bool_mask p) n \<longleftrightarrow> n = 7 - p \<and> bit x (7 - p)" for n
    using p by (auto simp: bit_and_iff bit_bool_mask)
  then show ?thesis
    by (metis bit_0_eq bit_word_eqI bot_apply bot_bool_def)
qed

lemma nat_index:
  "bool_addr a \<Longrightarrow> nat (bool_index_addr (uint a - 1000)) = nat (uint a - 1000) div 8"
  "bool_addr a \<Longrightarrow> nat (bool_index_pos (uint a - 1000)) = nat (uint a - 1000) mod 8"
  by (simp_all add: bool_index_addr_def bool_index_pos_def bool_addr_def nat_div_distrib
      nat_mod_distrib)

lemma bool_byte_ix: "bool_addr a \<Longrightarrow> nat (uint a - 1000) div 8 < 16"
  using bool_ix [of a] by simp

lemma reg_read_bool_ok: "wf_regs r \<Longrightarrow> bool_addr a \<Longrightarrow>
    reg_read_bool a r = Some (bool_bit r (nat (uint a - 1000)))"
  by (simp add: reg_read_bool_def Let_def GetIndex_bool(2) wf_regs_def)
    (simp add: GetIndex_bool(1) nat_index bool_byte_ix and_bool_mask bool_bit_def)

definition bool_put :: "reg_state \<Rightarrow> nat \<Rightarrow> bool \<Rightarrow> u8 list" where
  "bool_put r i v = (bool_reg_vet r)[i div 8 := (if v then bool_reg_vet r ! (i div 8) OR bool_mask (i mod 8)
     else bool_reg_vet r ! (i div 8) AND NOT (bool_mask (i mod 8)))]"

lemma bool_mask_same:
  "p < 8 \<Longrightarrow> x = (if v then x OR bool_mask p else x AND NOT (bool_mask p)) \<longleftrightarrow> bit x (7 - p) = v"
  for x :: u8
  by (auto intro!: bit_word_eqI simp: bit_simps bit_bool_mask
      dest: arg_cong [of _ _ "\<lambda>w. bit w (7 - p)"])

lemma reg_write_bool_ok: "wf_regs r \<Longrightarrow> bool_addr a \<Longrightarrow>
    reg_write_bool v a r = Some (if bool_bit r (nat (uint a - 1000)) = v then r
      else r\<lparr>bool_reg_vet := bool_put r (nat (uint a - 1000)) v,
             change_flag := change_flag r OR Reg_Change_Bool_Register\<rparr>)"
proof -
  assume r: "wf_regs r" and a: "bool_addr a"
  let ?i = "nat (uint a - 1000)"
  let ?old = "bool_reg_vet r ! (?i div 8)"
  let ?new = "if v then ?old OR bool_mask (?i mod 8) else ?old AND NOT (bool_mask (?i mod 8))"
  have same: "?old = ?new \<longleftrightarrow> bool_bit r ?i = v"
    unfolding bool_bit_def by (rule bool_mask_same) simp
  have get: "arr_get (bool_reg_vet r) (?i div 8) = Some ?old"
    using r bool_byte_ix [OF a] by (simp add: wf_regs_def)
  have set: "arr_set (bool_reg_vet r) (?i div 8) ?new = Some (bool_put r ?i v)"
    using r bool_byte_ix [OF a] by (simp add: wf_regs_def bool_put_def)
  have "\<not> uint a - 1000 < 0" using a by (simp add: bool_addr_def)
  with get set show ?thesis
    unfolding reg_write_bool_def Let_def GetIndex_bool(1) [OF a] nat_index [OF a]
    by (simp only: if_False bind.bind_lunit same) simp
qed

lemma bool_bit_put:
  assumes "wf_regs r" "i < 128" "j < 128"
  shows "bit (bool_put r i v ! (j div 8)) (7 - j mod 8) = (if j = i then v else bool_bit r j)"
proof (cases "j div 8 = i div 8")
  case True
  have "7 - j mod 8 = 7 - i mod 8 \<longleftrightarrow> j mod 8 = i mod 8"
    using mod_less_divisor [of 8 i] mod_less_divisor [of 8 j] by arith
  also have "\<dots> \<longleftrightarrow> j = i"
    using True by (metis div_mult_mod_eq)
  finally have "7 - j mod 8 = 7 - i mod 8 \<longleftrightarrow> j = i" .
  then show ?thesis
    using True assms by (auto simp: bool_put_def bool_bit_def wf_regs_def bit_simps bit_bool_mask)
next
  case False
  then show ?thesis using assms by (auto simp: bool_put_def bool_bit_def)
qed

interpretation bools: marked_bank reg_read_bool reg_write_bool bool_addr wf_regs
  "\<lambda>r. bit (change_flag r) 0"
proof unfold_locales
  fix r r' :: reg_state and a b :: u32 and v :: bool
  assume r: "wf_regs r" and a: "bool_addr a"
  then show "\<exists>v. reg_read_bool a r = Some v" "\<exists>r'. reg_write_bool v a r = Some r'"
    by (simp_all add: reg_read_bool_ok reg_write_bool_ok)
  assume w: "reg_write_bool v a r = Some r'"
  then show wf': "wf_regs r'"
    using r by (auto simp: reg_write_bool_ok [OF r a] wf_regs_def bool_put_def)
  show "reg_read_bool b r' = (if b = a then Some v else reg_read_bool b r)"
    if b: "bool_addr b"
  proof -
    have "b = a \<longleftrightarrow> nat (uint b - 1000) = nat (uint a - 1000)"
      using a b by (auto simp: bool_addr_def ix_eq_iff)
    moreover have "bool_bit r' (nat (uint b - 1000)) =
        (if nat (uint b - 1000) = nat (uint a - 1000) then v else bool_bit r (nat (uint b - 1000)))"
      using w bool_bit_put [OF r bool_ix [OF a] bool_ix [OF b], of v]
      by (auto simp: reg_write_bool_ok [OF r a] bool_bit_def split: if_splits)
    ultimately show ?thesis
      by (simp add: reg_read_bool_ok [OF wf' b] reg_read_bool_ok [OF r b])
  qed
  show "bit (change_flag r') 0 \<longleftrightarrow> bit (change_flag r) 0 \<or> reg_read_bool a r \<noteq> Some v"
    using w by (auto simp: reg_write_bool_ok [OF r a] reg_read_bool_ok [OF r a] bit_simps
        split: if_splits)
qed

subsection \<open>Frames\<close>

lemma reg_write_bool_frame [frame]:
  assumes "reg_write_bool v a r = Some r'"
  shows "short_reg_vet r' = short_reg_vet r" "int_reg_vet r' = int_reg_vet r"
  using assms by (auto simp: reg_write_bool_def Let_def Option.bind_eq_Some_conv split: if_splits)

lemma reg_write_short_frame [frame]:
  assumes "reg_write_short v a r = Some r'"
  shows "bool_reg_vet r' = bool_reg_vet r" "int_reg_vet r' = int_reg_vet r"
  using assms by (auto simp: reg_write_short_def Let_def Option.bind_eq_Some_conv split: if_splits)

lemma reg_write_int_frame [frame]:
  assumes "reg_write_int v a r = Some r'"
  shows "bool_reg_vet r' = bool_reg_vet r" "short_reg_vet r' = short_reg_vet r"
  using assms by (auto simp: reg_write_int_def Let_def Option.bind_eq_Some_conv split: if_splits)

section \<open>Properties of the typed accessors\<close>




lemma same_value_unchanged:
  "run_all (\<lambda>(a, v). reg_write_bool v a) [(1000, False)] reg_zero = Some reg_zero"
  "run_all (\<lambda>(a, v). reg_write_short v a) [(3000, 0)] reg_zero = Some reg_zero"
  "run_all (\<lambda>(a, v). reg_write_int v a) [(5000, 0)] reg_zero = Some reg_zero"
  by (simp_all add: reg_write_bool_ok reg_write_short_ok reg_write_int_ok wf_reg_zero
      bool_addr_def short_addr_def int_addr_def bool_bit_def)
    (simp_all add: reg_zero_def)


section \<open>The array accessors\<close>

lemma vet_differs_spec:
  "(\<And>j. i \<le> j \<Longrightarrow> j < i + n \<Longrightarrow> d j = Some (P j)) \<Longrightarrow>
   vet_differs i n d = Some (\<exists>j. i \<le> j \<and> j < i + n \<and> P j)"
proof (induction n arbitrary: i)
  case 0
  then show ?case by simp
next
  case (Suc n)
  have "vet_differs (Suc i) n d = Some (\<exists>j. Suc i \<le> j \<and> j < Suc i + n \<and> P j)"
    by (rule Suc.IH) (use Suc.prems in simp)
  moreover have "d i = Some (P i)" using Suc.prems by simp
  moreover have "(\<exists>j. i \<le> j \<and> j < i + Suc n \<and> P j) \<longleftrightarrow>
      P i \<or> (\<exists>j. Suc i \<le> j \<and> j < Suc i + n \<and> P j)"
    by (metis Suc_leD Suc_leI add_Suc add_Suc_right le_eq_less_or_eq le_add1 order_refl less_Suc_eq_le)
  ultimately show ?case by simp
qed

lemma vet_in_range:
  assumes "0 \<le> k" "nat k + unat n \<le> tot" "tot < 2 ^ 31"
  shows "\<not> vet_too_long k n tot"
proof -
  have "unat (word_of_int k :: u32) = nat k"
    using assms by (simp add: unsigned_of_int take_bit_int_eq_self nat_less_iff flip: unat_of_nat)
  then have "unat (word_of_int k + n) = nat k + unat n"
    using assms by (subst unat_add_lem [THEN iffD1]) simp_all
  then show ?thesis
    using assms by (simp add: vet_too_long_def word_less_nat_alt unat_of_nat)
qed

lemma take_eq_iff_nth:
  "n \<le> length xs \<Longrightarrow> k + n \<le> length ys \<Longrightarrow>
   (\<exists>j<n. xs ! j \<noteq> ys ! (k + j)) \<longleftrightarrow> take n xs \<noteq> take n (drop k ys)"
  by (auto simp: list_eq_iff_nth_eq)

lemma splice_same: "take n (drop k ys) = zs \<Longrightarrow> k + n \<le> length ys \<Longrightarrow>
    take k ys @ zs @ drop (k + n) ys = ys"
  by (metis add.commute append_take_drop_id drop_drop)

text \<open>Writing the shorts of a buffer is a splice, and sets the pending bit when it changes one.\<close>

lemma reg_write_short_vet_spec:
  assumes "wf_regs r" "short_addr a" "k = nat (uint a - 3000)" "k + unat n \<le> 128"
    and "unat n \<le> length vet"
  shows "reg_write_short_vet vet n a r =
    Some (if take (unat n) vet = take (unat n) (drop k (short_reg_vet r)) then r
      else r\<lparr>short_reg_vet := take k (short_reg_vet r) @ take (unat n) vet @
                 drop (k + unat n) (short_reg_vet r),
             change_flag := change_flag r OR Reg_Change_Short_Register\<rparr>)"
proof -
  have k: "nat (Sys_RegMap_GetIndex a) = k" "\<not> Sys_RegMap_GetIndex a < 0"
    using assms by (simp_all add: GetIndex_short(1)) (simp add: short_addr_def)
  have long: "\<not> vet_too_long (Sys_RegMap_GetIndex a) n Sys_RegMap_Nreg_Short_tot"
    using k assms(4) by (intro vet_in_range) (simp_all add: Sys_RegMap_Nreg_Short_tot_def)
  have "vet_differs 0 (unat n) (\<lambda>i. do {
         v \<leftarrow> arr_get vet i; old \<leftarrow> arr_get (short_reg_vet r) (k + i); Some (v \<noteq> old) }) =
       Some (take (unat n) vet \<noteq> take (unat n) (drop k (short_reg_vet r)))"
    using assms unfolding wf_regs_def
    by (subst vet_differs_spec [where P = "\<lambda>i. vet ! i \<noteq> short_reg_vet r ! (k + i)"])
      (simp_all add: take_eq_iff_nth)
  then show ?thesis
    using long k assms(1,4,5)
    by (simp add: reg_write_short_vet_def Let_def vet_memcpy_def wf_regs_def min_absorb2)
qed

lemma reg_write_int_vet_spec:
  assumes "wf_regs r" "int_addr a" "k = nat (uint a - 5000)" "k + unat n \<le> 128"
    and "unat n \<le> length vet"
  shows "reg_write_int_vet vet n a r =
    Some (if take (unat n) vet = take (unat n) (drop k (map scast (short_reg_vet r))) then r
      else r\<lparr>int_reg_vet := take k (int_reg_vet r) @ take (unat n) vet @
                 drop (k + unat n) (int_reg_vet r),
             change_flag := change_flag r OR Reg_Change_Int_Register\<rparr>)"
proof -
  have k: "nat (Sys_RegMap_GetIndex a) = k" "\<not> Sys_RegMap_GetIndex a < 0"
    using assms by (simp_all add: GetIndex_int(1)) (simp add: int_addr_def)
  have long: "\<not> vet_too_long (Sys_RegMap_GetIndex a) n Sys_RegMap_Nreg_Int_tot"
    using k assms(4) by (intro vet_in_range) (simp_all add: Sys_RegMap_Nreg_Int_tot_def)
  have "vet_differs 0 (unat n) (\<lambda>i. do {
         v \<leftarrow> arr_get vet i; old \<leftarrow> arr_get (short_reg_vet r) (k + i); Some (v \<noteq> scast old) }) =
       Some (\<exists>j<unat n. vet ! j \<noteq> map scast (short_reg_vet r) ! (k + j))"
    using assms unfolding wf_regs_def
    by (subst vet_differs_spec
        [where P = "\<lambda>i. vet ! i \<noteq> map scast (short_reg_vet r) ! (k + i)"]) simp_all
  also have "(\<exists>j<unat n. vet ! j \<noteq> map scast (short_reg_vet r) ! (k + j)) \<longleftrightarrow>
      take (unat n) vet \<noteq> take (unat n) (drop k (map scast (short_reg_vet r)))"
    using assms(1,4,5) by (intro take_eq_iff_nth) (simp_all add: wf_regs_def)
  finally show ?thesis
    using long k assms(1,4,5)
    by (simp add: reg_write_int_vet_def Let_def vet_memcpy_def wf_regs_def min_absorb2)
qed

lemma vet_fetch_spec:
  "k + n \<le> length src \<Longrightarrow> n \<le> length dst \<Longrightarrow>
   vet_fetch dst src k n = Some (take n (drop k src) @ drop n dst)"
  by (simp add: vet_fetch_def)

lemma reg_read_short_vet_spec:
  assumes "wf_regs r" "short_addr a" "k = nat (uint a - 3000)" "k + unat n \<le> 128"
    and "unat n \<le> length vet"
  shows "reg_read_short_vet vet n a r =
    Some (take (unat n) (drop k (short_reg_vet r)) @ drop (unat n) vet)"
proof -
  have k: "nat (Sys_RegMap_GetIndex a) = k" "\<not> Sys_RegMap_GetIndex a < 0"
    using assms by (simp_all add: GetIndex_short(1)) (simp add: short_addr_def)
  have "\<not> vet_too_long (Sys_RegMap_GetIndex a) n Sys_RegMap_Nreg_Short_tot"
    using k assms(4) by (intro vet_in_range) (simp_all add: Sys_RegMap_Nreg_Short_tot_def)
  with k assms show ?thesis
    by (simp add: reg_read_short_vet_def Let_def vet_fetch_spec wf_regs_def)
qed

lemma reg_read_int_vet_spec:
  assumes "wf_regs r" "int_addr a" "k = nat (uint a - 5000)" "k + unat n \<le> 128"
    and "unat n \<le> length vet"
  shows "reg_read_int_vet vet n a r =
    Some (take (unat n) (drop k (int_reg_vet r)) @ drop (unat n) vet)"
proof -
  have k: "nat (Sys_RegMap_GetIndex a) = k" "\<not> Sys_RegMap_GetIndex a < 0"
    using assms by (simp_all add: GetIndex_int(1)) (simp add: int_addr_def)
  have "\<not> vet_too_long (Sys_RegMap_GetIndex a) n Sys_RegMap_Nreg_Int_tot"
    using k assms(4) by (intro vet_in_range) (simp_all add: Sys_RegMap_Nreg_Int_tot_def)
  with k assms show ?thesis
    by (simp add: reg_read_int_vet_def Let_def vet_fetch_spec wf_regs_def)
qed

lemma take_drop_splice:
  "k + length ys \<le> length xs \<Longrightarrow>
   take (length ys) (drop k (take k xs @ ys @ drop (k + length ys) xs)) = ys"
  by simp

text \<open>
  An array of shorts written inside the bank is read back unchanged by the array reader, and
  nothing outside it changes.
\<close>

theorem short_vet_round_trip:
  assumes "wf_regs r" "short_addr a" "k = nat (uint a - 3000)" "k + unat n \<le> 128"
    and "unat n \<le> length vet" "unat n \<le> length buf"
  shows "\<exists>r'. reg_write_short_vet vet n a r = Some r' \<and> wf_regs r' \<and>
    reg_read_short_vet buf n a r' = Some (take (unat n) vet @ drop (unat n) buf) \<and>
    take k (short_reg_vet r') = take k (short_reg_vet r) \<and>
    drop (k + unat n) (short_reg_vet r') = drop (k + unat n) (short_reg_vet r) \<and>
    bool_reg_vet r' = bool_reg_vet r \<and> int_reg_vet r' = int_reg_vet r"
proof -
  define ys where "ys = take (unat n) vet"
  have ys: "length ys = unat n" using assms(5) by (simp add: ys_def)
  define r' where "r' = (if ys = take (unat n) (drop k (short_reg_vet r)) then r
      else r\<lparr>short_reg_vet := take k (short_reg_vet r) @ ys @ drop (k + unat n) (short_reg_vet r),
             change_flag := change_flag r OR Reg_Change_Short_Register\<rparr>)"
  have len: "length (short_reg_vet r) = 128" using assms(1) by (simp add: wf_regs_def)
  have new: "short_reg_vet r' = take k (short_reg_vet r) @ ys @ drop (k + unat n) (short_reg_vet r)"
    using splice_same [of "unat n" k "short_reg_vet r" ys] assms(4) len by (auto simp: r'_def)
  have wf: "wf_regs r'"
    using assms(1,4) ys by (auto simp: r'_def wf_regs_def)
  have "take (unat n) (drop k (short_reg_vet r')) = ys"
    using take_drop_splice [of k ys "short_reg_vet r"] assms(4) len by (simp add: new ys)
  then have "reg_read_short_vet buf n a r' = Some (ys @ drop (unat n) buf)"
    by (simp add: reg_read_short_vet_spec [OF wf assms(2,3,4,6)])
  moreover have "reg_write_short_vet vet n a r = Some r'"
    by (simp add: reg_write_short_vet_spec [OF assms(1-5)] r'_def ys_def)
  moreover have "take k (short_reg_vet r') = take k (short_reg_vet r)"
    "drop (k + unat n) (short_reg_vet r') = drop (k + unat n) (short_reg_vet r)"
    unfolding new using assms(4) len ys by simp_all
  moreover have "bool_reg_vet r' = bool_reg_vet r" "int_reg_vet r' = int_reg_vet r"
    by (simp_all add: r'_def)
  ultimately show ?thesis using wf by (auto simp: ys_def)
qed

theorem short_vet_round_trip_witness:
  "\<exists>r'. reg_write_short_vet [5, 6] 2 3126 reg_zero = Some r' \<and> wf_regs r' \<and>
    reg_read_short_vet [0, 0, 9] 2 3126 r' = Some (take (unat (2 :: u32)) [5, 6] @ drop (unat (2 :: u32)) [0, 0, 9]) \<and>
    take 126 (short_reg_vet r') = take 126 (short_reg_vet reg_zero) \<and>
    drop (126 + unat (2 :: u32)) (short_reg_vet r') = drop (126 + unat (2 :: u32)) (short_reg_vet reg_zero) \<and>
    bool_reg_vet r' = bool_reg_vet reg_zero \<and> int_reg_vet r' = int_reg_vet reg_zero"
  by (rule short_vet_round_trip [OF wf_reg_zero]) (simp_all add: short_addr_def)

text \<open>
  The array writer of ints looks for a change in the bank of shorts: an array of ints that
  equals the shorts at the same indices is dropped whatever the ints were, and any other is
  written and marked, even when it changes nothing.
\<close>

theorem int_vet_compares_with_shorts:
  assumes "wf_regs r" "int_addr a" "k = nat (uint a - 5000)" "k + unat n \<le> 128"
    and "unat n = length vet"
  shows "reg_write_int_vet vet n a r =
    Some (if vet = take (unat n) (drop k (map scast (short_reg_vet r))) then r
      else r\<lparr>int_reg_vet := take k (int_reg_vet r) @ vet @ drop (k + unat n) (int_reg_vet r),
             change_flag := change_flag r OR Reg_Change_Int_Register\<rparr>)"
  using reg_write_int_vet_spec [OF assms(1-4), of vet] assms(5) by simp

text \<open>In the witness the write of a zero over a one is lost.\<close>

definition sample_regs :: reg_state where
  "sample_regs = reg_zero\<lparr>int_reg_vet := (replicate 128 0)[3 := 1]\<rparr>"

lemma sample_regs_facts: "wf_regs sample_regs" "short_reg_vet sample_regs = replicate 128 0"
  by (simp_all add: sample_regs_def reg_zero_def wf_regs_def)

theorem int_vet_compares_with_shorts_witness:
  "reg_write_int_vet [0] 1 5003 sample_regs = Some sample_regs"
proof -
  have eq: "[0] = take (unat (1 :: u32)) (drop 3 (map scast (short_reg_vet sample_regs)))"
    by (simp add: sample_regs_facts)
  have "int_addr 5003" and "3 = nat (uint (5003 :: u32) - 5000)"
    and "3 + unat (1 :: u32) \<le> 128" and "unat (1 :: u32) = length [0 :: i32]"
    by (simp_all add: int_addr_def)
  from int_vet_compares_with_shorts [OF sample_regs_facts(1) this] show ?thesis
    by (simp only: if_P [OF eq])
qed

section \<open>The untyped accessors\<close>

lemma uint_case_range:
  "case_range a Sys_RegMap_Offset_Bool Sys_RegMap_Nreg_Bool_tot \<longleftrightarrow> 1000 \<le> uint a \<and> uint a \<le> 1128"
  "case_range a Sys_RegMap_Offset_Short Sys_RegMap_Nreg_Short_tot \<longleftrightarrow> 3000 \<le> uint a \<and> uint a \<le> 3128"
  "case_range a Sys_RegMap_Offset_Int Sys_RegMap_Nreg_Int_tot \<longleftrightarrow> 5000 \<le> uint a \<and> uint a \<le> 5128"
  by (simp_all add: case_range_def regmap word_le_def)

lemma past_bank:
  assumes "wf_regs r"
  shows "reg_write_bool v 1128 r = None" "reg_write_short s 3128 r = None"
    "reg_write_int i 5128 r = None"
  using assms by (simp_all add: reg_write_bool_def reg_write_short_def reg_write_int_def
      GetIndex_eq bool_index_addr_def wf_regs_def arr_get_def)

text \<open>
  The untyped writer stores the value whose bytes it is given in the bank of the address, and
  ignores an address outside the \<open>case\<close> ranges; but the ranges include one address past each
  bank, and there the access leaves the array.
\<close>

theorem reg_write_cases:
  assumes "wf_regs r"
  shows "(bool_addr a \<longrightarrow> reg_write (b # bs) a r = reg_write_bool (b \<noteq> 0) a r) \<and>
    (short_addr a \<longrightarrow> reg_write (le16 s @ bs) a r = reg_write_short s a r) \<and>
    (int_addr a \<longrightarrow> reg_write (le32 i @ bs) a r = reg_write_int i a r) \<and>
    (a \<in> {1128, 3128, 5128} \<longrightarrow> reg_write val a r = None) \<and>
    (\<not> bool_addr a \<and> \<not> short_addr a \<and> \<not> int_addr a \<and> a \<notin> {1128, 3128, 5128} \<longrightarrow>
       reg_write val a r = Some r)"
proof (intro conjI impI)
  assume "a \<in> {1128, 3128, 5128}"
  then consider "a = 1128" | "a = 3128" | "a = 5128" by blast
  then show "reg_write val a r = None"
    by cases (simp_all add: reg_write_def uint_case_range past_bank [OF assms])
next
  assume "\<not> bool_addr a \<and> \<not> short_addr a \<and> \<not> int_addr a \<and> a \<notin> {1128, 3128, 5128}"
  then have "uint a \<noteq> 1128" "uint a \<noteq> 3128" "uint a \<noteq> 5128"
    by (auto simp: word_uint_eq_iff)
  with \<open>\<not> bool_addr a \<and> _\<close> show "reg_write val a r = Some r"
    by (auto simp: reg_write_def uint_case_range bool_addr_def short_addr_def int_addr_def)
qed (auto simp: reg_write_def uint_case_range bool_addr_def short_addr_def int_addr_def
    le16_def le32_def of_le16_le16 of_le32_le32)

theorem reg_write_cases_witness:
  "reg_write [1] 1128 reg_zero = None \<and> reg_write [0, 0, 0, 0] 5200 reg_zero = Some reg_zero"
  using reg_write_cases [OF wf_reg_zero, of 1128 0 "[]" 0 0 "[1]"]
    reg_write_cases [OF wf_reg_zero, of 5200 0 "[]" 0 0 "[0, 0, 0, 0]"]
  by (simp add: bool_addr_def short_addr_def int_addr_def)

section \<open>The byte image\<close>

lemma length_reg_image: "wf_regs r \<Longrightarrow> length (reg_image r) = 784"
  by (simp add: wf_regs_def reg_image_def)

lemma reg_load_image: "wf_regs r \<Longrightarrow> reg_load (reg_image r) r = r"
  by (simp add: reg_load_def reg_image_def wf_regs_def)

lemma reg_image_load: "length bs = 784 \<Longrightarrow> reg_image (reg_load bs r) = bs"
proof -
  assume l: "length bs = 784"
  have "reg_image (reg_load bs r) = take 16 bs @ take 256 (drop 16 bs) @ take 512 (drop 272 bs)"
    using l by (simp add: reg_image_def reg_load_def short_bytes_as_shorts int_bytes_as_ints)
  also have "take 512 (drop 272 bs) = drop 272 bs" using l by simp
  also have "take 256 (drop 16 bs) @ drop 272 bs = drop 16 bs"
    using append_take_drop_id [of 256 "drop 16 bs"] by simp
  finally show ?thesis by simp
qed

lemma wf_reg_load [wf_intro]: "length bs = 784 \<Longrightarrow> wf_regs (reg_load bs r)"
  by (simp add: reg_load_def wf_regs_def)

end
