(* ===== verification/Checksum.thy ===== *)
theory Checksum
  imports Board_Defs
begin

text \<open>
  \<open>services/checksum/checksum.c\<close>: the table-driven CRC-16/MODBUS over one buffer, over a header
  and a payload, and the check of a received frame whose last two bytes are its CRC. The
  specification is the bit-serial CRC with the reflected polynomial \<open>0xA001\<close>.
\<close>

section \<open>The code\<close>

definition table :: "u16 list" where
  "table =
   [0x0000, 0xC0C1, 0xC181, 0x0140, 0xC301, 0x03C0, 0x0280, 0xC241,
    0xC601, 0x06C0, 0x0780, 0xC741, 0x0500, 0xC5C1, 0xC481, 0x0440,
    0xCC01, 0x0CC0, 0x0D80, 0xCD41, 0x0F00, 0xCFC1, 0xCE81, 0x0E40,
    0x0A00, 0xCAC1, 0xCB81, 0x0B40, 0xC901, 0x09C0, 0x0880, 0xC841,
    0xD801, 0x18C0, 0x1980, 0xD941, 0x1B00, 0xDBC1, 0xDA81, 0x1A40,
    0x1E00, 0xDEC1, 0xDF81, 0x1F40, 0xDD01, 0x1DC0, 0x1C80, 0xDC41,
    0x1400, 0xD4C1, 0xD581, 0x1540, 0xD701, 0x17C0, 0x1680, 0xD641,
    0xD201, 0x12C0, 0x1380, 0xD341, 0x1100, 0xD1C1, 0xD081, 0x1040,
    0xF001, 0x30C0, 0x3180, 0xF141, 0x3300, 0xF3C1, 0xF281, 0x3240,
    0x3600, 0xF6C1, 0xF781, 0x3740, 0xF501, 0x35C0, 0x3480, 0xF441,
    0x3C00, 0xFCC1, 0xFD81, 0x3D40, 0xFF01, 0x3FC0, 0x3E80, 0xFE41,
    0xFA01, 0x3AC0, 0x3B80, 0xFB41, 0x3900, 0xF9C1, 0xF881, 0x3840,
    0x2800, 0xE8C1, 0xE981, 0x2940, 0xEB01, 0x2BC0, 0x2A80, 0xEA41,
    0xEE01, 0x2EC0, 0x2F80, 0xEF41, 0x2D00, 0xEDC1, 0xEC81, 0x2C40,
    0xE401, 0x24C0, 0x2580, 0xE541, 0x2700, 0xE7C1, 0xE681, 0x2640,
    0x2200, 0xE2C1, 0xE381, 0x2340, 0xE101, 0x21C0, 0x2080, 0xE041,
    0xA001, 0x60C0, 0x6180, 0xA141, 0x6300, 0xA3C1, 0xA281, 0x6240,
    0x6600, 0xA6C1, 0xA781, 0x6740, 0xA501, 0x65C0, 0x6480, 0xA441,
    0x6C00, 0xACC1, 0xAD81, 0x6D40, 0xAF01, 0x6FC0, 0x6E80, 0xAE41,
    0xAA01, 0x6AC0, 0x6B80, 0xAB41, 0x6900, 0xA9C1, 0xA881, 0x6840,
    0x7800, 0xB8C1, 0xB981, 0x7940, 0xBB01, 0x7BC0, 0x7A80, 0xBA41,
    0xBE01, 0x7EC0, 0x7F80, 0xBF41, 0x7D00, 0xBDC1, 0xBC81, 0x7C40,
    0xB401, 0x74C0, 0x7580, 0xB541, 0x7700, 0xB7C1, 0xB681, 0x7640,
    0x7200, 0xB2C1, 0xB381, 0x7340, 0xB101, 0x71C0, 0x7080, 0xB041,
    0x5000, 0x90C1, 0x9181, 0x5140, 0x9301, 0x53C0, 0x5280, 0x9241,
    0x9601, 0x56C0, 0x5780, 0x9741, 0x5500, 0x95C1, 0x9481, 0x5440,
    0x9C01, 0x5CC0, 0x5D80, 0x9D41, 0x5F00, 0x9FC1, 0x9E81, 0x5E40,
    0x5A00, 0x9AC1, 0x9B81, 0x5B40, 0x9901, 0x59C0, 0x5880, 0x9841,
    0x8801, 0x48C0, 0x4980, 0x8941, 0x4B00, 0x8BC1, 0x8A81, 0x4A40,
    0x4E00, 0x8EC1, 0x8F81, 0x4F40, 0x8D01, 0x4DC0, 0x4C80, 0x8C41,
    0x4400, 0x84C1, 0x8581, 0x4540, 0x8701, 0x47C0, 0x4680, 0x8641,
    0x8201, 0x42C0, 0x4380, 0x8341, 0x4100, 0x81C1, 0x8081, 0x4040]"

text \<open>The body of the loop of \<open>MODBUS_CRC16\<close>: one byte into the running value.\<close>

definition crc_byte :: "u16 \<Rightarrow> u8 \<Rightarrow> u16" where
  "crc_byte crc b = (let x = b XOR ucast crc in drop_bit 8 crc XOR table ! unat x)"

text \<open>\<open>while (len--)\<close> over a buffer; reading past the end of the buffer is undefined.\<close>

primrec MODBUS_CRC16_loop :: "nat \<Rightarrow> u8 list \<Rightarrow> u16 \<Rightarrow> u16 option" where
  "MODBUS_CRC16_loop 0 buf crc = Some crc"
| "MODBUS_CRC16_loop (Suc len) buf crc =
     (case buf of [] \<Rightarrow> None | b # rest \<Rightarrow> MODBUS_CRC16_loop len rest (crc_byte crc b))"

definition MODBUS_CRC16 :: "u8 list \<Rightarrow> u32 \<Rightarrow> u16 option" where
  "MODBUS_CRC16 buf len = MODBUS_CRC16_loop (unat len) buf 0xFFFF"

text \<open>The two-buffer variant indexes its buffers and masks the table index itself.\<close>

definition crc_struct_body :: "u8 list \<Rightarrow> nat \<Rightarrow> u16 \<Rightarrow> u16 option" where
  "crc_struct_body buf i crc = do {
     b \<leftarrow> arr_get buf i;
     let x = (ucast ((crc XOR ucast b) AND 0xFF) :: u8);
     Some (drop_bit 8 crc XOR table ! unat x) }"

definition MODBUS_STRUCT_CRC16 :: "u8 list \<Rightarrow> u32 \<Rightarrow> u8 list \<Rightarrow> u32 \<Rightarrow> u16 option" where
  "MODBUS_STRUCT_CRC16 buf1 len1 buf2 len2 = do {
     crc \<leftarrow> for_loop 0 (unat len1) (crc_struct_body buf1) 0xFFFF;
     for_loop 0 (unat len2) (crc_struct_body buf2) crc }"

definition CHECK_CRC16 :: "u8 list \<Rightarrow> u32 \<Rightarrow> bool option" where
  "CHECK_CRC16 buf len = do {
     hi \<leftarrow> arr_get buf (unat (len - 1));
     lo \<leftarrow> arr_get buf (unat (len - 2));
     let CRC = (push_bit 8 (ucast hi) + ucast lo :: u16);
     crc \<leftarrow> MODBUS_CRC16 buf (len - 2);
     Some (CRC = crc) }"

section \<open>Specification: the bit-serial CRC\<close>

definition crc_bit :: "u16 \<Rightarrow> u16" where
  "crc_bit c = (if bit c 0 then drop_bit 1 c XOR 0xA001 else drop_bit 1 c)"

definition crc_spec_byte :: "u16 \<Rightarrow> u8 \<Rightarrow> u16" where
  "crc_spec_byte c b = (crc_bit ^^ 8) (c XOR ucast b)"

definition crc_spec :: "u8 list \<Rightarrow> u16" where
  "crc_spec bs = foldl crc_spec_byte 0xFFFF bs"

section \<open>The table computes eight bit steps\<close>

lemma length_table [simp]: "length table = 256"
  by (simp add: table_def)

lemma crc_bit_xor: "crc_bit (a XOR b) = crc_bit a XOR crc_bit b"
  by (rule bit_eqI) (auto simp: crc_bit_def bit_simps)

lemma crc_bits_xor: "(crc_bit ^^ n) (a XOR b) = (crc_bit ^^ n) a XOR (crc_bit ^^ n) b"
  by (induction n) (simp_all add: crc_bit_xor)

lemma crc_bits_high:
  assumes "\<And>i. i < n \<Longrightarrow> \<not> bit c i"
  shows "(crc_bit ^^ n) c = drop_bit n c"
  using assms
proof (induction n)
  case 0
  then show ?case by simp
next
  case (Suc n)
  then have "(crc_bit ^^ n) c = drop_bit n c" by simp
  moreover have "crc_bit (drop_bit n c) = drop_bit 1 (drop_bit n c)"
    using Suc.prems [of n] by (simp only: crc_bit_def bit_drop_bit_eq o_apply if_False add_0_right)
  ultimately show ?case by simp
qed


lemma crc_bits8:
  "(crc_bit ^^ 8) c =
     crc_bit (crc_bit (crc_bit (crc_bit (crc_bit (crc_bit (crc_bit (crc_bit c)))))))"
  by (simp add: numeral_eq_Suc)

lemma crc_bit_numeral:
  "crc_bit (numeral w) =
     (if bit (numeral w :: u16) 0 then drop_bit 1 (numeral w) XOR 0xA001 else drop_bit 1 (numeral w))"
  "crc_bit 0 = 0" "crc_bit 1 = 0xA001"
  by (simp_all add: crc_bit_def)

lemma table_spec_all: "map (\<lambda>i. (crc_bit ^^ 8) (of_nat i)) [0..<256] = table"
  by (simp add: table_def crc_bits8 crc_bit_numeral upt_rec)

lemma table_spec: "i < 256 \<Longrightarrow> table ! i = (crc_bit ^^ 8) (of_nat i)"
  by (subst table_spec_all [symmetric]) simp

text \<open>One step acts on the running value with the byte folded into its low half.\<close>

definition crc_map :: "u16 \<Rightarrow> u16" where
  "crc_map t = drop_bit 8 t XOR table ! unat (ucast t :: u8)"

lemma crc_byte_map: "crc_byte c b = crc_map (c XOR ucast b)"
proof -
  have "(ucast (c XOR ucast b) :: u8) = b XOR ucast c"
    by (rule bit_eqI) (auto simp: bit_simps)
  moreover have "drop_bit 8 (c XOR ucast b) = drop_bit 8 c"
    by (rule bit_eqI) (auto simp: bit_simps dest: bit_imp_le_length)
  ultimately show ?thesis by (simp add: crc_byte_def crc_map_def)
qed

lemma crc_map_spec: "crc_map t = (crc_bit ^^ 8) t"
proof -
  define lo hi where "lo = (ucast t :: u8)" and "hi = push_bit 8 (drop_bit 8 t)"
  have split: "t = hi XOR ucast lo"
    unfolding lo_def hi_def by (rule bit_eqI) (auto simp: bit_simps not_less)
  have "(crc_bit ^^ 8) hi = drop_bit 8 hi"
    by (rule crc_bits_high) (simp add: hi_def bit_simps)
  also have "\<dots> = drop_bit 8 t"
    unfolding hi_def by (rule bit_eqI) (auto simp: bit_simps dest: bit_imp_le_length)
  finally have hi: "(crc_bit ^^ 8) hi = drop_bit 8 t" .
  have "table ! unat lo = (crc_bit ^^ 8) (ucast lo)"
    by (simp add: table_spec)
  then show ?thesis
    unfolding split [symmetric] crc_map_def
    by (subst (3) split) (simp add: crc_bits_xor hi lo_def)
qed

lemma crc_byte_spec: "crc_byte c b = crc_spec_byte c b"
  by (simp add: crc_byte_map crc_map_spec crc_spec_byte_def)

section \<open>The routines compute the specification\<close>

lemma MODBUS_CRC16_loop_eq:
  "MODBUS_CRC16_loop n buf c =
     (if n \<le> length buf then Some (foldl crc_spec_byte c (take n buf)) else None)"
  by (induction n arbitrary: buf c) (auto simp: crc_byte_spec split: list.splits)

lemma MODBUS_CRC16_eq:
  "MODBUS_CRC16 buf len =
     (if unat len \<le> length buf then Some (crc_spec (take (unat len) buf)) else None)"
  by (simp add: MODBUS_CRC16_def MODBUS_CRC16_loop_eq crc_spec_def)

lemma crc_struct_body_eq:
  "crc_struct_body buf i crc = map_option (crc_byte crc) (arr_get buf i)"
proof -
  have "(ucast ((crc XOR ucast b) AND 0xFF) :: u8) = b XOR ucast crc" for b :: u8
    by (rule bit_eqI)
      (auto simp: bit_simps word_size bit_numeral_rec less_Suc_eq numeral_eq_Suc)
  then show ?thesis
    by (cases "arr_get buf i") (auto simp: crc_struct_body_def crc_byte_def Let_def simp del: arr_get_eq_None)
qed

lemma crc_struct_loop:
  "for_loop i n (crc_struct_body buf) c =
     (if n = 0 \<or> i + n \<le> length buf then Some (foldl crc_spec_byte c (take n (drop i buf)))
      else None)"
proof (induction n arbitrary: i c)
  case 0
  then show ?case by simp
next
  case (Suc n)
  show ?case
  proof (cases "i < length buf")
    case True
    then have "take (Suc n) (drop i buf) = buf ! i # take n (drop (Suc i) buf)"
      by (simp add: Cons_nth_drop_Suc [symmetric])
    then show ?thesis using True Suc.IH [of "Suc i" "crc_byte c (buf ! i)"]
      by (auto simp: crc_struct_body_eq crc_byte_spec)
  next
    case False
    then show ?thesis by (simp add: crc_struct_body_eq arr_get_def)
  qed
qed

lemma MODBUS_STRUCT_CRC16_eq:
  "MODBUS_STRUCT_CRC16 buf1 len1 buf2 len2 =
     (if unat len1 \<le> length buf1 \<and> unat len2 \<le> length buf2
      then Some (crc_spec (take (unat len1) buf1 @ take (unat len2) buf2)) else None)"
  by (auto simp: MODBUS_STRUCT_CRC16_def crc_struct_loop crc_spec_def)

text \<open>
  C36: both CRC routines compute the bit-serial CRC-16/MODBUS: the one-buffer routine of the
  first \<open>len\<close> bytes of its buffer, the two-buffer routine of the concatenation of the two
  prefixes; each is undefined exactly when a length exceeds its buffer.
\<close>

theorem crc_routines_spec:
  "MODBUS_CRC16 buf len =
     (if unat len \<le> length buf then Some (crc_spec (take (unat len) buf)) else None) \<and>
   MODBUS_STRUCT_CRC16 buf1 len1 buf2 len2 =
     (if unat len1 \<le> length buf1 \<and> unat len2 \<le> length buf2
      then Some (crc_spec (take (unat len1) buf1 @ take (unat len2) buf2)) else None)"
  using MODBUS_CRC16_eq MODBUS_STRUCT_CRC16_eq by blast

section \<open>Checking a frame\<close>

lemma table_high_nonzero: "\<forall>t \<in> set (tl table). drop_bit 8 t \<noteq> 0"
  by (simp add: table_def)

lemma table_xor: "table ! unat a XOR table ! unat b = table ! unat (a XOR b)"
  for a b :: u8
proof -
  have "(ucast (a XOR b) :: u16) = ucast a XOR ucast b"
    by (rule bit_eqI) (auto simp: bit_simps)
  then show ?thesis by (simp add: table_spec crc_bits_xor)
qed

lemma table_high_inj:
  assumes "drop_bit 8 (table ! unat a) = drop_bit 8 (table ! unat b)"
  shows "a = (b :: u8)"
proof (rule ccontr)
  assume "a \<noteq> b"
  then have "unat (a XOR b) \<noteq> 0" by (simp only: unsigned_eq_0_iff xor_eq_zero) simp
  then obtain i where i: "unat (a XOR b) = Suc i" by (cases "unat (a XOR b)") auto
  then have "i < length (tl table)" using unat_u8_less [of "a XOR b"] by simp
  then have "table ! unat (a XOR b) \<in> set (tl table)"
    unfolding i by (metis nth_mem nth_tl)
  then have "drop_bit 8 (table ! unat (a XOR b)) \<noteq> 0"
    using table_high_nonzero by blast
  then show False using assms by (simp add: table_xor [symmetric] drop_bit_xor)
qed

lemma crc_map_high: "drop_bit 8 (crc_map t) = drop_bit 8 (table ! unat (ucast t :: u8))"
  unfolding crc_map_def
  by (rule bit_eqI) (auto simp: bit_simps dest: bit_imp_le_length)

lemma crc_map_inj: "crc_map s = crc_map t \<Longrightarrow> s = t"
proof -
  assume eq: "crc_map s = crc_map t"
  then have lo: "(ucast s :: u8) = ucast t"
    by (metis crc_map_high table_high_inj)
  with eq have hi: "drop_bit 8 s = drop_bit 8 t"
    by (simp add: crc_map_def)
  show "s = t"
  proof (rule bit_eqI)
    fix n assume "possible_bit TYPE(16 word) n"
    then have "n < 16" by simp
    show "bit s n = bit t n"
    proof (cases "n < 8")
      case True
      with arg_cong [OF lo, of "\<lambda>w. bit w n"] show ?thesis by (simp add: bit_simps)
    next
      case False
      with arg_cong [OF hi, of "\<lambda>w. bit w (n - 8)"] show ?thesis by (simp add: bit_simps)
    qed
  qed
qed

lemma crc_spec_byte_map: "crc_spec_byte c b = crc_map (c XOR ucast b)"
  by (simp add: crc_spec_byte_def crc_map_spec)

lemma crc_map_zero [simp]: "crc_map 0 = 0"
  by (simp add: crc_map_def table_def)

lemma ucast_ucast_id_u8: "(ucast (ucast (b :: u8) :: u16) :: u8) = b"
  by (rule bit_eqI) (auto simp: bit_simps)

lemma ucast_u8_u16_inj [simp]: "(ucast a :: u16) = ucast b \<longleftrightarrow> a = b" for a b :: u8
  by (metis ucast_ucast_id_u8)

lemma drop_bit_ucast_u8 [simp]: "drop_bit 8 (ucast (b :: u8) :: u16) = 0"
  by (rule bit_eqI) (auto simp: bit_simps dest: bit_imp_le_length)

lemma crc_map_own: "crc_map (c XOR ucast (ucast c :: u8)) = drop_bit 8 c"
  "crc_map (drop_bit 8 c XOR ucast (ucast (drop_bit 8 c) :: u8)) = 0"
proof -
  have "(ucast (c XOR ucast (ucast c :: u8)) :: u8) = 0"
    by (rule bit_eqI) (auto simp: bit_simps)
  moreover have "drop_bit 8 (c XOR ucast (ucast c :: u8)) = drop_bit 8 c"
    by (simp add: drop_bit_xor)
  ultimately show "crc_map (c XOR ucast (ucast c :: u8)) = drop_bit 8 c"
    by (simp add: crc_map_def table_def)
  have "drop_bit 8 c XOR ucast (ucast (drop_bit 8 c) :: u8) = 0"
    by (rule bit_eqI) (auto simp: bit_simps dest: bit_imp_le_length)
  then show "crc_map (drop_bit 8 c XOR ucast (ucast (drop_bit 8 c) :: u8)) = 0" by simp
qed

text \<open>The two bytes that bring a running value to zero are its own, low byte first.\<close>

lemma crc_two_bytes_zero:
  "crc_spec_byte (crc_spec_byte c lo) hi = 0 \<longleftrightarrow> lo = ucast c \<and> hi = ucast (drop_bit 8 c)"
proof
  assume "crc_spec_byte (crc_spec_byte c lo) hi = 0"
  then have eq: "crc_map (c XOR ucast lo) = ucast hi"
    by (metis crc_map_inj crc_map_zero crc_spec_byte_map xor_eq_zero)
  then have "drop_bit 8 (table ! unat (ucast (c XOR ucast lo) :: u8)) = 0"
    by (metis crc_map_high drop_bit_ucast_u8)
  also have "\<dots> = drop_bit 8 (table ! unat (0 :: u8))" by (simp add: table_def)
  finally have lo: "(ucast (c XOR ucast lo) :: u8) = 0" by (rule table_high_inj)
  moreover have "(ucast (c XOR ucast lo) :: u8) = ucast c XOR lo"
    by (rule bit_eqI) (auto simp: bit_simps)
  ultimately have "lo = ucast c" by simp
  moreover have "crc_map (c XOR ucast lo) = drop_bit 8 (c XOR ucast lo)"
    using lo by (simp add: crc_map_def table_def)
  ultimately have "(ucast hi :: u16) = drop_bit 8 c"
    using eq by (simp add: drop_bit_xor)
  then have "hi = ucast (drop_bit 8 c)"
    by (metis ucast_ucast_id_u8)
  with \<open>lo = ucast c\<close> show "lo = ucast c \<and> hi = ucast (drop_bit 8 c)" by simp
next
  assume "lo = ucast c \<and> hi = ucast (drop_bit 8 c)"
  then show "crc_spec_byte (crc_spec_byte c lo) hi = 0"
    by (auto simp: crc_spec_byte_map crc_map_own)
qed

text \<open>A frame of at least two bytes passes the check exactly when its CRC is zero.\<close>

lemma CHECK_CRC16_residue:
  assumes "2 \<le> unat len" and "unat len \<le> length buf"
  shows "CHECK_CRC16 buf len = Some (crc_spec (take (unat len) buf) = 0)"
proof -
  define n where "n = unat len - 2"
  have n: "unat len = n + 2" using assms(1) by (simp add: n_def)
  have "unat (len - 1) = n + 1" "unat (len - 2) = n"
    using assms(1) by (simp_all add: n_def unat_sub word_le_nat_alt)
  moreover have "take (unat len) buf = take n buf @ [buf ! n, buf ! (n + 1)]"
    using assms(2) by (simp add: n take_Suc_conv_app_nth)
  moreover have "(push_bit 8 (ucast hi) + ucast lo = c) = (lo = ucast c \<and> hi = ucast (drop_bit 8 c))"
    for hi lo :: u8 and c :: u16
  proof -
    have "push_bit 8 (ucast hi) + ucast lo = of_le16 lo hi"
      unfolding of_le16_def
      by (subst disjunctive_add) (auto simp: bit_simps or.commute dest: bit_imp_le_length)
    moreover have "(of_le16 lo hi = c) = (le16 (of_le16 lo hi) = le16 c)"
      by (metis le16_def list.inject of_le16_le16)
    ultimately show ?thesis by (simp add: le16_of_le16) (simp add: le16_def)
  qed
  ultimately show ?thesis
    using assms(2) by (simp add: CHECK_CRC16_def MODBUS_CRC16_eq n crc_spec_def
        crc_two_bytes_zero)
qed

lemma crc_spec_frame: "crc_spec (bs @ le16 (crc_spec bs)) = 0"
  using crc_two_bytes_zero [of "crc_spec bs" "ucast (crc_spec bs)" "ucast (drop_bit 8 (crc_spec bs))"]
  by (simp add: crc_spec_def le16_def)

lemma CHECK_CRC16_accepts:
  assumes "length bs + 2 < 2 ^ 32"
  shows "CHECK_CRC16 (bs @ le16 (crc_spec bs)) (of_nat (length bs + 2)) = Some True"
proof -
  have "unat (of_nat (length bs + 2) :: u32) = length bs + 2"
    using assms by (simp only: unat_of_nat) simp
  then show ?thesis
    by (subst CHECK_CRC16_residue) (simp_all add: crc_spec_frame)
qed

lemma crc_foldl_inj: "foldl crc_spec_byte c s = foldl crc_spec_byte d s \<Longrightarrow> c = d"
proof (induction s arbitrary: c d)
  case Nil
  then show ?case by simp
next
  case (Cons b s)
  then have "crc_map (c XOR ucast b) = crc_map (d XOR ucast b)"
    by (simp add: crc_spec_byte_map)
  then show ?case by (metis crc_map_inj xor_cancel_right)
qed

lemma CHECK_CRC16_burst:
  assumes "CHECK_CRC16 (p @ [a, b] @ s) len = Some True"
    and "CHECK_CRC16 (p @ [a', b'] @ s) len = Some True"
    and "unat len = length p + 2 + length s"
  shows "a' = a \<and> b' = b"
proof -
  define c where "c = crc_spec p"
  have "crc_spec (p @ [a, b] @ s) = 0" "crc_spec (p @ [a', b'] @ s) = 0"
    using assms by (simp_all add: CHECK_CRC16_residue)
  then have "foldl crc_spec_byte (crc_spec_byte (crc_spec_byte c a) b) s =
      foldl crc_spec_byte (crc_spec_byte (crc_spec_byte c a') b') s"
    by (simp add: c_def crc_spec_def)
  then have "crc_spec_byte (crc_spec_byte c a) b = crc_spec_byte (crc_spec_byte c a') b'"
    by (rule crc_foldl_inj)
  then have mid: "crc_map (c XOR ucast a) XOR ucast b = crc_map (c XOR ucast a') XOR ucast b'"
    by (metis crc_map_inj crc_spec_byte_map)
  have "drop_bit 8 (crc_map (c XOR ucast a)) = drop_bit 8 (crc_map (c XOR ucast a'))"
    using arg_cong [OF mid, of "drop_bit 8"]
    by (simp only: drop_bit_xor drop_bit_ucast_u8 xor.right_neutral)
  then have "(ucast (c XOR ucast a) :: u8) = ucast (c XOR ucast a')"
    by (simp only: crc_map_high table_high_inj)
  moreover have "(ucast (c XOR ucast x) :: u8) = ucast c XOR x" for x
    by (rule bit_eqI) (auto simp: bit_simps)
  ultimately have "a' = a" by (simp add: xor.commute [of "ucast c"])
  with mid show ?thesis by (simp add: xor.commute [of "crc_map _"])
qed

lemma CHECK_CRC16_defined:
  "2 \<le> unat len \<Longrightarrow> unat len \<le> length buf \<Longrightarrow> \<exists>r. CHECK_CRC16 buf len = Some r"
  by (simp add: CHECK_CRC16_residue)

text \<open>
  C14: the frame check is right on what the sender builds and on damaged frames: bytes followed by
  their CRC, low byte first, are accepted, and after a burst error inside two neighbouring bytes,
  the CRC included, an accepted frame is rejected.
\<close>

theorem CHECK_CRC16_detects_burst:
  assumes "CHECK_CRC16 (p @ [a, b] @ s) len = Some True"
    and "unat len = length p + 2 + length s" and "(a', b') \<noteq> (a, b)"
    and "length bs + 2 < 2 ^ 32"
  shows "CHECK_CRC16 (p @ [a', b'] @ s) len = Some False \<and>
    CHECK_CRC16 (bs @ le16 (crc_spec bs)) (of_nat (length bs + 2)) = Some True"
proof
  obtain r where r: "CHECK_CRC16 (p @ [a', b'] @ s) len = Some r"
    using CHECK_CRC16_defined [of len "p @ [a', b'] @ s"] assms(2) by auto
  then show "CHECK_CRC16 (p @ [a', b'] @ s) len = Some False"
    using CHECK_CRC16_burst [OF assms(1) _ assms(2), of a' b'] assms(3) by (cases r) auto
qed (rule CHECK_CRC16_accepts [OF assms(4)])

lemma sample_frame: "CHECK_CRC16 ([0x10] @ [0x30, 0x0C] @ [0x64]) 4 = Some True"
  by (simp add: CHECK_CRC16_residue crc_spec_def crc_byte_spec [symmetric] crc_byte_def table_def)

theorem CHECK_CRC16_detects_burst_witness:
  "CHECK_CRC16 ([0x10] @ [0x31, 0x0D] @ [0x64]) 4 = Some False \<and>
   CHECK_CRC16 ([1, 2, 3] @ le16 (crc_spec [1, 2, 3])) (of_nat (length [1, 2, 3 :: u8] + 2)) =
     Some True"
  by (rule CHECK_CRC16_detects_burst [OF sample_frame]) simp_all

end
