(* ===== verification/Modbus_Frame.thy ===== *)
theory Modbus_Frame
  imports Registers_Manager Checksum
begin

text \<open>
  The frame a master message is sent as (\<open>i2c_modbus_s\<close> of \<open>drivers/peripheral/i2c/i2c.h\<close>): a
  packed structure whose first six bytes are the header on the wire, a pointer to the payload in
  the register banks, the CRC and the addressing fields that stay local.
\<close>

record i2c_modbus_s =
  code :: u8
  RegAddr :: i16
  nReg :: i16
  bytes :: u8
  ptrMessage :: reg_pointer
  crc :: u16
  addr :: u8
  size_head :: i16
  size_message :: i16

text \<open>
  The bytes of the structure up to the pointer. No message has a longer header; a header reaching
  into the pointer is not modelled and counts as undefined.
\<close>

definition message_head :: "i2c_modbus_s \<Rightarrow> u8 list" where
  "message_head m = [code m] @ le16 (RegAddr m) @ le16 (nReg m) @ [bytes m]"

lemma length_message_head [simp]: "length (message_head m) = 6"
  by (simp add: message_head_def)

text \<open>The payload bytes a pointer reaches: those of the banks from its offset on.\<close>

definition payload :: "reg_pointer \<Rightarrow> reg_state \<Rightarrow> u8 list" where
  "payload p r = (case p of NULL \<Rightarrow> [] | Reg_Vet off \<Rightarrow> drop off (reg_image r))"

definition message_default :: i2c_modbus_s where
  "message_default = \<lparr>code = 0, RegAddr = 0, nReg = 0, bytes = 0, ptrMessage = NULL, crc = 0,
     addr = 0, size_head = 0, size_message = 0\<rparr>"

end
