(* ===== verification/I2c.thy ===== *)
theory I2c
  imports Log_Lpc804 Modbus_Frame
begin

text \<open>
  \<open>drivers/peripheral/i2c/i2c.c\<close>: set-up, bounded polling of the status register, and the transfers
  of the slave and of the master. A status is the code's integer (-1 fail, 0 time-out, 1 ok). A
  transfer into a buffer returns the buffer; \<^term>\<open>None\<close> is an access outside a buffer, or, for the
  two loops that may not end, a run that never returns.
\<close>

section \<open>State and constants\<close>

record i2c = interrupt +
  I2C_mode :: u32

definition i2c_zero :: i2c where
  "i2c_zero = interrupt.extend int_zero \<lparr>I2C_mode = 0\<rparr>"

definition i2cStat_Fail :: int where "i2cStat_Fail = - 1"
definition i2cStat_TimeOut :: int where "i2cStat_TimeOut = 0"
definition i2cStat_OK :: int where "i2cStat_OK = 1"

definition i2cModeSlave :: u32 where "i2cModeSlave = 1"
definition i2cModeMaster :: u32 where "i2cModeMaster = 2"

definition loopWaitReceive :: nat where "loopWaitReceive = 20"
definition loopWaitSend :: nat where "loopWaitSend = 20"
definition PRIMARY_STATE_MASK :: u32 where "PRIMARY_STATE_MASK = 0xE"
definition I2C_STAT_MSTST_IDLE :: u32 where "I2C_STAT_MSTST_IDLE = 0"
definition I2C_STAT_MSTST_RXRDY :: u32 where "I2C_STAT_MSTST_RXRDY = 2"
definition I2C_STAT_MSTST_TXRDY :: u32 where "I2C_STAT_MSTST_TXRDY = 4"
definition MSTCTL_CONTINUE :: u32 where "MSTCTL_CONTINUE = 1"
definition MSTCTL_START :: u32 where "MSTCTL_START = 2"
definition MSTCTL_STOP :: u32 where "MSTCTL_STOP = 4"
definition CTL_SLVCONTINUE :: u32 where "CTL_SLVCONTINUE = 1"

section \<open>Set-up\<close>

text \<open>
  The search for the divider: \<open>n\<close> values of \<open>scl\<close> are left. The best values start unset and the first
  round sets them, because its \<open>best_err\<close> is zero. A zero product divides by zero.
\<close>

primrec baud_loop :: "nat \<Rightarrow> u32 \<Rightarrow> u32 \<Rightarrow> u32 \<Rightarrow> u32 \<times> u32 \<times> u32 \<Rightarrow> (u32 \<times> u32) option" where
  "baud_loop 0 scl baud src best = (case best of (div_, scl_, err_) \<Rightarrow> Some (div_, scl_))"
| "baud_loop (Suc n) scl baud src best = (
     let m = baud * scl * 2 in
     if m = 0 then None
     else let
       divider = src div m;
       divider = (if divider > 0x10000 then 0x10000 else divider);
       err = src - m * divider;
       best = (case best of (div_, scl_, err_) \<Rightarrow>
                 if err < err_ \<or> err_ = 0 then (divider, scl, err) else best)
     in if err = 0 \<or> 0x10000 \<le> divider
        then (case best of (div_, scl_, err_) \<Rightarrow> Some (div_, scl_))
        else baud_loop n (scl - 1) baud src best)"

definition I2C_PrimarySetBaudRate :: "u32 \<Rightarrow> u32 \<Rightarrow> 'a i2c_scheme \<Rightarrow> 'a i2c_scheme option" where
  "I2C_PrimarySetBaudRate baudRate_Bps srcClock_Hz s = do {
     (best_div, best_scl) \<leftarrow> baud_loop 8 9 baudRate_Bps srcClock_Hz (0, 0, 0);
     let s = hw_write I2C_CLKDIV ((best_div - 1) AND 0xFFFF) s;
     Some (hw_write I2C_MSTTIME
       (((best_scl - 2) AND 0x7) OR (push_bit 4 (best_scl - 2) AND 0x70)) s) }"

text \<open>The common start of the three set-up functions: pins, clocks, reset and clock source.\<close>

definition i2c_pins_and_clock :: "u8 \<Rightarrow> u8 \<Rightarrow> 'a i2c_scheme \<Rightarrow> 'a i2c_scheme" where
  "i2c_pins_and_clock sda scl s = (
     let s = disable_irq s;
         s = NVIC_DisableIRQ I2C0_IRQn s;
         s = hw_or SYSAHBCLKCTRL0 SWM_CLK_MASK s;
         s = hw_and PINASSIGN5 (NOT (PINASSIGN5_SCL_MASK OR PINASSIGN5_SDA_MASK)) s;
         s = hw_or PINASSIGN5 (push_bit 8 (ucast scl) OR push_bit 0 (ucast sda)) s;
         s = hw_and SYSAHBCLKCTRL0 (NOT SWM_CLK_MASK) s;
         s = hw_or SYSAHBCLKCTRL0 I2C0_CLK_MASK s;
         s = hw_and PRESETCTRL0 (NOT I2C0_RST_N_MASK) s;
         s = hw_or PRESETCTRL0 I2C0_RST_N_MASK s
     in hw_write I2C0CLKSEL 0 s)"

definition i2cBegin :: "u8 \<Rightarrow> u8 \<Rightarrow> u8 \<Rightarrow> u32 \<Rightarrow> u32 \<Rightarrow> 'a i2c_scheme \<Rightarrow> 'a i2c_scheme option" where
  "i2cBegin ad sda scl baudRate mode s = do {
     let s = i2c_pins_and_clock sda scl s;
     let s = (if mode AND 0b01 \<noteq> 0
              then hw_write I2C_SLVADR (push_bit 1 (ucast ad) OR 0) (hw_write I2C_CFG I2C_CFG_SLVEN_MASK s)
              else s);
     s \<leftarrow> (if mode AND 0b10 \<noteq> 0
          then I2C_PrimarySetBaudRate baudRate (SystemCoreClock s)
                 (hw_write I2C_CFG I2C_CFG_MSTEN_MASK s)
          else Some s);
     let s = s\<lparr>I2C_mode := mode\<rparr>;
     Some (enable_irq (NVIC_EnableIRQ I2C0_IRQn s)) }"

definition i2cBeginSlave :: "u8 \<Rightarrow> u8 \<Rightarrow> u8 \<Rightarrow> u32 \<Rightarrow> 'a i2c_scheme \<Rightarrow> 'a i2c_scheme" where
  "i2cBeginSlave ad sda scl baudRate s = (
     let s = i2c_pins_and_clock sda scl s;
         s = hw_write I2C_CFG I2C_CFG_SLVEN_MASK s;
         s = hw_write I2C_SLVADR (push_bit 1 (ucast ad) OR 0) s;
         s = s\<lparr>I2C_mode := i2cModeSlave\<rparr>
     in enable_irq (NVIC_EnableIRQ I2C0_IRQn s))"

definition i2cBeginMaster :: "u8 \<Rightarrow> u8 \<Rightarrow> u32 \<Rightarrow> 'a i2c_scheme \<Rightarrow> 'a i2c_scheme option" where
  "i2cBeginMaster sda scl baudRate s = do {
     let s = i2c_pins_and_clock sda scl s;
     let s = hw_write I2C_CFG I2C_CFG_MSTEN_MASK s;
     s \<leftarrow> I2C_PrimarySetBaudRate baudRate (SystemCoreClock s) s;
     Some (enable_irq (s\<lparr>I2C_mode := i2cModeMaster\<rparr>)) }"

section \<open>Polling\<close>

text \<open>Reads of a register until its value is accepted, at most \<open>n + 1\<close> of them.\<close>

primrec poll :: "hwreg \<Rightarrow> (u32 \<Rightarrow> bool) \<Rightarrow> nat \<Rightarrow> 'a hw_scheme \<Rightarrow> bool \<times> 'a hw_scheme" where
  "poll r ok 0 s = (case hw_read r s of (v, s) \<Rightarrow> (ok v, s))"
| "poll r ok (Suc n) s = (case hw_read r s of (v, s) \<Rightarrow>
     if ok v then (True, s) else poll r ok n s)"

text \<open>\<open>while (...) { if (i > N) return; i++; }\<close> reads once more than \<open>N + 1\<close> times.\<close>

definition WaitI2cSlaveState :: "'a i2c_scheme \<Rightarrow> int \<times> 'a i2c_scheme" where
  "WaitI2cSlaveState s =
     (case poll I2C_STAT (\<lambda>v. v AND I2C_STAT_SLVPENDING_MASK \<noteq> 0) (loopWaitSend + 1) s of
        (ok, s) \<Rightarrow> (if ok then i2cStat_OK else i2cStat_TimeOut, s))"

definition i2c_abort :: "'a i2c_scheme \<Rightarrow> 'a i2c_scheme" where
  "i2c_abort s = hw_write I2C_MSTCTL MSTCTL_STOP (hw_write I2C_MSTDAT 0 s)"

definition WaitI2cMasterState :: "u32 \<Rightarrow> 'a i2c_scheme \<Rightarrow> int \<times> 'a i2c_scheme" where
  "WaitI2cMasterState state s =
     (case poll I2C_STAT (\<lambda>v. v AND I2C_STAT_MSTPENDING_MASK \<noteq> 0) (loopWaitReceive + 1) s of
        (False, s) \<Rightarrow> (i2cStat_TimeOut, i2c_abort s)
      | (True, s) \<Rightarrow>
          (case poll I2C_STAT (\<lambda>v. v AND PRIMARY_STATE_MASK = state) loopWaitReceive s of
             (False, s) \<Rightarrow> (i2cStat_TimeOut, i2c_abort s)
           | (True, s) \<Rightarrow> (i2cStat_OK, s)))"

definition WaitI2cMasterRXRDY :: "'a i2c_scheme \<Rightarrow> int \<times> 'a i2c_scheme" where
  "WaitI2cMasterRXRDY s =
     (case poll I2C_STAT (\<lambda>v. v AND PRIMARY_STATE_MASK = I2C_STAT_MSTST_RXRDY) (loopWaitReceive + 1) s of
        (True, s) \<Rightarrow> (i2cStat_OK, s)
      | (False, s) \<Rightarrow>
          (case WaitI2cMasterState I2C_STAT_MSTST_IDLE (hw_write I2C_MSTCTL MSTCTL_STOP s) of
             (st, s) \<Rightarrow> (i2cStat_TimeOut, s)))"

section \<open>The slave\<close>

primrec i2cRead_slave_loop ::
  "nat \<Rightarrow> nat \<Rightarrow> u8 list \<Rightarrow> 'a i2c_scheme \<Rightarrow> (int \<times> u8 list \<times> 'a i2c_scheme) option" where
  "i2cRead_slave_loop 0 i buffer s = Some (0, buffer, s)"
| "i2cRead_slave_loop (Suc n) i buffer s =
     (case WaitI2cSlaveState s of (st, s) \<Rightarrow>
        if st = i2cStat_TimeOut then Some (int i, buffer, s)
        else case hw_read I2C_SLVDAT s of (v, s) \<Rightarrow> do {
          buffer \<leftarrow> arr_set buffer i (ucast v);
          i2cRead_slave_loop n (Suc i) buffer (hw_write I2C_SLVCTL CTL_SLVCONTINUE s) })"

definition i2cRead_slave ::
  "u8 list \<Rightarrow> 'a i2c_scheme \<Rightarrow> (int \<times> u8 list \<times> 'a i2c_scheme) option" where
  "i2cRead_slave buffer s =
     (case WaitI2cSlaveState s of (st, s) \<Rightarrow>
        if st = i2cStat_TimeOut then Some (0, buffer, s)
        else i2cRead_slave_loop 255 0 buffer (hw_write I2C_SLVCTL CTL_SLVCONTINUE s))"

text \<open>
  The timed wait. The start time is kept in 32 bits and subtracted from the 64-bit clock; \<open>idle\<close> is
  what interrupts do between two polls.
\<close>

partial_function (option) slave_timed_wait ::
  "('a i2c_scheme \<Rightarrow> 'a i2c_scheme option) \<Rightarrow> u32 \<Rightarrow> 'a i2c_scheme \<Rightarrow> (bool \<times> 'a i2c_scheme) option"
where
  "slave_timed_wait idle timeAux s =
     (case hw_read I2C_STAT s of (v, s) \<Rightarrow>
        if v AND I2C_STAT_SLVPENDING_MASK \<noteq> 0 then Some (True, s)
        else if 1000 < SysTickGetTime_us s - ucast timeAux then Some (False, s)
        else do { s \<leftarrow> idle s; slave_timed_wait idle timeAux s })"

primrec i2cSend_slave_loop :: "u8 list \<Rightarrow> 'a i2c_scheme \<Rightarrow> int \<times> 'a i2c_scheme" where
  "i2cSend_slave_loop [] s = (i2cStat_OK, s)"
| "i2cSend_slave_loop (b # bs) s =
     (case WaitI2cSlaveState s of (st, s) \<Rightarrow>
        if st = i2cStat_TimeOut then (i2cStat_TimeOut, s)
        else i2cSend_slave_loop bs
               (hw_write I2C_SLVCTL CTL_SLVCONTINUE (hw_write I2C_SLVDAT (ucast b) s)))"

definition i2cSend_slave ::
  "('a i2c_scheme \<Rightarrow> 'a i2c_scheme option) \<Rightarrow> u8 list \<Rightarrow> i32 \<Rightarrow> 'a i2c_scheme \<Rightarrow>
   (int \<times> 'a i2c_scheme) option" where
  "i2cSend_slave idle buffer len s =
     (if len = 0 then Some (i2cStat_Fail, s)
      else do {
        crc \<leftarrow> MODBUS_CRC16 buffer len;
        let data = take (unat len) buffer @ le16 crc;
        let timeAux = (ucast (SysTickGetTime_us s) :: u32);
        (ok, s) \<leftarrow> slave_timed_wait idle timeAux s;
        Some (if \<not> ok then (i2cStat_TimeOut, s)
              else i2cSend_slave_loop data (hw_write I2C_SLVCTL CTL_SLVCONTINUE s)) })"

section \<open>The master\<close>

definition i2c_address :: "u8 \<Rightarrow> u32 \<Rightarrow> u32" where
  "i2c_address ad rw = push_bit 1 (ucast ad) OR rw"

text \<open>
  The reading loop counts in an \<open>unsigned char\<close>: for a length above 255 the counter wraps and the
  loop ends only when the device stops being ready.
\<close>

partial_function (option) i2cReadLenght_loop ::
  "u8 \<Rightarrow> u8 list \<Rightarrow> i32 \<Rightarrow> 'a i2c_scheme \<Rightarrow> (int \<times> u8 list \<times> 'a i2c_scheme) option" where
  "i2cReadLenght_loop i buffer len s =
     (if int (unat i) < sint len
      then (case WaitI2cMasterRXRDY s of (st, s) \<Rightarrow>
        if st \<noteq> i2cStat_OK then Some (st, buffer, s)
        else case hw_read I2C_MSTDAT s of (v, s) \<Rightarrow> do {
          buffer \<leftarrow> arr_set buffer (unat i) (ucast v);
          i2cReadLenght_loop (i + 1) buffer len (hw_write I2C_MSTCTL MSTCTL_CONTINUE s) })
      else Some (i2cStat_OK, buffer, s))"

definition i2cReadLenght_master ::
  "u8 \<Rightarrow> u8 list \<Rightarrow> i32 \<Rightarrow> 'a i2c_scheme \<Rightarrow> (int \<times> u8 list \<times> 'a i2c_scheme) option" where
  "i2cReadLenght_master ad buffer len s =
     (case WaitI2cMasterState I2C_STAT_MSTST_IDLE s of (st, s) \<Rightarrow>
        if st \<noteq> i2cStat_OK then Some (st, buffer, s)
        else let
          s = hw_write I2C_MSTDAT (i2c_address ad 1) s;
          s = hw_write I2C_MSTCTL MSTCTL_START s
        in case poll I2C_STAT (\<lambda>v. v AND I2C_STAT_MSTPENDING_MASK \<noteq> 0) (100 * loopWaitReceive + 1) s of
          (False, s) \<Rightarrow> Some (i2cStat_TimeOut, buffer, i2c_abort s)
        | (True, s) \<Rightarrow> do {
            (st, buffer, s) \<leftarrow> i2cReadLenght_loop 0 buffer len s;
            if st \<noteq> i2cStat_OK then Some (st, buffer, s)
            else let
              s = snd (WaitI2cMasterRXRDY s);
              s = i2c_abort s;
              s = snd (WaitI2cMasterState I2C_STAT_MSTST_IDLE s)
            in Some (i2cStat_OK, buffer, s) })"

text \<open>511 bytes are read, into a buffer or only to empty the device.\<close>

primrec i2cRead_master_loop ::
  "nat \<Rightarrow> nat \<Rightarrow> u8 list \<Rightarrow> 'a i2c_scheme \<Rightarrow> (int \<times> u8 list \<times> 'a i2c_scheme) option" where
  "i2cRead_master_loop 0 i buffer s = Some (i2cStat_OK, buffer, s)"
| "i2cRead_master_loop (Suc n) i buffer s =
     (case WaitI2cMasterState I2C_STAT_MSTST_RXRDY s of (st, s) \<Rightarrow>
        if st \<noteq> i2cStat_OK then Some (st, buffer, s)
        else case hw_read I2C_MSTDAT s of (v, s) \<Rightarrow> do {
          buffer \<leftarrow> arr_set buffer i (ucast v);
          i2cRead_master_loop n (Suc i) buffer (hw_write I2C_MSTCTL MSTCTL_CONTINUE s) })"

definition i2cRead_master ::
  "u8 \<Rightarrow> u8 list \<Rightarrow> 'a i2c_scheme \<Rightarrow> (int \<times> u8 list \<times> 'a i2c_scheme) option" where
  "i2cRead_master ad buffer s =
     (case WaitI2cMasterState I2C_STAT_MSTST_IDLE s of (st, s) \<Rightarrow>
        if st \<noteq> i2cStat_OK then Some (st, buffer, s)
        else let
          s = hw_write I2C_MSTDAT (i2c_address ad 1) s;
          s = hw_write I2C_MSTCTL MSTCTL_START s
        in do {
          (st, buffer, s) \<leftarrow> i2cRead_master_loop 0x1FF 0 buffer s;
          if st \<noteq> i2cStat_OK then Some (st, buffer, s)
          else let
            s = hw_write I2C_MSTCTL MSTCTL_STOP s;
            s = snd (WaitI2cMasterState I2C_STAT_MSTST_IDLE s)
          in Some (i2cStat_OK, buffer, s) })"

primrec i2cClear_loop :: "nat \<Rightarrow> 'a i2c_scheme \<Rightarrow> int \<times> 'a i2c_scheme" where
  "i2cClear_loop 0 s = (i2cStat_OK, s)"
| "i2cClear_loop (Suc n) s =
     (case WaitI2cMasterState I2C_STAT_MSTST_RXRDY s of (st, s) \<Rightarrow>
        if st \<noteq> i2cStat_OK then (st, s)
        else case hw_read I2C_MSTDAT s of (v, s) \<Rightarrow>
          i2cClear_loop n (hw_write I2C_MSTCTL MSTCTL_CONTINUE s))"

definition i2cReadClearBuffer_master :: "u8 \<Rightarrow> 'a i2c_scheme \<Rightarrow> int \<times> 'a i2c_scheme" where
  "i2cReadClearBuffer_master ad s =
     (case WaitI2cMasterState I2C_STAT_MSTST_IDLE s of (st, s) \<Rightarrow>
        if st \<noteq> i2cStat_OK then (st, s)
        else let
          s = hw_write I2C_MSTDAT (i2c_address ad 1) s;
          s = hw_write I2C_MSTCTL MSTCTL_START s
        in case i2cClear_loop 0x1FF s of (st, s) \<Rightarrow>
          if st \<noteq> i2cStat_OK then (st, s)
          else let
            s = hw_write I2C_MSTCTL MSTCTL_STOP s;
            s = snd (WaitI2cMasterState I2C_STAT_MSTST_IDLE s)
          in (i2cStat_OK, s))"

text \<open>The loops of the senders: \<open>n\<close> bytes of a buffer from index \<open>i\<close> on.\<close>

primrec i2cSend_loop ::
  "nat \<Rightarrow> nat \<Rightarrow> u8 list \<Rightarrow> 'a i2c_scheme \<Rightarrow> (int \<times> 'a i2c_scheme) option" where
  "i2cSend_loop 0 i bs s = Some (i2cStat_OK, s)"
| "i2cSend_loop (Suc n) i bs s =
     (case WaitI2cMasterState I2C_STAT_MSTST_TXRDY s of (st, s) \<Rightarrow>
        if st \<noteq> i2cStat_OK then Some (st, s)
        else do {
          b \<leftarrow> arr_get bs i;
          i2cSend_loop n (Suc i) bs
            (hw_write I2C_MSTCTL MSTCTL_CONTINUE (hw_write I2C_MSTDAT (ucast b) s)) })"

definition i2cSend_end :: "'a i2c_scheme \<Rightarrow> 'a i2c_scheme" where
  "i2cSend_end s = (
     let s = snd (WaitI2cMasterState I2C_STAT_MSTST_TXRDY s);
         s = i2c_abort s
     in snd (WaitI2cMasterState I2C_STAT_MSTST_IDLE s))"

definition i2cSend_master ::
  "u8 \<Rightarrow> u8 list \<Rightarrow> i32 \<Rightarrow> 'a i2c_scheme \<Rightarrow> (int \<times> 'a i2c_scheme) option" where
  "i2cSend_master ad msg len s =
     (case WaitI2cMasterState I2C_STAT_MSTST_IDLE s of (st, s) \<Rightarrow>
        if st \<noteq> i2cStat_OK then Some (st, s)
        else let
          s = hw_write I2C_MSTDAT (i2c_address ad 0) s;
          s = hw_write I2C_MSTCTL MSTCTL_START s
        in case WaitI2cMasterState I2C_STAT_MSTST_TXRDY s of (st, s) \<Rightarrow>
          if st \<noteq> i2cStat_OK then Some (st, s)
          else do {
            (st, s) \<leftarrow> i2cSend_loop (nat (sint len)) 0 msg s;
            if st \<noteq> i2cStat_OK then Some (st, s) else Some (i2cStat_OK, i2cSend_end s) })"

text \<open>
  A Modbus message: the CRC is stored in the message, then header, payload and CRC are sent. The
  payload is read from the register banks \<open>r\<close>.
\<close>

definition i2cSend_master_modbus ::
  "i2c_modbus_s \<Rightarrow> reg_state \<Rightarrow> 'a i2c_scheme \<Rightarrow> (int \<times> i2c_modbus_s \<times> 'a i2c_scheme) option" where
  "i2cSend_master_modbus m r s =
     (case WaitI2cMasterState I2C_STAT_MSTST_IDLE s of (st, s) \<Rightarrow>
        if st \<noteq> i2cStat_OK then Some (st, m, s)
        else do {
          c \<leftarrow> MODBUS_STRUCT_CRC16 (message_head m) (scast (size_head m))
                 (payload (ptrMessage m) r) (scast (size_message m));
          let m = m\<lparr>crc := c\<rparr>;
          let s = hw_write I2C_MSTDAT (i2c_address (addr m) 0) s;
          let s = hw_write I2C_MSTCTL MSTCTL_START s;
          case WaitI2cMasterState I2C_STAT_MSTST_TXRDY s of (st, s) \<Rightarrow>
            if st \<noteq> i2cStat_OK then Some (st, m, s)
            else do {
              (st, s) \<leftarrow> i2cSend_loop (nat (sint (size_head m))) 0 (message_head m) s;
              if st \<noteq> i2cStat_OK then Some (st, m, s)
              else do {
                (st, s) \<leftarrow> i2cSend_loop (nat (sint (size_message m))) 0 (payload (ptrMessage m) r) s;
                if st \<noteq> i2cStat_OK then Some (st, m, s)
                else do {
                  (st, s) \<leftarrow> i2cSend_loop 2 0 (le16 (crc m)) s;
                  if st \<noteq> i2cStat_OK then Some (st, m, s)
                  else Some (i2cStat_OK, m, i2cSend_end s) } } } })"

section \<open>What goes over the bus\<close>

text \<open>The values written to the master's data register, and those read from it, oldest first.\<close>

definition mst_sent :: "'a hw_scheme \<Rightarrow> u32 list" where
  "mst_sent s = map snd (filter (\<lambda>(r, v). r = I2C_MSTDAT) (writes_of (trace s)))"

fun reads_of :: "access list \<Rightarrow> (hwreg \<times> u32) list" where
  "reads_of [] = []"
| "reads_of (Rd r v # t) = reads_of t @ [(r, v)]"
| "reads_of (Wr r v # t) = reads_of t"

definition mst_received :: "'a hw_scheme \<Rightarrow> u32 list" where
  "mst_received s = map snd (filter (\<lambda>(r, v). r = I2C_MSTDAT) (reads_of (trace s)))"

lemma bus_hw_write [simp]:
  "mst_sent (hw_write r v s) = (if r = I2C_MSTDAT then mst_sent s @ [v] else mst_sent s)"
  "mst_received (hw_write r v s) = mst_received s"
  by (simp_all add: mst_sent_def mst_received_def hw_write_def)

lemma hw_read_bus:
  "hw_read r s = (v, s') \<Longrightarrow> mst_sent s' = mst_sent s \<and>
     mst_received s' = mst_received s @ (if r = I2C_MSTDAT then [v] else []) \<and> env s' = env s"
  by (auto simp: hw_read_def Let_def mst_sent_def mst_received_def)

lemma poll_bus:
  "poll r ok n s = (b, s') \<Longrightarrow> r \<noteq> I2C_MSTDAT \<Longrightarrow>
   mst_sent s' = mst_sent s \<and> mst_received s' = mst_received s \<and> env s' = env s"
proof (induction n arbitrary: s)
  case 0
  then show ?case using hw_read_bus [of r s] by (auto split: prod.splits)
next
  case (Suc n)
  then show ?case using hw_read_bus [of r s] by (auto split: prod.splits if_splits)
qed

lemma abort_bus [simp]:
  "mst_sent (i2c_abort s) = mst_sent s @ [0]" "mst_received (i2c_abort s) = mst_received s"
  "env (i2c_abort s) = env s"
  by (simp_all add: i2c_abort_def)

lemma WaitMaster_bus:
  assumes "WaitI2cMasterState state s = (st, s')"
  shows "mst_received s' = mst_received s \<and> env s' = env s \<and>
    (st = i2cStat_OK \<and> mst_sent s' = mst_sent s \<or>
     st = i2cStat_TimeOut \<and> mst_sent s' = mst_sent s @ [0])"
proof -
  obtain b1 s1 where p1: "poll I2C_STAT (\<lambda>v. v AND I2C_STAT_MSTPENDING_MASK \<noteq> 0) (loopWaitReceive + 1) s = (b1, s1)"
    by fastforce
  obtain b2 s2 where p2: "poll I2C_STAT (\<lambda>v. v AND PRIMARY_STATE_MASK = state) loopWaitReceive s1 = (b2, s2)"
    by fastforce
  have "(st, s') = (if \<not> b1 then (i2cStat_TimeOut, i2c_abort s1)
      else if \<not> b2 then (i2cStat_TimeOut, i2c_abort s2) else (i2cStat_OK, s2))"
    using assms unfolding WaitI2cMasterState_def p1 prod.case by (cases b1; cases b2) (simp_all add: p2)
  then show ?thesis using poll_bus [OF p1] poll_bus [OF p2] by (auto split: if_splits)
qed

lemma status_distinct [simp]:
  "i2cStat_TimeOut \<noteq> i2cStat_OK" "i2cStat_OK \<noteq> i2cStat_TimeOut" "i2cStat_Fail \<noteq> i2cStat_OK"
  by (simp_all add: i2cStat_TimeOut_def i2cStat_OK_def i2cStat_Fail_def)

lemma i2cSend_loop_total:
  "i + n \<le> length bs \<Longrightarrow> \<exists>st s'. i2cSend_loop n i bs s = Some (st, s') \<and>
    mst_received s' = mst_received s \<and> env s' = env s \<and>
    (st = i2cStat_OK \<and> mst_sent s' = mst_sent s @ map ucast (take n (drop i bs)) \<or>
     st = i2cStat_TimeOut \<and> (\<exists>k<n. mst_sent s' = mst_sent s @ map ucast (take k (drop i bs)) @ [0]))"
proof (induction n arbitrary: i s)
  case 0
  then show ?case by simp
next
  case (Suc n)
  obtain st s1 where w: "WaitI2cMasterState I2C_STAT_MSTST_TXRDY s = (st, s1)" by fastforce
  note b = WaitMaster_bus [OF w]
  show ?case
  proof (cases "st = i2cStat_OK")
    case False
    then have "i2cSend_loop (Suc n) i bs s = Some (st, s1)" using w by simp
    moreover have "st = i2cStat_TimeOut" "mst_sent s1 = mst_sent s @ [0]" using b False by auto
    ultimately show ?thesis using b
      by (intro exI [of _ st] exI [of _ s1]) (auto simp del: i2cSend_loop.simps intro!: exI [of _ 0])
  next
    case True
    define s2 where "s2 = hw_write I2C_MSTCTL MSTCTL_CONTINUE (hw_write I2C_MSTDAT (ucast (bs ! i)) s1)"
    have i: "i < length bs" using Suc.prems by simp
    have step: "i2cSend_loop (Suc n) i bs s = i2cSend_loop n (Suc i) bs s2"
      using w True i by (simp add: s2_def)
    have s2: "mst_sent s2 = mst_sent s @ [ucast (bs ! i)]" "mst_received s2 = mst_received s" "env s2 = env s"
      using b True by (simp_all add: s2_def)
    have tk: "take (Suc k) (drop i bs) = bs ! i # take k (drop (Suc i) bs)" for k
      using i by (simp add: Cons_nth_drop_Suc [symmetric])
    from Suc.IH [of "Suc i" s2] Suc.prems obtain st' s' where
      r: "i2cSend_loop n (Suc i) bs s2 = Some (st', s')" "mst_received s' = mst_received s2" "env s' = env s2"
        "st' = i2cStat_OK \<and> mst_sent s' = mst_sent s2 @ map ucast (take n (drop (Suc i) bs)) \<or>
         st' = i2cStat_TimeOut \<and> (\<exists>k<n. mst_sent s' = mst_sent s2 @ map ucast (take k (drop (Suc i) bs)) @ [0])"
      by auto
    have "st' = i2cStat_OK \<and> mst_sent s' = mst_sent s @ map ucast (take (Suc n) (drop i bs)) \<or>
         st' = i2cStat_TimeOut \<and> (\<exists>k<Suc n. mst_sent s' = mst_sent s @ map ucast (take k (drop i bs)) @ [0])"
      using r(4)
    proof (elim disjE conjE exE)
      fix k assume "st' = i2cStat_TimeOut" "k < n"
        "mst_sent s' = mst_sent s2 @ map ucast (take k (drop (Suc i) bs)) @ [0]"
      then show ?thesis by (intro disjI2 conjI exI [of _ "Suc k"]) (simp_all add: s2 tk)
    qed (simp add: s2 tk)
    then show ?thesis using r(1-3) s2 step by auto
  qed
qed

lemma i2cSend_end_bus:
  "\<exists>k\<in>{1, 2, 3}. mst_sent (i2cSend_end s) = mst_sent s @ replicate k 0"
proof -
  obtain st1 s1 where w1: "WaitI2cMasterState I2C_STAT_MSTST_TXRDY s = (st1, s1)" by fastforce
  obtain st2 s2 where w2: "WaitI2cMasterState I2C_STAT_MSTST_IDLE (i2c_abort s1) = (st2, s2)" by fastforce
  have "i2cSend_end s = s2" using w1 w2 by (simp add: i2cSend_end_def)
  then show ?thesis
    using WaitMaster_bus [OF w1] WaitMaster_bus [OF w2] by (auto simp: numeral_eq_Suc)
qed

text \<open>The bytes of a message on the wire after its address: header, payload and their CRC.\<close>

definition modbus_frame :: "i2c_modbus_s \<Rightarrow> reg_state \<Rightarrow> u8 list" where
  "modbus_frame m r = (
     let body = take (nat (sint (size_head m))) (message_head m) @
                take (nat (sint (size_message m))) (payload (ptrMessage m) r)
     in body @ le16 (crc_spec body))"

lemma unat_scast_nonneg: "0 \<le> sint w \<Longrightarrow> unat (scast (w :: i16) :: u32) = nat (sint w)"
proof -
  assume w: "0 \<le> sint w"
  have "sint w < 2 ^ 15" using sint_less [of w] by simp
  then have "take_bit 32 (sint w) = sint w"
    using w by (intro take_bit_int_eq_self) simp_all
  then have "uint (scast w :: u32) = sint w"
    by (simp only: scast_eq uint_word_of_int_eq) simp
  then show ?thesis by (metis nat_uint_eq)
qed

lemma message_head_crc [simp]: "message_head (m\<lparr>crc := c\<rparr>) = message_head m"
  by (simp add: message_head_def)

lemma i2cSend_master_modbus_OK:
  assumes fits: "0 \<le> sint (size_head m)" "sint (size_head m) \<le> 6" "0 \<le> sint (size_message m)"
    "nat (sint (size_message m)) \<le> length (payload (ptrMessage m) r)"
  shows "\<exists>st m' s'. i2cSend_master_modbus m r s = Some (st, m', s') \<and>
    (st = i2cStat_OK \<or> st = i2cStat_TimeOut) \<and> (m' = m \<or> (\<exists>c. m' = m\<lparr>crc := c\<rparr>)) \<and>
    (st = i2cStat_OK \<longrightarrow> (\<exists>k\<in>{1, 2, 3}. mst_sent s' = mst_sent s @ i2c_address (addr m) 0 #
       map ucast (modbus_frame m r) @ replicate k 0))"
proof -
  define h p where "h = nat (sint (size_head m))" and "p = nat (sint (size_message m))"
  have h6: "0 + h \<le> length (message_head m)" using fits by (simp add: h_def message_head_def)
  have pl: "0 + p \<le> length (payload (ptrMessage m) r)" using fits by (simp add: p_def)
  define body where "body = take h (message_head m) @ take p (payload (ptrMessage m) r)"
  have crc: "MODBUS_STRUCT_CRC16 (message_head m) (scast (size_head m)) (payload (ptrMessage m) r)
      (scast (size_message m)) = Some (crc_spec body)"
    using fits by (simp add: MODBUS_STRUCT_CRC16_eq unat_scast_nonneg body_def h_def p_def)
  obtain st0 s0 where w0: "WaitI2cMasterState I2C_STAT_MSTST_IDLE s = (st0, s0)" by fastforce
  define m' where "m' = m\<lparr>crc := crc_spec body\<rparr>"
  define s1 where "s1 = hw_write I2C_MSTCTL MSTCTL_START (hw_write I2C_MSTDAT (i2c_address (addr m) 0) s0)"
  obtain st2 s2 where w2: "WaitI2cMasterState I2C_STAT_MSTST_TXRDY s1 = (st2, s2)" by fastforce
  obtain st3 s3 where l3: "i2cSend_loop h 0 (message_head m) s2 = Some (st3, s3)"
    and b3: "st3 = i2cStat_OK \<and> mst_sent s3 = mst_sent s2 @ map ucast (take h (message_head m)) \<or>
      st3 = i2cStat_TimeOut"
    using i2cSend_loop_total [of 0 h "message_head m" s2] h6 by auto
  obtain st4 s4 where l4: "i2cSend_loop p 0 (payload (ptrMessage m) r) s3 = Some (st4, s4)"
    and b4: "st4 = i2cStat_OK \<and> mst_sent s4 = mst_sent s3 @ map ucast (take p (payload (ptrMessage m) r)) \<or>
      st4 = i2cStat_TimeOut"
    using i2cSend_loop_total [of 0 p "payload (ptrMessage m) r" s3] pl by auto
  obtain st5 s5 where l5: "i2cSend_loop 2 0 (le16 (crc_spec body)) s4 = Some (st5, s5)"
    and b5: "st5 = i2cStat_OK \<and> mst_sent s5 = mst_sent s4 @ map ucast (le16 (crc_spec body)) \<or>
      st5 = i2cStat_TimeOut"
    using i2cSend_loop_total [of 0 2 "le16 (crc_spec body)" s4] by (auto simp: le16_def)
  obtain k where k: "k \<in> {1, 2, 3}" "mst_sent (i2cSend_end s5) = mst_sent s5 @ replicate k 0"
    using i2cSend_end_bus by blast
  have run: "i2cSend_master_modbus m r s = Some (
      if st0 \<noteq> i2cStat_OK then (st0, m, s0) else if st2 \<noteq> i2cStat_OK then (st2, m', s2)
      else if st3 \<noteq> i2cStat_OK then (st3, m', s3) else if st4 \<noteq> i2cStat_OK then (st4, m', s4)
      else if st5 \<noteq> i2cStat_OK then (st5, m', s5) else (i2cStat_OK, m', i2cSend_end s5))"
    using w0 w2 [unfolded s1_def] l3 l4 l5 crc
    by (simp add: i2cSend_master_modbus_def h_def [symmetric] p_def [symmetric] m'_def Let_def)
  have frame: "modbus_frame m r = body @ le16 (crc_spec body)"
    by (simp add: modbus_frame_def body_def h_def p_def Let_def)
  show ?thesis
    using run WaitMaster_bus [OF w0] WaitMaster_bus [OF w2] b3 b4 b5 k
    by (auto simp: frame body_def m'_def s1_def)
qed



section \<open>What the transfers leave alone\<close>

text \<open>A transfer of the master only touches the trace: the rest of the state, clock included, is as it was.\<close>

definition bus_only :: "'a hw_scheme \<Rightarrow> 'a hw_scheme \<Rightarrow> bool" where
  "bus_only s s' \<longleftrightarrow> hw.more s' = hw.more s \<and> env s' = env s \<and> irq_on s' = irq_on s \<and>
     SystemCoreClock s' = SystemCoreClock s"

lemma bus_only_refl [simp]: "bus_only s s"
  by (simp add: bus_only_def)

lemma bus_only_trans: "bus_only s t \<Longrightarrow> bus_only t u \<Longrightarrow> bus_only s u"
  by (simp add: bus_only_def)

lemma bus_only_write [simp]: "bus_only s (hw_write r v t) = bus_only s t"
  by (simp add: bus_only_def hw_write_def)

lemma bus_only_read: "hw_read r s = (v, s') \<Longrightarrow> bus_only s s'"
  by (auto simp: bus_only_def hw_read_def Let_def)

lemma bus_only_abort [simp]: "bus_only s (i2c_abort t) = bus_only s t"
  by (simp add: i2c_abort_def)

lemma poll_only: "poll r ok n s = (b, s') \<Longrightarrow> bus_only s s'"
proof (induction n arbitrary: s)
  case 0
  then show ?case by (auto split: prod.splits dest: bus_only_read)
next
  case (Suc n)
  then show ?case by (auto split: prod.splits if_splits dest: bus_only_read intro: bus_only_trans)
qed

lemma WaitMaster_only:
  assumes "WaitI2cMasterState state s = (st, s')"
  shows "bus_only s s'"
proof -
  obtain b1 s1 where p1: "poll I2C_STAT (\<lambda>v. v AND I2C_STAT_MSTPENDING_MASK \<noteq> 0) (loopWaitReceive + 1) s = (b1, s1)"
    by fastforce
  obtain b2 s2 where p2: "poll I2C_STAT (\<lambda>v. v AND PRIMARY_STATE_MASK = state) loopWaitReceive s1 = (b2, s2)"
    by fastforce
  have "(st, s') = (if \<not> b1 then (i2cStat_TimeOut, i2c_abort s1)
      else if \<not> b2 then (i2cStat_TimeOut, i2c_abort s2) else (i2cStat_OK, s2))"
    using assms unfolding WaitI2cMasterState_def p1 prod.case by (cases b1; cases b2) (simp_all add: p2)
  then show ?thesis using poll_only [OF p1] poll_only [OF p2] by (auto split: if_splits intro: bus_only_trans)
qed

lemma WaitMaster_only_snd: "bus_only s (snd (WaitI2cMasterState state s))"
  by (cases "WaitI2cMasterState state s") (simp add: WaitMaster_only)

lemma WaitRXRDY_only: "bus_only s (snd (WaitI2cMasterRXRDY s))"
proof (cases "poll I2C_STAT (\<lambda>v. v AND PRIMARY_STATE_MASK = I2C_STAT_MSTST_RXRDY) (loopWaitReceive + 1) s")
  case (Pair b t)
  note t = poll_only [OF Pair]
  have "bus_only s (snd (WaitI2cMasterState I2C_STAT_MSTST_IDLE (hw_write I2C_MSTCTL MSTCTL_STOP t)))"
    using bus_only_trans [of s _ _, OF _ WaitMaster_only_snd] t by simp
  then show ?thesis
    using t unfolding WaitI2cMasterRXRDY_def Pair prod.case by (cases b) (auto split: prod.splits)
qed

lemma i2cSend_loop_only: "i2cSend_loop n i bs s = Some (st, s') \<Longrightarrow> bus_only s s'"
proof (induction n arbitrary: i s)
  case (Suc n)
  obtain st1 s1 where w: "WaitI2cMasterState I2C_STAT_MSTST_TXRDY s = (st1, s1)" by fastforce
  note o1 = WaitMaster_only [OF w]
  show ?case
  proof (cases "st1 = i2cStat_OK")
    case False
    then show ?thesis using Suc.prems w o1 by simp
  next
    case True
    then obtain b :: u8 where
      "i2cSend_loop n (Suc i) bs (hw_write I2C_MSTCTL MSTCTL_CONTINUE (hw_write I2C_MSTDAT (ucast b) s1)) = Some (st, s')"
      using Suc.prems w by (auto simp: Option.bind_eq_Some_conv)
    from Suc.IH [OF this] show ?thesis using o1 by (auto intro: bus_only_trans simp: bus_only_def hw_write_def)
  qed
qed simp

lemma i2cSend_end_only: "bus_only s (i2cSend_end s)"
proof -
  have "bus_only s (i2c_abort (snd (WaitI2cMasterState I2C_STAT_MSTST_TXRDY s)))"
    using WaitMaster_only_snd by simp
  then show ?thesis unfolding i2cSend_end_def Let_def by (rule bus_only_trans [OF _ WaitMaster_only_snd])
qed

lemma bus_only_start:
  "bus_only s t \<Longrightarrow> bus_only s (hw_write I2C_MSTCTL MSTCTL_START (hw_write I2C_MSTDAT v t))"
  by simp

text \<open>Sending a buffer that holds the length asked for always returns, and touches nothing but the bus.\<close>

lemma i2cSend_master_total:
  assumes "nat (sint len) \<le> length msg"
  shows "\<exists>st s'. i2cSend_master ad msg len s = Some (st, s') \<and> bus_only s s'"
proof -
  obtain st0 s0 where w0: "WaitI2cMasterState I2C_STAT_MSTST_IDLE s = (st0, s0)" by fastforce
  define s1 where "s1 = hw_write I2C_MSTCTL MSTCTL_START (hw_write I2C_MSTDAT (i2c_address ad 0) s0)"
  obtain st2 s2 where w2: "WaitI2cMasterState I2C_STAT_MSTST_TXRDY s1 = (st2, s2)" by fastforce
  obtain st3 s3 where l3: "i2cSend_loop (nat (sint len)) 0 msg s2 = Some (st3, s3)"
    using i2cSend_loop_total [of 0 "nat (sint len)" msg s2] assms by auto
  have run: "i2cSend_master ad msg len s = Some (
      if st0 \<noteq> i2cStat_OK then (st0, s0) else if st2 \<noteq> i2cStat_OK then (st2, s2)
      else if st3 \<noteq> i2cStat_OK then (st3, s3) else (i2cStat_OK, i2cSend_end s3))"
    using w0 w2 [unfolded s1_def] l3 by (simp add: i2cSend_master_def Let_def)
  have o0: "bus_only s s0" by (rule WaitMaster_only [OF w0])
  then have "bus_only s s1" by (simp add: s1_def)
  from bus_only_trans [OF this WaitMaster_only [OF w2]] have o2: "bus_only s s2" .
  from bus_only_trans [OF o2 i2cSend_loop_only [OF l3]] have o3: "bus_only s s3" .
  from bus_only_trans [OF o3 i2cSend_end_only] show ?thesis using run o0 o2 o3 by auto
qed

section \<open>Reading\<close>

lemma WaitRXRDY_bus:
  assumes "WaitI2cMasterRXRDY s = (st, s')"
  shows "mst_received s' = mst_received s \<and> env s' = env s \<and> (st = i2cStat_OK \<or> st = i2cStat_TimeOut)"
proof -
  obtain b1 s1 where p1: "poll I2C_STAT (\<lambda>v. v AND PRIMARY_STATE_MASK = I2C_STAT_MSTST_RXRDY)
      (loopWaitReceive + 1) s = (b1, s1)" by fastforce
  obtain st2 s2 where w: "WaitI2cMasterState I2C_STAT_MSTST_IDLE (hw_write I2C_MSTCTL MSTCTL_STOP s1) = (st2, s2)"
    by fastforce
  have "(st, s') = (if b1 then (i2cStat_OK, s1) else (i2cStat_TimeOut, s2))"
    using assms unfolding WaitI2cMasterRXRDY_def p1 prod.case by (cases b1) (simp_all add: w)
  then show ?thesis using poll_bus [OF p1] WaitMaster_bus [OF w] by (auto split: if_splits)
qed

lemma i2cReadLenght_loop_total:
  assumes "unat i + n = l" "sint len = int l" "l \<le> 255" "l \<le> length buf"
  shows "\<exists>st buf' s' vs. i2cReadLenght_loop i buf len s = Some (st, buf', s') \<and>
    (st = i2cStat_OK \<or> st = i2cStat_TimeOut) \<and> length buf' = length buf \<and> bus_only s s' \<and>
    mst_received s' = mst_received s @ vs \<and>
    (st = i2cStat_OK \<longrightarrow> length vs = n \<and>
       buf' = take (unat i) buf @ map ucast vs @ drop l buf)"
  using assms
proof (induction n arbitrary: i buf s)
  case 0
  then show ?case by (subst i2cReadLenght_loop.simps) simp
next
  case (Suc n)
  obtain st s1 where w: "WaitI2cMasterRXRDY s = (st, s1)" by fastforce
  note b = WaitRXRDY_bus [OF w]
  have o1: "bus_only s s1" using WaitRXRDY_only [of s] w by simp
  obtain v s2 where rd: "hw_read I2C_MSTDAT s1 = (v, s2)" by fastforce
  define s3 where "s3 = hw_write I2C_MSTCTL MSTCTL_CONTINUE s2"
  have lt: "int (unat i) < sint len" "unat i < length buf" using Suc.prems by linarith+
  have i1: "unat (i + 1) = unat i + 1"
    using Suc.prems by (subst unat_add_lem [THEN iffD1]) simp_all
  show ?case
  proof (cases "st = i2cStat_OK")
    case False
    then show ?thesis using w lt b o1 by (subst i2cReadLenght_loop.simps) auto
  next
    case True
    have step: "i2cReadLenght_loop i buf len s = i2cReadLenght_loop (i + 1) (buf[unat i := ucast v]) len s3"
      using w lt True rd by (subst i2cReadLenght_loop.simps) (simp add: s3_def)
    have rec: "mst_received s3 = mst_received s @ [v]"
      using hw_read_bus [OF rd] b by (simp add: s3_def)
    from Suc.IH [of "i + 1" "buf[unat i := ucast v]" s3] Suc.prems i1 obtain st' buf' s' vs where
      r: "i2cReadLenght_loop (i + 1) (buf[unat i := ucast v]) len s3 = Some (st', buf', s')"
        "st' = i2cStat_OK \<or> st' = i2cStat_TimeOut" "length buf' = length buf" "bus_only s3 s'"
        "mst_received s' = mst_received s3 @ vs"
        "st' = i2cStat_OK \<longrightarrow> length vs = n \<and>
           buf' = take (unat i + 1) (buf[unat i := ucast v]) @ map ucast vs @ drop l (buf[unat i := ucast v])"
      by auto
    have "bus_only s s3" using bus_only_trans [OF o1 bus_only_read [OF rd]] by (simp add: s3_def)
    from bus_only_trans [OF this r(4)] have "bus_only s s'" .
    moreover have "take (unat i + 1) (buf[unat i := ucast v]) = take (unat i) buf @ [ucast v]"
      using lt by (simp add: take_Suc_conv_app_nth)
    moreover have "drop l (buf[unat i := ucast v]) = drop l buf"
      using Suc.prems by (simp add: drop_update_cancel)
    ultimately show ?thesis
      using r rec step by (intro exI [of _ st'] exI [of _ buf'] exI [of _ s'] exI [of _ "v # vs"]) auto
  qed
qed

lemma i2cReadLenght_master_total:
  assumes "sint len = int l" "l \<le> 255" "l \<le> length buf"
  shows "\<exists>st buf' s' vs. i2cReadLenght_master ad buf len s = Some (st, buf', s') \<and>
    (st = i2cStat_OK \<or> st = i2cStat_TimeOut) \<and> length buf' = length buf \<and> bus_only s s' \<and>
    mst_received s' = mst_received s @ vs \<and>
    (st = i2cStat_OK \<longrightarrow> length vs = l \<and> buf' = map ucast vs @ drop l buf)"
proof -
  obtain st0 s0 where w0: "WaitI2cMasterState I2C_STAT_MSTST_IDLE s = (st0, s0)" by fastforce
  define s1 where "s1 = hw_write I2C_MSTCTL MSTCTL_START (hw_write I2C_MSTDAT (i2c_address ad 1) s0)"
  obtain b2 s2 where w2: "poll I2C_STAT (\<lambda>v. v AND I2C_STAT_MSTPENDING_MASK \<noteq> 0) (100 * loopWaitReceive + 1) s1
      = (b2, s2)" by fastforce
  obtain st3 buf3 s3 vs where l3: "i2cReadLenght_loop 0 buf len s2 = Some (st3, buf3, s3)"
    "st3 = i2cStat_OK \<or> st3 = i2cStat_TimeOut" "length buf3 = length buf"
    "mst_received s3 = mst_received s2 @ vs" "bus_only s2 s3"
    "st3 = i2cStat_OK \<longrightarrow> length vs = l \<and> buf3 = map ucast vs @ drop l buf"
    using i2cReadLenght_loop_total [of 0 l l len buf s2] assms by auto
  obtain st4 s4 where w4: "WaitI2cMasterRXRDY s3 = (st4, s4)" by fastforce
  obtain st5 s5 where w5: "WaitI2cMasterState I2C_STAT_MSTST_IDLE (i2c_abort s4) = (st5, s5)" by fastforce
  have run: "i2cReadLenght_master ad buf len s = Some (
      if st0 \<noteq> i2cStat_OK then (st0, buf, s0) else if \<not> b2 then (i2cStat_TimeOut, buf, i2c_abort s2)
      else if st3 \<noteq> i2cStat_OK then (st3, buf3, s3) else (i2cStat_OK, buf3, s5))"
    using w0 w2 [unfolded s1_def] l3(1) w4 w5
    by (cases b2) (simp_all add: i2cReadLenght_master_def Let_def)
  have r0: "mst_received s0 = mst_received s" "st0 = i2cStat_OK \<or> st0 = i2cStat_TimeOut"
    using WaitMaster_bus [OF w0] by auto
  have r2: "mst_received s2 = mst_received s" using poll_bus [OF w2] r0 by (simp add: s1_def)
  have r5: "mst_received s5 = mst_received s3"
    using WaitRXRDY_bus [OF w4] WaitMaster_bus [OF w5] by simp
  have o0: "bus_only s s0" by (rule WaitMaster_only [OF w0])
  then have "bus_only s s1" by (simp add: s1_def)
  from bus_only_trans [OF this poll_only [OF w2]] have o2: "bus_only s s2" .
  from bus_only_trans [OF o2 l3(5)] have o3: "bus_only s s3" .
  have o4: "bus_only s s4" using bus_only_trans [OF o3] WaitRXRDY_only [of s3] w4 by simp
  have "bus_only s s5" using bus_only_trans [OF _ WaitMaster_only [OF w5]] o4 by simp
  then show ?thesis
    using run l3 r0 r2 r5 o0 o2 o3 by (auto split: if_splits)
qed

text \<open>
  C33: reading up to 255 bytes into a buffer that holds them always returns and never leaves the
  buffer; on success the buffer holds exactly the bytes taken from the data register, in order, and
  nothing behind them has changed.
\<close>

theorem read_length_returns_the_bytes:
  assumes "sint len = int l" "l \<le> 255" "l \<le> length buf"
  shows "\<exists>st buf' s' vs. i2cReadLenght_master ad buf len s = Some (st, buf', s') \<and>
    (st = i2cStat_OK \<or> st = i2cStat_TimeOut) \<and> length buf' = length buf \<and>
    mst_received s' = mst_received s @ vs \<and>
    (st = i2cStat_OK \<longrightarrow> length vs = l \<and> buf' = map ucast vs @ drop l buf)"
  using i2cReadLenght_master_total [OF assms, of ad s] by blast

theorem read_length_returns_the_bytes_witness:
  "\<exists>st buf' s' vs. i2cReadLenght_master 0x15 (replicate 10 0) 7 i2c_zero
      = Some (st, buf', s') \<and>
    (st = i2cStat_OK \<or> st = i2cStat_TimeOut) \<and> length buf' = 10 \<and>
    mst_received s' = mst_received i2c_zero @ vs \<and>
    (st = i2cStat_OK \<longrightarrow> length vs = 7 \<and> buf' = map ucast vs @ replicate 3 0)"
  using read_length_returns_the_bytes [where len = 7 and l = 7 and buf = "replicate 10 0" and ad = "0x15" and s = i2c_zero]
  by simp

end
