(* ===== verification/Task.thy ===== *)
theory Task
  imports I2c
begin

text \<open>
  \<open>services/task/task.c\<close>: the table of periodic tasks, the scheduler that the system tick calls and
  the delays. \<open>call f arg\<close> is the meaning of a task's function. \<open>idle\<close> is what interrupts do between two
  reads of the clock in a waiting loop; a loop that never ends is \<^term>\<open>None\<close>.
\<close>

section \<open>State\<close>

record task_s =
  ptrFunc :: "c_func option"
  lastExecution :: u64
  dt_us :: u32
  priority :: u8
  ptrData :: u32
  TaskName :: "u8 list"

definition task_s_default :: task_s where
  "task_s_default = \<lparr>ptrFunc = None, lastExecution = 0, dt_us = 0, priority = 0, ptrData = 0,
     TaskName = replicate Sys_task_name_length 0\<rparr>"

record tasks = i2c +
  scheduler_on :: i32
  tasks_on :: i32
  pause :: i32
  task_vet :: "task_s list"

section \<open>The scheduler\<close>

text \<open>The loop of \<open>isrScheduler\<close>: \<open>n\<close> slots are left, the next is \<open>i\<close>.\<close>

primrec scheduler_loop ::
  "(c_func \<Rightarrow> u32 \<Rightarrow> 'a tasks_scheme \<Rightarrow> 'a tasks_scheme option) \<Rightarrow> nat \<Rightarrow> nat \<Rightarrow>
   'a tasks_scheme \<Rightarrow> 'a tasks_scheme option" where
  "scheduler_loop call 0 i s = Some s"
| "scheduler_loop call (Suc n) i s = do {
     t \<leftarrow> arr_get (task_vet s) i;
     (case ptrFunc t of
        None \<Rightarrow> scheduler_loop call n (Suc i) s
      | Some f \<Rightarrow>
          let time_us_aux = SysTickGetTime_us s;
              time_dt = time_us_aux - lastExecution t
          in if ucast (dt_us t) \<le> time_dt
             then call f (ptrData t)
                    (s\<lparr>task_vet := (task_vet s)[i := t\<lparr>lastExecution := time_us_aux\<rparr>]\<rparr>)
             else scheduler_loop call n (Suc i) s) }"

definition isrScheduler ::
  "(c_func \<Rightarrow> u32 \<Rightarrow> 'a tasks_scheme \<Rightarrow> 'a tasks_scheme option) \<Rightarrow> 'a tasks_scheme \<Rightarrow>
   'a tasks_scheme option" where
  "isrScheduler call s = (if pause s \<noteq> 0 then Some s else scheduler_loop call Sys_task_max 0 s)"

definition task_schedulerInit :: "'a tasks_scheme \<Rightarrow> 'a tasks_scheme option" where
  "task_schedulerInit s =
     (if scheduler_on s \<noteq> 0 then Some s
      else SysTickBeginISR SysTick_frequency_hz (Some IsrScheduler) (s\<lparr>scheduler_on := 1\<rparr>))"

definition task_vet_init :: "'a tasks_scheme \<Rightarrow> 'a tasks_scheme" where
  "task_vet_init s = s\<lparr>task_vet := replicate Sys_task_max task_s_default, tasks_on := 1\<rparr>"

text \<open>The name is copied up to its terminator or to the length of the field.\<close>

primrec copy_name :: "nat \<Rightarrow> nat \<Rightarrow> u8 list \<Rightarrow> u8 list \<Rightarrow> u8 list option" where
  "copy_name 0 i src dst = Some dst"
| "copy_name (Suc n) i src dst = do {
     c \<leftarrow> arr_get src i;
     dst \<leftarrow> arr_set dst i c;
     if c = 0 then Some dst else copy_name n (Suc i) src dst }"

text \<open>
  A full table leaves the pointer to the new slot unset, so the stores through it are undefined; so
  is the division by a zero frequency.
\<close>

definition task_new ::
  "c_func option \<Rightarrow> u8 list \<Rightarrow> u32 \<Rightarrow> u8 \<Rightarrow> u32 \<Rightarrow> 'a tasks_scheme \<Rightarrow> 'a tasks_scheme option" where
  "task_new f taskName frequency prio arg s = do {
     let s = (if tasks_on s = 0 then task_vet_init s else s);
     i \<leftarrow> find (\<lambda>i. ptrFunc (task_vet s ! i) = None) [0..<Sys_task_max];
     t \<leftarrow> arr_get (task_vet s) i;
     if frequency = 0 then None
     else do {
       let t = t\<lparr>ptrFunc := f, dt_us := 1000000 div frequency, priority := prio, ptrData := arg\<rparr>;
       name \<leftarrow> copy_name Sys_task_name_length 0 taskName (TaskName t);
       let s = s\<lparr>task_vet := (task_vet s)[i := t\<lparr>TaskName := name\<rparr>], tasks_on := tasks_on s + 0b10\<rparr>;
       if scheduler_on s = 0 then task_schedulerInit s else Some s } }"

section \<open>Delays\<close>

partial_function (option) wait_until ::
  "('s \<Rightarrow> 's option) \<Rightarrow> ('s \<Rightarrow> bool) \<Rightarrow> 's \<Rightarrow> 's option" where
  "wait_until idle stop s = (if stop s then Some s else do { s \<leftarrow> idle s; wait_until idle stop s })"

definition task_delay_ms ::
  "('a tasks_scheme \<Rightarrow> 'a tasks_scheme option) \<Rightarrow> u32 \<Rightarrow> 'a tasks_scheme \<Rightarrow> 'a tasks_scheme option" where
  "task_delay_ms idle time_ms s = (
     let time_end = SysTickGetTime_ms s + ucast time_ms
     in wait_until idle (\<lambda>s. \<not> SysTickGetTime_ms s < time_end) s)"

text \<open>The two relative delays also return the end time they store through their pointer.\<close>

definition task_delay_ms_until ::
  "('a tasks_scheme \<Rightarrow> 'a tasks_scheme option) \<Rightarrow> u64 \<Rightarrow> u32 \<Rightarrow> 'a tasks_scheme \<Rightarrow>
   (u64 \<times> 'a tasks_scheme) option" where
  "task_delay_ms_until idle ptr time_ms s = do {
     let time_end = ptr + ucast time_ms;
     s \<leftarrow> wait_until idle (\<lambda>s. \<not> SysTickGetTime_ms s < time_end) s;
     Some (time_end, s) }"

definition task_delay_ticks ::
  "('a tasks_scheme \<Rightarrow> 'a tasks_scheme option) \<Rightarrow> u32 \<Rightarrow> 'a tasks_scheme \<Rightarrow> 'a tasks_scheme option" where
  "task_delay_ticks idle ticks s = (
     let ticks_end = (ucast (SysTickGetTicks s + ucast ticks) :: u32)
     in wait_until idle (\<lambda>s. \<not> SysTickGetTicks s \<le> ucast ticks_end) s)"

definition task_delay_ticks_until ::
  "('a tasks_scheme \<Rightarrow> 'a tasks_scheme option) \<Rightarrow> u64 \<Rightarrow> u32 \<Rightarrow> 'a tasks_scheme \<Rightarrow>
   (u64 \<times> 'a tasks_scheme) option" where
  "task_delay_ticks_until idle ptr ticks s = do {
     let time_end = ptr + ucast ticks;
     s \<leftarrow> wait_until idle (\<lambda>s. \<not> SysTickGetTime_ms s < time_end) s;
     Some (time_end, s) }"

definition task_scheduler_pause :: "'a tasks_scheme \<Rightarrow> 'a tasks_scheme" where
  "task_scheduler_pause s = s\<lparr>pause := 1\<rparr>"

definition task_scheduler_continue :: "'a tasks_scheme \<Rightarrow> 'a tasks_scheme" where
  "task_scheduler_continue s = s\<lparr>pause := 0\<rparr>"

section \<open>Which task a tick runs\<close>

text \<open>A slot is due when it holds a task whose period has passed since its last start.\<close>

definition due :: "'a tasks_scheme \<Rightarrow> nat \<Rightarrow> bool" where
  "due s i \<longleftrightarrow> ptrFunc (task_vet s ! i) \<noteq> None \<and>
     ucast (dt_us (task_vet s ! i)) \<le> SysTickGetTime_us s - lastExecution (task_vet s ! i)"

definition start_slot :: "'a tasks_scheme \<Rightarrow> nat \<Rightarrow> 'a tasks_scheme" where
  "start_slot s i =
     s\<lparr>task_vet := (task_vet s)[i := (task_vet s ! i)\<lparr>lastExecution := SysTickGetTime_us s\<rparr>]\<rparr>"

definition run_slot ::
  "(c_func \<Rightarrow> u32 \<Rightarrow> 'a tasks_scheme \<Rightarrow> 'a tasks_scheme option) \<Rightarrow> 'a tasks_scheme \<Rightarrow> nat \<Rightarrow>
   'a tasks_scheme option" where
  "run_slot call s i =
     call (the (ptrFunc (task_vet s ! i))) (ptrData (task_vet s ! i)) (start_slot s i)"

lemma scheduler_loop_find:
  "i + n \<le> length (task_vet s) \<Longrightarrow>
   scheduler_loop call n i s =
     (case find (due s) [i..<i + n] of None \<Rightarrow> Some s | Some j \<Rightarrow> run_slot call s j)"
proof (induction n arbitrary: i)
  case 0
  then show ?case by simp
next
  case (Suc n)
  have up: "[i..<i + Suc n] = i # [Suc i..<Suc i + n]" by (simp add: upt_rec)
  show ?case
    using Suc unfolding up
    by (cases "ptrFunc (task_vet s ! i)") (auto simp: due_def run_slot_def start_slot_def Let_def)
qed

text \<open>
  C9: a tick runs at most one task: nothing while the scheduler is paused, otherwise the task of the
  lowest slot whose period has passed, with its argument and with the present time stored as its
  last start. The priorities play no part.
\<close>

theorem tick_runs_first_due_task:
  assumes "length (task_vet s) = Sys_task_max"
  shows "isrScheduler call s =
    (if pause s \<noteq> 0 then Some s
     else case find (due s) [0..<Sys_task_max] of None \<Rightarrow> Some s | Some j \<Rightarrow> run_slot call s j)"
  using scheduler_loop_find [of 0 Sys_task_max s call] assms by (simp add: isrScheduler_def)

definition task_zero :: tasks where
  "task_zero = i2c.extend i2c_zero
     \<lparr>scheduler_on = 0, tasks_on = 0, pause = 0, task_vet = replicate Sys_task_max task_s_default\<rparr>"

lemma task_zero_fields [simp]:
  "scheduler_on task_zero = 0" "tasks_on task_zero = 0" "pause task_zero = 0"
  "task_vet task_zero = replicate Sys_task_max task_s_default"
  "SysTickCount task_zero = 0" "dT_us task_zero = 0"
  by (simp_all add: task_zero_def i2c.defs i2c_zero_def interrupt.defs int_zero_def adc.defs
      adc_zero_def gpio.defs gpio_zero_def)

definition one_task :: tasks where
  "one_task = task_zero\<lparr>task_vet := (replicate 12 task_s_default)
     [2 := task_s_default\<lparr>ptrFunc := Some TickTimestamp, ptrData := 9\<rparr>]\<rparr>"

lemma one_task_slots:
  "find (due one_task) [0..<Sys_task_max] = Some 2"
  "length (task_vet one_task) = Sys_task_max" "pause one_task = 0"
  by (simp_all add: Sys_task_max_def due_def upt_rec one_task_def task_s_default_def
      SysTickGetTime_us_def numeral_eq_Suc)

theorem tick_runs_first_due_task_witness:
  "isrScheduler (\<lambda>f a s. if f = TickTimestamp then Some (s\<lparr>tasks_on := a\<rparr>) else None) one_task =
     Some (one_task\<lparr>tasks_on := 9\<rparr>)"
proof -
  have "(replicate 12 task_s_default)[2 := task_s_default\<lparr>ptrFunc := Some TickTimestamp, ptrData := 9\<rparr>] ! 2
      = task_s_default\<lparr>ptrFunc := Some TickTimestamp, ptrData := 9\<rparr>"
    by simp
  then show ?thesis
    by (subst tick_runs_first_due_task [OF one_task_slots(2)])
      (simp add: one_task_slots run_slot_def start_slot_def, simp add: one_task_def
        SysTickGetTime_us_def task_s_default_def list_update_overwrite)
qed

section \<open>New tasks\<close>

lemma copy_name_eq:
  assumes "k = length (takeWhile (\<lambda>c. c \<noteq> 0) src)" "k < length src"
    and "i \<le> k" "i + n \<le> length dst"
  shows "copy_name n i src dst =
    Some (take i dst @ take (min n (Suc k - i)) (drop i src) @ drop (i + min n (Suc k - i)) dst)"
  using assms(3,4)
proof (induction n arbitrary: i dst)
  case 0
  then show ?case by simp
next
  case (Suc n)
  have i: "i < length src" "i < length dst" using Suc.prems assms(2) by simp_all
  have zero: "src ! i = 0 \<longleftrightarrow> i = k"
  proof
    assume "src ! i = 0"
    then show "i = k"
      using Suc.prems(1) assms(1) set_takeWhileD [of "takeWhile (\<lambda>c. c \<noteq> 0) src ! i" "\<lambda>c. c \<noteq> 0" src]
      by (metis le_neq_implies_less nth_mem takeWhile_nth)
  next
    assume "i = k"
    then show "src ! i = 0" using assms(1,2) nth_length_takeWhile by blast
  qed
  have hd: "take (Suc m) (drop i src) = src ! i # take m (drop (Suc i) src)" for m
    using i by (simp add: Cons_nth_drop_Suc [symmetric])
  show ?case
  proof (cases "i = k")
    case True
    then show ?thesis
      using i zero hd [of 0] by (simp add: upd_conv_take_nth_drop Suc_diff_le)
  next
    case False
    then have "copy_name (Suc n) i src dst = copy_name n (Suc i) src (dst[i := src ! i])"
      using i zero by simp
    also have "\<dots> = Some (take (Suc i) (dst[i := src ! i]) @
        take (min n (Suc k - Suc i)) (drop (Suc i) src) @
        drop (Suc i + min n (Suc k - Suc i)) (dst[i := src ! i]))"
      by (rule Suc.IH) (use Suc.prems False in simp_all)
    also have "take (Suc i) (dst[i := src ! i]) = take i dst @ [src ! i]"
      using i by (simp add: take_Suc_conv_app_nth)
    also have "min (Suc n) (Suc k - i) = Suc (min n (Suc k - Suc i))"
      using Suc.prems False by simp
    ultimately show ?thesis using hd by simp
  qed
qed

definition first_free :: "'a tasks_scheme \<Rightarrow> nat option" where
  "first_free s = find (\<lambda>i. ptrFunc (task_vet s ! i) = None) [0..<Sys_task_max]"

lemma first_free_lt: "first_free s = Some i \<Longrightarrow> i < Sys_task_max"
  by (auto simp: first_free_def find_Some_iff)

text \<open>
  C32: with the table initialised and the scheduler running, a new task with a positive frequency
  and a terminated name goes to the first free slot, keeps the slot's last start, gets the period
  in microseconds and the name up to its terminator or 20 bytes; no other slot changes. With no slot
  free the store goes through an unset pointer, and a zero frequency divides by zero.
\<close>

theorem task_new_outcome:
  assumes "length (task_vet s) = Sys_task_max" "tasks_on s \<noteq> 0" "scheduler_on s \<noteq> 0"
    and "0 \<in> set nm" "\<forall>t\<in>set (task_vet s). length (TaskName t) = Sys_task_name_length"
  shows "task_new f nm freq prio arg s =
    (case first_free s of
       None \<Rightarrow> None
     | Some i \<Rightarrow>
         if freq = 0 then None
         else let k = min Sys_task_name_length (Suc (length (takeWhile (\<lambda>c. c \<noteq> 0) nm)));
                  t = task_vet s ! i
              in Some (s\<lparr>task_vet := (task_vet s)[i := \<lparr>ptrFunc = f, lastExecution = lastExecution t,
                     dt_us = 1000000 div freq, priority = prio, ptrData = arg,
                     TaskName = take k nm @ drop k (TaskName t)\<rparr>],
                   tasks_on := tasks_on s + 2\<rparr>))"
proof (cases "first_free s")
  case None
  then show ?thesis using assms(2) by (simp add: task_new_def first_free_def)
next
  case (Some i)
  have i: "i < length (task_vet s)" using first_free_lt [OF Some] assms(1) by simp
  define t where "t = task_vet s ! i"
  have nl: "length (TaskName t) = 20" using assms(5) i by (simp add: t_def Sys_task_name_length_def)
  have stop: "length (takeWhile (\<lambda>c. c \<noteq> 0) nm) < length nm"
    using assms(4) by (induction nm) auto
  have cp: "copy_name Sys_task_name_length 0 nm (TaskName t) =
      Some (take (min Sys_task_name_length (Suc (length (takeWhile (\<lambda>c. c \<noteq> 0) nm)))) nm @
            drop (min Sys_task_name_length (Suc (length (takeWhile (\<lambda>c. c \<noteq> 0) nm)))) (TaskName t))"
    by (subst copy_name_eq [OF refl stop]) (simp_all add: nl Sys_task_name_length_def)
  show ?thesis
    using Some i assms(2,3) cp
    by (cases t) (simp add: task_new_def first_free_def t_def [symmetric] Let_def)
qed

lemma first_free_one_task [simp]: "first_free (one_task\<lparr>scheduler_on := 1, tasks_on := 1\<rparr>) = Some 0"
  by (simp add: first_free_def one_task_def Sys_task_max_def upt_rec task_s_default_def)

theorem task_new_outcome_witness:
  "task_new (Some Rec_system) [83, 121, 0] 20 0 0 (one_task\<lparr>scheduler_on := 1, tasks_on := 1\<rparr>) =
    Some (one_task\<lparr>scheduler_on := 1, tasks_on := 3,
      task_vet := (task_vet one_task)[0 := \<lparr>ptrFunc = Some Rec_system, lastExecution = 0, dt_us = 50000,
        priority = 0, ptrData = 0, TaskName = [83, 121, 0] @ replicate 17 0\<rparr>]\<rparr>)"
proof -
  have "set (task_vet one_task) \<subseteq> {task_s_default, task_s_default\<lparr>ptrFunc := Some TickTimestamp, ptrData := 9\<rparr>}"
    unfolding one_task_def using set_update_subset_insert [of "replicate 12 task_s_default"] by auto
  then have vet: "\<forall>t\<in>set (task_vet one_task). length (TaskName t) = Sys_task_name_length"
    by (auto simp: task_s_default_def)
  show ?thesis
    by (subst task_new_outcome)
      (use vet one_task_slots in \<open>simp_all add: Let_def Sys_task_name_length_def\<close>,
       simp add: one_task_def task_s_default_def Sys_task_name_length_def)
qed

section \<open>Runs of the scheduler\<close>

text \<open>
  A run is a sequence of system ticks; its log has, for each tick, the slot whose task was started.
  What a body promises the scheduler: it leaves the table, the scheduler's flags, the clock, the
  tick's handler and the directions of the pins alone (a body runs inside the tick's interrupt, so
  the count does not move meanwhile).
\<close>

definition tick :: "'a tasks_scheme \<Rightarrow> 'a tasks_scheme" where
  "tick s = s\<lparr>SysTickCount := SysTickCount s + 1\<rparr>"

definition chosen :: "'a tasks_scheme \<Rightarrow> nat option" where
  "chosen s = find (due s) [0..<Sys_task_max]"

definition only_scheduler ::
  "(c_func \<Rightarrow> u32 \<Rightarrow> 'a tasks_scheme \<Rightarrow> 'a tasks_scheme option) \<Rightarrow> c_func \<Rightarrow>
   'a tasks_scheme \<Rightarrow> 'a tasks_scheme option" where
  "only_scheduler call f = (if f = IsrScheduler then isrScheduler call else (\<lambda>s. None))"

inductive tick_run ::
  "(c_func \<Rightarrow> u32 \<Rightarrow> 'a tasks_scheme \<Rightarrow> 'a tasks_scheme option) \<Rightarrow> 'a tasks_scheme \<Rightarrow>
   nat option list \<Rightarrow> 'a tasks_scheme \<Rightarrow> bool" for call s where
  tick_run_start: "tick_run call s [] s"
| tick_run_tick: "tick_run call s log t \<Longrightarrow> SysTick_Handler (only_scheduler call) t = Some u \<Longrightarrow>
     tick_run call s (log @ [chosen (tick t)]) u"

inductive_simps tick_run_empty: "tick_run call s [] u"
inductive_cases tick_run_snocE: "tick_run call s (log @ [c]) u"

text \<open>A run is determined by its length.\<close>

lemma tick_run_det:
  assumes "tick_run call s log t" "tick_run call s log' t'" "length log' = length log"
  shows "log' = log \<and> t' = t"
  using assms
proof (induction arbitrary: log' t' rule: tick_run.induct)
  case tick_run_start
  then show ?case by (simp add: tick_run_empty)
next
  case (tick_run_tick log t u)
  have "log' \<noteq> []" using tick_run_tick.prems(2) by auto
  then obtain l c where log': "log' = l @ [c]" by (metis append_butlast_last_id)
  then obtain t1 where t1: "tick_run call s l t1" "SysTick_Handler (only_scheduler call) t1 = Some t'"
    "c = chosen (tick t1)"
    using tick_run_tick.prems(1) by (auto elim: tick_run_snocE)
  then have "l = log \<and> t1 = t" using tick_run_tick.IH tick_run_tick.prems(2) log' by simp
  then show ?case using t1 tick_run_tick.hyps(2) log' by simp
qed

type_synonym sched_view = "task_s list \<times> i32 \<times> c_func option \<times> u64 \<times> u32 \<times> i32 \<times> i32 \<times> u32 \<times> u32"

definition sched_view :: "'a tasks_scheme \<Rightarrow> sched_view" where
  "sched_view s = (task_vet s, pause s, ptrSysTickISR s, SysTickCount s, dT_us s, tasks_on s, scheduler_on s,
     inputRefPin s, outputRefPin s)"

text \<open>The next \<open>n\<close> ticks stay inside the clock's range, and no start lies in the future.\<close>

definition sched_ready :: "nat \<Rightarrow> 'a tasks_scheme \<Rightarrow> bool" where
  "sched_ready n s \<longleftrightarrow> length (task_vet s) = Sys_task_max \<and> pause s = 0 \<and>
     ptrSysTickISR s = Some IsrScheduler \<and> 0 < unat (dT_us s) \<and>
     unat (dT_us s) * (unat (SysTickCount s) + n) < 2 ^ 64 \<and>
     (\<forall>j<Sys_task_max. unat (lastExecution (task_vet s ! j)) \<le> unat (dT_us s) * unat (SysTickCount s))"

lemma time_us_exact:
  assumes "unat (dT_us s) * unat (SysTickCount s) < 2 ^ 64"
  shows "unat (SysTickGetTime_us s) = unat (dT_us s) * unat (SysTickCount s)"
proof -
  have "unat (ucast (dT_us s) :: u64) = unat (dT_us s)"
    by (simp add: unsigned_ucast_eq take_bit_nat_eq_self less_trans [OF unsigned_less])
  then show ?thesis
    using assms by (simp add: SysTickGetTime_us_def unat_mult_lem [THEN iffD1])
qed

lemma due_iff:
  assumes "unat (dT_us s) * unat (SysTickCount s) < 2 ^ 64"
    and "unat (lastExecution (task_vet s ! j)) \<le> unat (dT_us s) * unat (SysTickCount s)"
  shows "due s j \<longleftrightarrow> ptrFunc (task_vet s ! j) \<noteq> None \<and>
    unat (dt_us (task_vet s ! j)) + unat (lastExecution (task_vet s ! j)) \<le>
      unat (dT_us s) * unat (SysTickCount s)"
proof -
  note now = time_us_exact [OF assms(1)]
  have "unat (ucast (dt_us (task_vet s ! j)) :: u64) = unat (dt_us (task_vet s ! j))"
    by (simp add: unsigned_ucast_eq take_bit_nat_eq_self less_trans [OF unsigned_less])
  moreover have "unat (SysTickGetTime_us s - lastExecution (task_vet s ! j)) =
      unat (dT_us s) * unat (SysTickCount s) - unat (lastExecution (task_vet s ! j))"
    using assms(2) now by (simp add: unat_sub word_le_nat_alt)
  ultimately show ?thesis
    using assms(2) unfolding due_def word_le_nat_alt by auto
qed

text \<open>What holds after the ticks of a log, for a table whose periods are longer than the run.\<close>

definition run_inv :: "'a tasks_scheme \<Rightarrow> nat option list \<Rightarrow> 'a tasks_scheme \<Rightarrow> bool" where
  "run_inv s log t \<longleftrightarrow>
     length (task_vet t) = Sys_task_max \<and> pause t = 0 \<and> ptrSysTickISR t = Some IsrScheduler \<and>
     dT_us t = dT_us s \<and> unat (SysTickCount t) = unat (SysTickCount s) + length log \<and>
     distinct (filter (\<lambda>c. c \<noteq> None) log) \<and>
     (\<forall>j. Some j \<in> set log \<longrightarrow> j < Sys_task_max) \<and>
     (\<forall>j<Sys_task_max.
        ptrFunc (task_vet t ! j) = ptrFunc (task_vet s ! j) \<and>
        dt_us (task_vet t ! j) = dt_us (task_vet s ! j) \<and>
        (if Some j \<in> set log
         then unat (dT_us s) * (unat (SysTickCount s) + 1) \<le> unat (lastExecution (task_vet t ! j)) \<and>
           unat (lastExecution (task_vet t ! j)) \<le> unat (dT_us s) * (unat (SysTickCount s) + length log)
         else lastExecution (task_vet t ! j) = lastExecution (task_vet s ! j)))"

definition long_periods :: "nat \<Rightarrow> 'a tasks_scheme \<Rightarrow> bool" where
  "long_periods n s \<longleftrightarrow> (\<forall>j<Sys_task_max. ptrFunc (task_vet s ! j) \<noteq> None \<longrightarrow>
     n * unat (dT_us s) \<le> unat (dt_us (task_vet s ! j)))"

lemma run_inv_time:
  assumes "sched_ready n s" "run_inv s log t" "length log < n"
  shows "unat (SysTickCount (tick t)) = unat (SysTickCount s) + length log + 1"
    and "unat (dT_us s) * (unat (SysTickCount s) + length log + 1) < 2 ^ 64"
    and "unat (SysTickGetTime_us (tick t)) = unat (dT_us s) * (unat (SysTickCount s) + length log + 1)"
    and "j < Sys_task_max \<Longrightarrow> unat (lastExecution (task_vet t ! j)) \<le>
      unat (dT_us s) * (unat (SysTickCount s) + length log)"
proof -
  let ?D = "unat (dT_us s)" and ?c = "unat (SysTickCount s)"
  have le: "?D * (?c + length log + 1) \<le> ?D * (?c + n)"
    using assms(3) by (intro mult_le_mono2) simp
  then show lt: "?D * (?c + length log + 1) < 2 ^ 64"
    using assms(1) unfolding sched_ready_def by linarith
  have "?c + length log + 1 \<le> ?D * (?c + length log + 1)"
    using assms(1) mult_le_mono1 [of 1 ?D "?c + length log + 1"] by (simp add: sched_ready_def)
  also note lt
  finally have "unat (SysTickCount t) + 1 < 2 ^ 64"
    using assms(2) by (simp add: run_inv_def)
  then have "unat (SysTickCount t + 1) = unat (SysTickCount t) + 1"
    by (subst unat_add_lem [THEN iffD1]) simp_all
  then show cnt: "unat (SysTickCount (tick t)) = ?c + length log + 1"
    using assms(2) by (simp add: tick_def run_inv_def)
  have "dT_us (tick t) = dT_us s" using assms(2) by (simp add: tick_def run_inv_def)
  then show "unat (SysTickGetTime_us (tick t)) = ?D * (?c + length log + 1)"
    using time_us_exact [of "tick t"] cnt lt by simp
  show "unat (lastExecution (task_vet t ! j)) \<le> ?D * (?c + length log)" if "j < Sys_task_max"
  proof (cases "Some j \<in> set log")
    case True
    then show ?thesis using assms(2) that unfolding run_inv_def by metis
  next
    case False
    then have "unat (lastExecution (task_vet t ! j)) \<le> ?D * ?c"
      using assms(1,2) that unfolding run_inv_def sched_ready_def by metis
    also have "\<dots> \<le> ?D * (?c + length log)" by (intro mult_le_mono2) simp
    finally show ?thesis .
  qed
qed

lemma run_inv_due:
  assumes "sched_ready n s" "run_inv s log t" "length log < n" "long_periods n s" "j < Sys_task_max"
  shows "due (tick t) j \<longleftrightarrow> Some j \<notin> set log \<and> ptrFunc (task_vet s ! j) \<noteq> None \<and>
    unat (dt_us (task_vet s ! j)) + unat (lastExecution (task_vet s ! j)) \<le>
      unat (dT_us s) * (unat (SysTickCount s) + length log + 1)"
proof -
  let ?D = "unat (dT_us s)" and ?c = "unat (SysTickCount s)"
  note T = run_inv_time [OF assms(1-3)]
  have [simp]: "task_vet (tick t) = task_vet t" "dT_us (tick t) = dT_us s"
    using assms(2) by (simp_all add: tick_def run_inv_def)
  have "unat (lastExecution (task_vet t ! j)) \<le> ?D * (?c + length log + 1)"
    using T(4) [OF assms(5)] by (simp add: algebra_simps)
  then have due: "due (tick t) j \<longleftrightarrow> ptrFunc (task_vet t ! j) \<noteq> None \<and>
      unat (dt_us (task_vet t ! j)) + unat (lastExecution (task_vet t ! j)) \<le> ?D * (?c + length log + 1)"
    using due_iff [of "tick t" j] T(1,2) by simp
  have same: "ptrFunc (task_vet t ! j) = ptrFunc (task_vet s ! j)" "dt_us (task_vet t ! j) = dt_us (task_vet s ! j)"
    using assms(2,5) by (simp_all add: run_inv_def)
  show ?thesis
  proof (cases "Some j \<in> set log")
    case False
    then have "lastExecution (task_vet t ! j) = lastExecution (task_vet s ! j)"
      using assms(2,5) by (simp add: run_inv_def)
    then show ?thesis using due same False by simp
  next
    case True
    then have "?D * (?c + 1) \<le> unat (lastExecution (task_vet t ! j))"
      using assms(2,5) unfolding run_inv_def by metis
    moreover have "ptrFunc (task_vet s ! j) \<noteq> None \<Longrightarrow> n * ?D \<le> unat (dt_us (task_vet s ! j))"
      using assms(4,5) by (simp add: long_periods_def)
    moreover have "?D * (?c + length log + 1) < n * ?D + ?D * (?c + 1)"
    proof -
      have "?D * length log < ?D * n" using assms(1,3) by (simp add: sched_ready_def)
      then show ?thesis by (simp add: algebra_simps)
    qed
    ultimately show ?thesis using due same True by auto
  qed
qed

lemma find_chosen_bounds: "find P [0..<n] = Some j \<Longrightarrow> j < n \<and> P j"
  by (auto simp: find_Some_iff)

text \<open>A tick on which nothing is due, and one that starts a slot.\<close>

lemma run_inv_idle:
  assumes ready: "sched_ready n s" and inv: "run_inv s log t" and len: "length log < n"
    and u: "sched_view u = sched_view (tick t)"
  shows "run_inv s (log @ [None]) u"
proof -
  have "unat (SysTickCount u) = unat (SysTickCount s) + Suc (length log)"
    "task_vet u = task_vet t" "pause u = 0" "ptrSysTickISR u = Some IsrScheduler" "dT_us u = dT_us s"
    using u inv run_inv_time(1) [OF ready inv len] by (simp_all add: sched_view_def run_inv_def) (simp_all add: tick_def)
  moreover have "unat (dT_us s) * (unat (SysTickCount s) + length log) \<le>
      unat (dT_us s) * (unat (SysTickCount s) + Suc (length log))" by (intro mult_le_mono2) simp
  ultimately show ?thesis using inv unfolding run_inv_def by (auto intro: order_trans)
qed

lemma run_inv_slot:
  assumes ready: "sched_ready n s" and inv: "run_inv s log t" and len: "length log < n"
    and j: "j < Sys_task_max" and i: "i < Sys_task_max"
    and vet: "task_vet u = (task_vet t)[j := (task_vet t ! j)\<lparr>lastExecution := SysTickGetTime_us (tick t)\<rparr>]"
  shows "ptrFunc (task_vet u ! i) = ptrFunc (task_vet s ! i) \<and> dt_us (task_vet u ! i) = dt_us (task_vet s ! i) \<and>
    (if Some i \<in> set (log @ [Some j])
     then unat (dT_us s) * (unat (SysTickCount s) + 1) \<le> unat (lastExecution (task_vet u ! i)) \<and>
       unat (lastExecution (task_vet u ! i)) \<le> unat (dT_us s) * (unat (SysTickCount s) + length (log @ [Some j]))
     else lastExecution (task_vet u ! i) = lastExecution (task_vet s ! i))"
proof -
  let ?D = "unat (dT_us s)" and ?c = "unat (SysTickCount s)"
  have last: "unat (SysTickGetTime_us (tick t)) = ?D * (?c + length log + 1)"
    by (rule run_inv_time(3) [OF ready inv len])
  have le: "?D * (?c + 1) \<le> ?D * (?c + length log + 1)" "?D * (?c + length log) \<le> ?D * (?c + length log + 1)"
    by (intro mult_le_mono2, simp)+
  show ?thesis
  proof (cases "i = j")
    case True
    then show ?thesis using vet last le inv j by (simp add: run_inv_def)
  next
    case False
    then have "task_vet u ! i = task_vet t ! i" using vet by simp
    then show ?thesis using inv i False le(2) unfolding run_inv_def by (auto intro: order_trans)
  qed
qed

lemma run_inv_start:
  assumes ready: "sched_ready n s" and inv: "run_inv s log t" and len: "length log < n"
    and j: "j < Sys_task_max" "Some j \<notin> set log" and u: "sched_view u = sched_view (start_slot (tick t) j)"
  shows "run_inv s (log @ [Some j]) u"
proof -
  have u': "pause u = 0" "ptrSysTickISR u = Some IsrScheduler" "SysTickCount u = SysTickCount (tick t)"
    "dT_us u = dT_us s"
    "task_vet u = (task_vet t)[j := (task_vet t ! j)\<lparr>lastExecution := SysTickGetTime_us (tick t)\<rparr>]"
    using u inv by (simp_all add: sched_view_def start_slot_def run_inv_def)
      (simp_all add: tick_def SysTickGetTime_us_def)
  note slot = run_inv_slot [OF ready inv len j(1) _ u'(5)]
  have "length (task_vet u) = Sys_task_max" "distinct (filter (\<lambda>c. c \<noteq> None) (log @ [Some j]))"
    "\<forall>i. Some i \<in> set (log @ [Some j]) \<longrightarrow> i < Sys_task_max"
    "unat (SysTickCount u) = unat (SysTickCount s) + length (log @ [Some j])"
    using inv j u'(3,5) run_inv_time(1) [OF ready inv len] by (auto simp: run_inv_def)
  then show ?thesis unfolding run_inv_def using u'(1,2,4) slot by blast
qed

locale task_bodies =
  fixes call :: "c_func \<Rightarrow> u32 \<Rightarrow> 'a tasks_scheme \<Rightarrow> 'a tasks_scheme option"
  assumes keeps_scheduler: "call f a s = Some s' \<Longrightarrow> sched_view s' = sched_view s"
begin

lemma tick_step:
  assumes "SysTick_Handler (only_scheduler call) t = Some u"
    and "length (task_vet t) = Sys_task_max" "pause t = 0" "ptrSysTickISR t = Some IsrScheduler"
  shows "sched_view u = (case chosen (tick t) of
      None \<Rightarrow> sched_view (tick t) | Some j \<Rightarrow> sched_view (start_slot (tick t) j))"
proof -
  have "isrScheduler call (tick t) = Some u"
    using assms(1,4) by (simp add: SysTick_Handler_def only_scheduler_def tick_def Let_def)
  then have "(case chosen (tick t) of None \<Rightarrow> Some (tick t) | Some j \<Rightarrow> run_slot call (tick t) j) = Some u"
    using scheduler_loop_find [of 0 Sys_task_max "tick t" call] assms(2,3)
    by (simp add: isrScheduler_def chosen_def tick_def)
  then show ?thesis
    by (cases "chosen (tick t)") (auto simp: run_slot_def dest: keeps_scheduler)
qed

lemma run_inv_step:
  assumes ready: "sched_ready n s" and inv: "run_inv s log t" and len: "length log < n"
    and periods: "long_periods n s" and step: "SysTick_Handler (only_scheduler call) t = Some u"
  shows "run_inv s (log @ [chosen (tick t)]) u"
proof -
  have u: "sched_view u = (case chosen (tick t) of
      None \<Rightarrow> sched_view (tick t) | Some j \<Rightarrow> sched_view (start_slot (tick t) j))"
    using tick_step [OF step] inv by (simp add: run_inv_def)
  show ?thesis
  proof (cases "chosen (tick t)")
    case None
    then show ?thesis using run_inv_idle [OF ready inv len] u by simp
  next
    case (Some j)
    then have "j < Sys_task_max" "due (tick t) j"
      using find_chosen_bounds [of "due (tick t)"] by (auto simp: chosen_def)
    then show ?thesis
      using run_inv_due [OF ready inv len periods] run_inv_start [OF ready inv len] u Some by simp
  qed
qed

lemma run_inv_reachable:
  assumes "tick_run call s log t" "sched_ready n s" "long_periods n s" "length log \<le> n"
  shows "run_inv s log t"
  using assms
proof (induction rule: tick_run.induct)
  case tick_run_start
  then show ?case by (simp add: run_inv_def sched_ready_def)
next
  case (tick_run_tick log t u)
  then show ?case by (intro run_inv_step [of n]) simp_all
qed

text \<open>No task is started twice in a run shorter than the periods.\<close>

lemma started_once:
  assumes "tick_run call s log t" "sched_ready n s" "long_periods n s" "length log \<le> n"
  shows "distinct (filter (\<lambda>c. c \<noteq> None) log)"
  using run_inv_reachable [OF assms] by (simp add: run_inv_def)

end

end
