(* ===== verification/Message_Queue.thy ===== *)
theory Message_Queue
  imports Modbus_Frame
begin

text \<open>
  The queue of \<open>services/message_manager/message_manager.c\<close>: a ring of 15 slots linked by
  \<open>ptrNext\<close>, a head pointer and a length. Pointers to slots are their indices.
\<close>

section \<open>The code\<close>

record message_s =
  message :: i2c_modbus_s
  ptrNext :: nat

record msg_queue =
  Queue :: "message_s list"
  ptrQueue :: "nat option"
  message_queue_lenght :: int
  message_init :: int

text \<open>The static storage before \<open>message_Init\<close>: zeroed slots and a null head pointer.\<close>

definition queue_zero :: msg_queue where
  "queue_zero = \<lparr>Queue = replicate Sys_Modbus_Message_Queue_Size
       \<lparr>message = message_default, ptrNext = 0\<rparr>,
     ptrQueue = None, message_queue_lenght = 0, message_init = 0\<rparr>"

definition message_Init :: "msg_queue \<Rightarrow> msg_queue" where
  "message_Init q = q\<lparr>
     Queue := map (\<lambda>i. \<lparr>message = message_default,
                        ptrNext = (i + 1) mod Sys_Modbus_Message_Queue_Size\<rparr>)
                  [0..<Sys_Modbus_Message_Queue_Size],
     ptrQueue := Some 0, message_init := 1\<rparr>"

definition message_Delete :: "msg_queue \<Rightarrow> msg_queue" where
  "message_Delete q = q"

definition message_QueueLen :: "msg_queue \<Rightarrow> int" where
  "message_QueueLen q = 0"

definition message_QueueSize :: "msg_queue \<Rightarrow> int" where
  "message_QueueSize q = 0"

definition Message_QueueOverload :: int where "Message_QueueOverload = - 1"
definition Message_Fail :: int where "Message_Fail = 0"
definition Message_Ok :: int where "Message_Ok = 1"

text \<open>Following \<open>ptrNext\<close> a number of times.\<close>

primrec follow :: "message_s list \<Rightarrow> nat \<Rightarrow> nat \<Rightarrow> nat option" where
  "follow vet p 0 = Some p"
| "follow vet p (Suc n) = do { s \<leftarrow> arr_get vet p; follow vet (ptrNext s) n }"

definition set_message :: "nat \<Rightarrow> i2c_modbus_s \<Rightarrow> msg_queue \<Rightarrow> msg_queue option" where
  "set_message p m q = do {
     s \<leftarrow> arr_get (Queue q) p;
     vet \<leftarrow> arr_set (Queue q) p (s\<lparr>message := m\<rparr>);
     Some (q\<lparr>Queue := vet\<rparr>) }"

definition message_New :: "i2c_modbus_s \<Rightarrow> msg_queue \<Rightarrow> (int \<times> msg_queue) option" where
  "message_New newMessage q =
     (if message_init q = 0 then Some (0, q)
      else let len = message_queue_lenght q + 1 in
        if len = int Sys_Modbus_Message_Queue_Size
        then Some (Message_QueueOverload, q\<lparr>message_queue_lenght := len - 1\<rparr>)
        else do {
          p \<leftarrow> ptrQueue q;
          ptrAux \<leftarrow> follow (Queue q) p (nat len);
          q \<leftarrow> set_message ptrAux newMessage (q\<lparr>message_queue_lenght := len\<rparr>);
          Some (Message_Ok, q) })"

text \<open>
  The end of \<open>message_loop\<close>, as the three assignments it is: an interrupt can run a task that
  calls \<open>message_New\<close> between any two of them.
\<close>

definition pop_reset :: "msg_queue \<Rightarrow> msg_queue option" where
  "pop_reset q = do { p \<leftarrow> ptrQueue q; set_message p message_default q }"

definition pop_advance :: "msg_queue \<Rightarrow> msg_queue option" where
  "pop_advance q = do {
     p \<leftarrow> ptrQueue q; s \<leftarrow> arr_get (Queue q) p; Some (q\<lparr>ptrQueue := Some (ptrNext s)\<rparr>) }"

definition pop_shrink :: "msg_queue \<Rightarrow> msg_queue" where
  "pop_shrink q = (if message_queue_lenght q > 0
     then q\<lparr>message_queue_lenght := message_queue_lenght q - 1\<rparr> else q)"

definition message_pop :: "msg_queue \<Rightarrow> msg_queue option" where
  "message_pop q = do { q \<leftarrow> pop_reset q; q \<leftarrow> pop_advance q; Some (pop_shrink q) }"

section \<open>The interface of a queue\<close>

text \<open>
  A queue with a content: \<open>put\<close> appends while there is room, \<open>get\<close> removes the first element and
  leaves at least \<open>keep\<close> behind.
\<close>

datatype 'a queue_op = Put 'a | Get

text \<open>A run returns the accepted elements, the delivered elements and the final queue.\<close>

primrec queue_run ::
  "('a \<Rightarrow> 'q \<Rightarrow> 'q option) \<Rightarrow> ('q \<Rightarrow> ('a \<times> 'q) option) \<Rightarrow> 'a queue_op list \<Rightarrow> 'q \<Rightarrow> 'a list \<times> 'a list \<times> 'q"
where
  "queue_run put get [] q = ([], [], q)"
| "queue_run put get (op # ops) q =
     (case op of
        Put x \<Rightarrow> (case put x q of
           None \<Rightarrow> queue_run put get ops q
         | Some q' \<Rightarrow> (let (acc, del, q'') = queue_run put get ops q' in (x # acc, del, q'')))
      | Get \<Rightarrow> (case get q of
           None \<Rightarrow> queue_run put get ops q
         | Some (x, q') \<Rightarrow> (let (acc, del, q'') = queue_run put get ops q' in (acc, x # del, q''))))"

locale bounded_queue =
  fixes put :: "'a \<Rightarrow> 'q \<Rightarrow> 'q option"
    and get :: "'q \<Rightarrow> ('a \<times> 'q) option"
    and content :: "'q \<Rightarrow> 'a list"
    and inv :: "'q \<Rightarrow> bool"
    and cap :: nat and keep :: nat
  assumes put_some: "inv q \<Longrightarrow> put x q = Some q' \<Longrightarrow> inv q' \<and> content q' = content q @ [x]"
    and put_room: "inv q \<Longrightarrow> put x q = None \<longleftrightarrow> cap \<le> length (content q)"
    and get_some: "inv q \<Longrightarrow> get q = Some (x, q') \<Longrightarrow> inv q' \<and> content q = x # content q'"
    and get_none: "inv q \<Longrightarrow> get q = None \<longleftrightarrow> length (content q) \<le> keep"
begin

lemma run_in_order:
  "inv q \<Longrightarrow> queue_run put get ops q = (acc, del, q') \<Longrightarrow>
   inv q' \<and> content q @ acc = del @ content q'"
proof (induction ops arbitrary: q acc del)
  case Nil
  then show ?case by simp
next
  case (Cons op ops)
  show ?case
  proof (cases op)
    case (Put x)
    show ?thesis
    proof (cases "put x q")
      case None
      then show ?thesis using Cons Put by simp
    next
      case (Some q1)
      then obtain acc1 where run: "queue_run put get ops q1 = (acc1, del, q')" "acc = x # acc1"
        using Cons.prems(2) Put by (auto split: prod.splits)
      then show ?thesis using Cons.IH [OF _ run(1)] put_some [OF Cons.prems(1) Some] by auto
    qed
  next
    case Get
    show ?thesis
    proof (cases "get q")
      case None
      then show ?thesis using Cons Get by simp
    next
      case (Some xq)
      obtain x q1 where xq: "xq = (x, q1)" by (cases xq)
      then obtain del1 where run: "queue_run put get ops q1 = (acc, del1, q')" "del = x # del1"
        using Cons.prems(2) Get Some by (auto split: prod.splits)
      then show ?thesis using Cons.IH [OF _ run(1)] get_some [OF Cons.prems(1)] Some xq by auto
    qed
  qed
qed

lemma run_keeps:
  "inv q \<Longrightarrow> keep \<le> length (content q) \<Longrightarrow> queue_run put get ops q = (acc, del, q') \<Longrightarrow>
   keep \<le> length (content q')"
proof (induction ops arbitrary: q acc del)
  case Nil
  then show ?case by simp
next
  case (Cons op ops)
  show ?case
  proof (cases op)
    case (Put x)
    then show ?thesis
      using Cons put_some [OF Cons.prems(1), of x]
      by (cases "put x q") (auto split: prod.splits)
  next
    case Get
    show ?thesis
    proof (cases "get q")
      case None
      then show ?thesis using Cons Get by simp
    next
      case (Some xq)
      obtain x q1 where xq: "xq = (x, q1)" by (cases xq)
      then have "inv q1" "content q = x # content q1" using get_some Cons.prems(1) Some by blast+
      moreover have "keep < length (content q)"
        using get_none [OF Cons.prems(1)] Some by (simp add: not_le [symmetric])
      ultimately have "keep \<le> length (content q1)" by simp
      then show ?thesis
        using Cons.IH [OF \<open>inv q1\<close>] Cons.prems(3) Get Some xq by (auto split: prod.splits)
    qed
  qed
qed

end

section \<open>The ring implements the interface\<close>

definition inv_queue :: "msg_queue \<Rightarrow> bool" where
  "inv_queue q \<longleftrightarrow> length (Queue q) = 15 \<and> (\<forall>i<15. ptrNext (Queue q ! i) = (i + 1) mod 15) \<and>
     (\<exists>p<15. ptrQueue q = Some p) \<and> 0 \<le> message_queue_lenght q \<and> message_queue_lenght q \<le> 14 \<and>
     message_init q = 1"

definition head :: "msg_queue \<Rightarrow> nat" where "head q = the (ptrQueue q)"

definition slot :: "msg_queue \<Rightarrow> nat \<Rightarrow> i2c_modbus_s" where
  "slot q i = message (Queue q ! ((head q + i) mod 15))"

text \<open>The content starts at the head and has one element more than the length says.\<close>

definition queue_content :: "msg_queue \<Rightarrow> i2c_modbus_s list" where
  "queue_content q = map (slot q) [0..<nat (message_queue_lenght q) + 1]"

definition queue_put :: "i2c_modbus_s \<Rightarrow> msg_queue \<Rightarrow> msg_queue option" where
  "queue_put m q = (case message_New m q of
     Some (st, q') \<Rightarrow> if st = Message_Ok then Some q' else None
   | None \<Rightarrow> None)"

text \<open>What \<open>message_loop\<close> does to the queue: nothing when the length is zero, else it pops the head.\<close>

definition queue_get :: "msg_queue \<Rightarrow> (i2c_modbus_s \<times> msg_queue) option" where
  "queue_get q = (if message_queue_lenght q = 0 then None
     else do { q' \<leftarrow> message_pop q; Some (slot q 0, q') })"

lemma length_queue_content [simp]: "length (queue_content q) = nat (message_queue_lenght q) + 1"
  by (simp add: queue_content_def)

lemma inv_queueD:
  assumes "inv_queue q"
  shows "length (Queue q) = 15" "ptrQueue q = Some (head q)" "head q < 15"
    "0 \<le> message_queue_lenght q" "message_queue_lenght q \<le> 14" "message_init q = 1"
    "\<And>i. i < 15 \<Longrightarrow> ptrNext (Queue q ! i) = (i + 1) mod 15"
  using assms by (auto simp: inv_queue_def head_def)

lemma follow_ring:
  assumes "length vet = 15" "\<forall>i<15. ptrNext (vet ! i) = (i + 1) mod 15"
  shows "p < 15 \<Longrightarrow> follow vet p n = Some ((p + n) mod 15)"
proof (induction n arbitrary: p)
  case 0
  then show ?case by simp
next
  case (Suc n)
  then have "follow vet p (Suc n) = follow vet ((p + 1) mod 15) n"
    using assms by simp
  also have "\<dots> = Some (((p + 1) mod 15 + n) mod 15)"
    by (rule Suc.IH) simp
  finally show ?case by (simp add: mod_add_left_eq)
qed

lemma ring_inj: "p < 15 \<Longrightarrow> i < 15 \<Longrightarrow> j < 15 \<Longrightarrow> (p + i) mod 15 = (p + j) mod 15 \<longleftrightarrow> i = j"
  for p i j :: nat
  by (auto simp: mod_if split: if_splits)

lemma message_New_inv:
  assumes inv: "inv_queue q"
  shows "message_New m q =
    (if message_queue_lenght q = 14 then Some (Message_QueueOverload, q)
     else Some (Message_Ok, q\<lparr>message_queue_lenght := message_queue_lenght q + 1,
       Queue := (Queue q)[(head q + nat (message_queue_lenght q) + 1) mod 15 :=
         (Queue q ! ((head q + nat (message_queue_lenght q) + 1) mod 15))\<lparr>message := m\<rparr>]\<rparr>))"
proof -
  note D = inv_queueD [OF inv]
  have "nat (message_queue_lenght q + 1) = nat (message_queue_lenght q) + 1" using D(4) by simp
  then have "follow (Queue q) (head q) (nat (message_queue_lenght q + 1)) =
      Some ((head q + nat (message_queue_lenght q) + 1) mod 15)"
    using follow_ring [OF D(1) _ D(3), of "nat (message_queue_lenght q) + 1"] D(7)
    by (simp add: add.assoc del: follow.simps)
  then show ?thesis
    using D by (simp add: message_New_def Let_def Sys_Modbus_Message_Queue_Size_def set_message_def)
qed

lemma message_pop_inv:
  assumes inv: "inv_queue q"
  shows "message_pop q = Some (q\<lparr>
     Queue := (Queue q)[head q := (Queue q ! head q)\<lparr>message := message_default\<rparr>],
     ptrQueue := Some ((head q + 1) mod 15),
     message_queue_lenght := (if message_queue_lenght q > 0 then message_queue_lenght q - 1
                              else message_queue_lenght q)\<rparr>)"
  using inv_queueD [OF inv]
  by (simp add: message_pop_def pop_reset_def pop_advance_def pop_shrink_def set_message_def)

lemma queue_put_some:
  assumes inv: "inv_queue q" and put: "queue_put m q = Some q'"
  shows "inv_queue q' \<and> queue_content q' = queue_content q @ [m]"
proof
  note D = inv_queueD [OF inv]
  define n where "n = nat (message_queue_lenght q)"
  have n: "message_queue_lenght q = int n" "n < 14"
    using put D by (auto simp: n_def queue_put_def message_New_inv [OF inv]
        Message_QueueOverload_def Message_Ok_def split: if_splits)
  define k where "k = (head q + n + 1) mod 15"
  have q': "q' = q\<lparr>message_queue_lenght := int n + 1, Queue := (Queue q)[k := (Queue q ! k)\<lparr>message := m\<rparr>]\<rparr>"
    using put n by (simp add: queue_put_def message_New_inv [OF inv] k_def)
  show "inv_queue q'"
    using inv n by (cases "k < 15") (auto simp: inv_queue_def q' nth_list_update)
  have head: "head q' = head q" by (simp add: q' head_def)
  have "slot q' i = (if i = n + 1 then m else slot q i)" if "i \<le> n + 1" for i
  proof -
    have "(head q + i) mod 15 = k \<longleftrightarrow> i = n + 1"
      using ring_inj [OF D(3), of i "n + 1"] that n by (simp add: k_def)
    then show ?thesis
      using D(1) by (auto simp: slot_def head) (simp_all add: q' nth_list_update)
  qed
  then have "map (slot q') [0..<n + 1] = map (slot q) [0..<n + 1]" "slot q' (n + 1) = m"
    by auto
  moreover have "nat (message_queue_lenght q') = n + 1" by (simp add: q')
  ultimately show "queue_content q' = queue_content q @ [m]"
    by (simp add: queue_content_def n_def [symmetric])
qed

lemma queue_get_some:
  assumes inv: "inv_queue q" and get: "queue_get q = Some (x, q')"
  shows "inv_queue q' \<and> queue_content q = x # queue_content q'"
proof
  note D = inv_queueD [OF inv]
  have pos: "message_queue_lenght q > 0"
    using get D by (auto simp: queue_get_def split: if_splits)
  define n where "n = nat (message_queue_lenght q) - 1"
  have n: "message_queue_lenght q = int n + 1" "n < 14" using pos D by (simp_all add: n_def)
  have q': "q' = q\<lparr>Queue := (Queue q)[head q := (Queue q ! head q)\<lparr>message := message_default\<rparr>],
      ptrQueue := Some ((head q + 1) mod 15), message_queue_lenght := int n\<rparr>" and x: "x = slot q 0"
    using get n by (simp_all add: queue_get_def message_pop_inv [OF inv])
  show "inv_queue q'"
    using inv n D(3) by (auto simp: inv_queue_def q' nth_list_update)
  have "slot q' i = slot q (Suc i)" if "i \<le> n" for i
  proof -
    have "head q' = (head q + 1) mod 15" by (simp add: q' head_def)
    then have ix: "(head q' + i) mod 15 = (head q + Suc i) mod 15" by (simp add: mod_simps)
    have "(head q + Suc i) mod 15 \<noteq> head q"
      using ring_inj [OF D(3), of "Suc i" 0] that n D(3) by simp
    then show ?thesis
      unfolding slot_def ix using D(1) by (simp add: q' nth_list_update)
  qed
  then have "map (slot q') [0..<n + 1] = map (\<lambda>i. slot q (Suc i)) [0..<n + 1]" by auto
  also have "\<dots> = map (slot q) [1..<n + 2]"
    by (simp add: map_Suc_upt [symmetric] del: upt_Suc)
  finally have "queue_content q' = map (slot q) [1..<n + 2]"
    by (simp add: queue_content_def q')
  moreover have "queue_content q = slot q 0 # map (slot q) [1..<n + 2]"
    using n by (simp add: queue_content_def upt_conv_Cons nat_add_distrib del: upt_Suc)
  ultimately show "queue_content q = x # queue_content q'" by (simp add: x)
qed

interpretation ring: bounded_queue queue_put queue_get queue_content inv_queue 15 1
proof unfold_locales
  fix q q' x
  assume inv: "inv_queue q"
  note D = inv_queueD [OF inv]
  { assume "queue_put x q = Some q'"
    then show "inv_queue q' \<and> queue_content q' = queue_content q @ [x]"
      by (rule queue_put_some [OF inv]) }
  show "queue_put x q = None \<longleftrightarrow> 15 \<le> length (queue_content q)"
    using D by (auto simp: queue_put_def message_New_inv [OF inv] Message_QueueOverload_def
        Message_Ok_def)
  { assume "queue_get q = Some (x, q')"
    then show "inv_queue q' \<and> queue_content q = x # queue_content q'"
      by (rule queue_get_some [OF inv]) }
  show "queue_get q = None \<longleftrightarrow> length (queue_content q) \<le> 1"
    using D by (auto simp: queue_get_def message_pop_inv [OF inv])
qed

section \<open>Properties of the queue\<close>

lemma inv_message_Init [wf_intro]:
  "message_queue_lenght q = 0 \<Longrightarrow> inv_queue (message_Init q)"
  by (auto simp: inv_queue_def message_Init_def Sys_Modbus_Message_Queue_Size_def)

lemma content_message_Init:
  "message_queue_lenght q = 0 \<Longrightarrow> queue_content (message_Init q) = [message_default]"
  by (simp add: queue_content_def message_Init_def slot_def head_def
      Sys_Modbus_Message_Queue_Size_def)

text \<open>
  C12: from the initialised queue on, for every sequence of insertions and loop rounds, the messages
  processed are exactly the default message followed by the accepted messages in order, none
  lost or duplicated; but one message always stays behind: the newest accepted message is never
  processed before another one is accepted.
\<close>

theorem queue_in_order_one_behind:
  assumes "queue_run queue_put queue_get ops (message_Init queue_zero) = (accepted, processed, q)"
  shows "message_default # accepted = processed @ queue_content q \<and> queue_content q \<noteq> []"
proof -
  have inv: "inv_queue (message_Init queue_zero)"
    by (rule inv_message_Init) (simp add: queue_zero_def)
  have "queue_content (message_Init queue_zero) = [message_default]"
    by (rule content_message_Init) (simp add: queue_zero_def)
  with ring.run_in_order [OF inv assms] ring.run_keeps [OF inv _ assms] show ?thesis
    by (auto simp del: length_queue_content)
qed

definition sample_message :: i2c_modbus_s where
  "sample_message = message_default\<lparr>code := 0x11, size_head := 1\<rparr>"

text \<open>In the witness one message is queued and one round is run: the round processes the default.\<close>

lemma sample_run:
  "\<exists>q. queue_run queue_put queue_get [Put sample_message, Get] (message_Init queue_zero) =
     ([sample_message], [message_default], q)"
proof -
  have inv: "inv_queue (message_Init queue_zero)" (is "inv_queue ?q0")
    by (rule inv_message_Init) (simp add: queue_zero_def)
  have c0: "queue_content ?q0 = [message_default]"
    by (rule content_message_Init) (simp add: queue_zero_def)
  then obtain q1 where q1: "queue_put sample_message ?q0 = Some q1"
    using ring.put_room [OF inv, of sample_message] by auto
  with ring.put_some [OF inv q1] c0 have "inv_queue q1"
    and c1: "queue_content q1 = [message_default, sample_message]" by simp_all
  then obtain x q2 where q2: "queue_get q1 = Some (x, q2)"
    using ring.get_none [of q1] by (cases "queue_get q1") auto
  with ring.get_some [OF \<open>inv_queue q1\<close> q2] c1 show ?thesis by (simp add: q1)
qed

theorem queue_in_order_one_behind_witness:
  "\<exists>q. message_default # [sample_message] = [message_default] @ queue_content q \<and> queue_content q \<noteq> []"
  using sample_run queue_in_order_one_behind by blast

text \<open>
  Inserting a message into a well-formed queue is refused exactly when 14 insertions are
  pending, and then changes nothing; otherwise it is appended, and the invariant holds again.
\<close>

theorem message_New_outcome:
  assumes "inv_queue q"
  shows "(message_queue_lenght q = 14 \<longrightarrow> message_New m q = Some (Message_QueueOverload, q)) \<and>
    (message_queue_lenght q \<noteq> 14 \<longrightarrow> (\<exists>q'. message_New m q = Some (Message_Ok, q') \<and>
       inv_queue q' \<and> queue_content q' = queue_content q @ [m]))"
proof (intro conjI impI)
  assume "message_queue_lenght q = 14"
  then show "message_New m q = Some (Message_QueueOverload, q)"
    by (simp add: message_New_inv [OF assms])
next
  assume "message_queue_lenght q \<noteq> 14"
  then obtain q' where q': "message_New m q = Some (Message_Ok, q')"
    by (simp add: message_New_inv [OF assms])
  then have "queue_put m q = Some q'" by (simp add: queue_put_def)
  from queue_put_some [OF assms this] q' show "\<exists>q'. message_New m q = Some (Message_Ok, q') \<and>
       inv_queue q' \<and> queue_content q' = queue_content q @ [m]" by blast
qed

theorem message_New_outcome_witness:
  "\<exists>q'. message_New sample_message (message_Init queue_zero) = Some (Message_Ok, q') \<and>
     inv_queue q' \<and> queue_content q' = queue_content (message_Init queue_zero) @ [sample_message]"
  using message_New_outcome [OF inv_message_Init [of queue_zero], of sample_message]
  by (simp add: queue_zero_def message_Init_def)

section \<open>An insertion in the middle of a pop\<close>

definition race_pop :: "i2c_modbus_s \<Rightarrow> msg_queue \<Rightarrow> msg_queue option" where
  "race_pop m q = do {
     q \<leftarrow> pop_reset q;
     q \<leftarrow> pop_advance q;
     (st, q) \<leftarrow> message_New m q;
     Some (pop_shrink q) }"

lemma pop_half:
  assumes inv: "inv_queue q" and len: "message_queue_lenght q \<le> 13"
  shows "\<exists>q'. do { q \<leftarrow> pop_reset q; pop_advance q } = Some q' \<and> inv_queue q' \<and>
    message_queue_lenght q' = message_queue_lenght q \<and>
    queue_content q' = tl (queue_content q) @ [slot q (nat (message_queue_lenght q) + 1)]"
proof -
  note D = inv_queueD [OF inv]
  define n where "n = nat (message_queue_lenght q)"
  define q' where "q' = q\<lparr>Queue := (Queue q)[head q := (Queue q ! head q)\<lparr>message := message_default\<rparr>],
      ptrQueue := Some ((head q + 1) mod 15)\<rparr>"
  have "do { q \<leftarrow> pop_reset q; pop_advance q } = Some q'"
    using D by (simp add: pop_reset_def pop_advance_def set_message_def q'_def)
  moreover have "inv_queue q'"
    using inv D(3) by (auto simp: inv_queue_def q'_def nth_list_update)
  moreover have "slot q' i = slot q (Suc i)" if "i \<le> n" for i
  proof -
    have "head q' = (head q + 1) mod 15" by (simp add: q'_def head_def)
    then have ix: "(head q' + i) mod 15 = (head q + Suc i) mod 15" by (simp add: mod_simps)
    have "(head q + Suc i) mod 15 \<noteq> head q"
      using ring_inj [OF D(3), of "Suc i" 0] that len D(3) by (simp add: n_def)
    then show ?thesis
      unfolding slot_def ix using D(1) by (simp add: q'_def nth_list_update)
  qed
  then have slots: "map (slot q') [0..<n + 1] = map (\<lambda>i. slot q (Suc i)) [0..<n + 1]" by auto
  have "queue_content q' = tl (queue_content q) @ [slot q (n + 1)]"
  proof -
    have "queue_content q' = map (slot q) [1..<n + 2]"
      using slots by (simp add: queue_content_def q'_def n_def map_Suc_upt [symmetric] del: upt_Suc)
    also have "\<dots> = map (slot q) [1..<n + 1] @ [slot q (n + 1)]" by simp
    also have "map (slot q) [1..<n + 1] = tl (queue_content q)"
      by (simp add: queue_content_def n_def upt_conv_Cons del: upt_Suc)
    finally show ?thesis .
  qed
  ultimately show ?thesis by (intro exI [of _ q']) (simp add: n_def q'_def)
qed

lemma content_shrink:
  "0 < message_queue_lenght q \<Longrightarrow> queue_content (pop_shrink q) = butlast (queue_content q)"
proof -
  assume pos: "0 < message_queue_lenght q"
  define n where "n = nat (message_queue_lenght q) - 1"
  have n: "nat (message_queue_lenght q) = Suc n" "nat (message_queue_lenght q - 1) = n"
    using pos by (simp_all add: n_def)
  have "slot (pop_shrink q) = slot q" by (simp add: fun_eq_iff slot_def head_def pop_shrink_def)
  then show ?thesis
    using pos n by (simp add: queue_content_def butlast_append) (simp add: pop_shrink_def)
qed

lemma inv_shrink: "inv_queue q \<Longrightarrow> inv_queue (pop_shrink q)"
  by (auto simp: inv_queue_def pop_shrink_def)

text \<open>
  A task that runs from an interrupt between the advance of the head and the decrement of the
  length, and queues a message, loses it: the slot it is written to lies past the content, a stale
  slot takes its place, and the next insertion overwrites it.
\<close>

theorem insertion_during_pop_is_lost:
  assumes "inv_queue q" "0 < message_queue_lenght q" "message_queue_lenght q \<le> 13"
  shows "\<exists>q1 q2. race_pop m q = Some q1 \<and> message_New m' q1 = Some (Message_Ok, q2) \<and>
    queue_content q1 = tl (queue_content q) @ [slot q (nat (message_queue_lenght q) + 1)] \<and>
    queue_content q2 = queue_content q1 @ [m']"
proof -
  from pop_half [OF assms(1,3)] obtain qa where
    qa: "do { q \<leftarrow> pop_reset q; pop_advance q } = Some qa" "inv_queue qa"
      "message_queue_lenght qa = message_queue_lenght q"
      "queue_content qa = tl (queue_content q) @ [slot q (nat (message_queue_lenght q) + 1)]"
    by blast
  have "message_queue_lenght qa \<noteq> 14" using qa(3) assms(3) by simp
  then obtain qb where qb: "message_New m qa = Some (Message_Ok, qb)" "message_queue_lenght qb = message_queue_lenght q + 1"
    by (simp add: message_New_inv [OF qa(2)] qa(3))
  then have put: "queue_put m qa = Some qb" by (simp add: queue_put_def)
  note b = queue_put_some [OF qa(2) put]
  define q1 where "q1 = pop_shrink qb"
  have c1: "queue_content q1 = queue_content qa"
    using content_shrink [of qb] b qb(2) assms(2) by (simp add: q1_def)
  have "inv_queue q1" using b by (simp add: q1_def inv_shrink)
  moreover have len: "message_queue_lenght q1 \<noteq> 14"
    using qb(2) assms by (simp add: q1_def pop_shrink_def)
  ultimately obtain q2 where q2: "message_New m' q1 = Some (Message_Ok, q2)"
    by (simp add: message_New_inv)
  then have "queue_put m' q1 = Some q2" by (simp add: queue_put_def)
  from queue_put_some [OF \<open>inv_queue q1\<close> this] have "queue_content q2 = queue_content q1 @ [m']"
    by blast
  moreover have "race_pop m q = Some q1"
    using qa(1) qb(1) by (simp add: race_pop_def q1_def bind_eq_Some_conv) blast?
  ultimately show ?thesis using q2 c1 qa(4) by (intro exI [of _ q1] exI [of _ q2]) simp
qed

theorem insertion_during_pop_is_lost_witness:
  "\<exists>q q1 q2. message_New sample_message (message_Init queue_zero) = Some (Message_Ok, q) \<and>
    race_pop sample_message q = Some q1 \<and>
    message_New message_default q1 = Some (Message_Ok, q2) \<and>
    queue_content q1 = tl (queue_content q) @ [slot q (nat (message_queue_lenght q) + 1)] \<and>
    queue_content q2 = queue_content q1 @ [message_default]"
proof -
  have inv: "inv_queue (message_Init queue_zero)"
    by (rule inv_message_Init) (simp add: queue_zero_def)
  moreover have "message_queue_lenght (message_Init queue_zero) \<noteq> 14"
    by (simp add: message_Init_def queue_zero_def)
  ultimately obtain q where q: "message_New sample_message (message_Init queue_zero) = Some (Message_Ok, q)"
    and len: "message_queue_lenght q = 1"
    by (simp add: message_New_inv) (simp add: message_Init_def queue_zero_def)
  then have "queue_put sample_message (message_Init queue_zero) = Some q"
    by (simp add: queue_put_def)
  then have "inv_queue q" using queue_put_some [OF inv] by blast
  from insertion_during_pop_is_lost [OF this, of sample_message message_default] q len
  show ?thesis by auto
qed

end
