(* ===== verification/Device.thy ===== *)
theory Device
  imports Task Message_Queue
begin

text \<open>
  The state the services share: the peripherals and the scheduler's table, extended by the register
  banks (\<open>reg_vet\<close>, \<open>change_flag\<close>) and the queue of waiting messages. Operations of those two
  components are lifted to it.
\<close>

record device = tasks +
  regs :: reg_state
  mq :: msg_queue

text \<open>Running an operation of the register banks, or a read of them, on the device.\<close>

definition on_regs :: "(reg_state \<Rightarrow> reg_state option) \<Rightarrow> 'a device_scheme \<Rightarrow> 'a device_scheme option" where
  "on_regs f s = do { r \<leftarrow> f (regs s); Some (s\<lparr>regs := r\<rparr>) }"

definition new_message :: "i2c_modbus_s \<Rightarrow> 'a device_scheme \<Rightarrow> (int \<times> 'a device_scheme) option" where
  "new_message m s = do { (st, q) \<leftarrow> message_New m (mq s); Some (st, s\<lparr>mq := q\<rparr>) }"

text \<open>The \<open>int\<close> at a pointer into the banks; only the ints are aligned.\<close>

definition int_slot :: "reg_pointer \<Rightarrow> nat option" where
  "int_slot p = (case p of NULL \<Rightarrow> None
     | Reg_Vet off \<Rightarrow> if 272 \<le> off \<and> (off - 272) mod 4 = 0 \<and> (off - 272) div 4 < Sys_RegMap_Nreg_Int_tot
                     then Some ((off - 272) div 4) else None)"

definition load_int :: "reg_pointer \<Rightarrow> reg_state \<Rightarrow> i32 option" where
  "load_int p r = do { i \<leftarrow> int_slot p; arr_get (int_reg_vet r) i }"

definition store_int :: "reg_pointer \<Rightarrow> i32 \<Rightarrow> reg_state \<Rightarrow> reg_state option" where
  "store_int p v r = do { i \<leftarrow> int_slot p; vet \<leftarrow> arr_set (int_reg_vet r) i v; Some (r\<lparr>int_reg_vet := vet\<rparr>) }"

lemma int_slot_reg [simp]:
  "i < Sys_RegMap_Nreg_Int_tot \<Longrightarrow> int_slot (Reg_Vet (272 + 4 * i)) = Some i"
  by (simp add: int_slot_def)

lemma on_regs_eq_Some: "on_regs f s = Some t \<longleftrightarrow> (\<exists>r. f (regs s) = Some r \<and> t = s\<lparr>regs := r\<rparr>)"
  by (auto simp: on_regs_def Option.bind_eq_Some_conv)

definition device_zero :: device where
  "device_zero = tasks.extend task_zero \<lparr>regs = reg_zero, mq = queue_zero\<rparr>"

lemma device_zero_fields [simp]: "regs device_zero = reg_zero" "mq device_zero = queue_zero"
  by (simp_all add: device_zero_def tasks.defs task_zero_def i2c.defs i2c_zero_def interrupt.defs int_zero_def
      adc.defs adc_zero_def gpio.defs gpio_zero_def)

end
