(* ===== verification/Iap.thy ===== *)
theory Iap
  imports Device
begin

text \<open>
  \<open>lib/repo/core/drivers/iap/fsl_iap.c\<close>: the calls of the boot ROM that the flash driver makes, for
  this device's features (flash functions, fixed reference clock, no reinvoke pointer). The ROM
  itself is not part of the repository: it is a parameter, a function of the five command words, of
  the bytes at the RAM address of the second word and of the flash with the ROM's own state, to the
  result words and the flash after it.
\<close>

record nvm =
  flash_mem :: "u8 list"
  rom_state :: nat

type_synonym iap_rom = "u32 list \<Rightarrow> u8 list \<Rightarrow> nvm \<Rightarrow> u32 list \<times> nvm"

record iap = device +
  nvm :: nvm

definition kIapCmd_PrepareSectorforWrite :: u32 where "kIapCmd_PrepareSectorforWrite = 50"
definition kIapCmd_CopyRamToFlash :: u32 where "kIapCmd_CopyRamToFlash = 51"
definition kIapCmd_EraseSector :: u32 where "kIapCmd_EraseSector = 52"
definition kIapCmd_BlankCheckSector :: u32 where "kIapCmd_BlankCheckSector = 53"
definition kIapCmd_ReadPartId :: u32 where "kIapCmd_ReadPartId = 54"
definition kIapCmd_Read_BootromVersion :: u32 where "kIapCmd_Read_BootromVersion = 55"
definition kIapCmd_Compare :: u32 where "kIapCmd_Compare = 56"
definition kIapCmd_ReinvokeISP :: u32 where "kIapCmd_ReinvokeISP = 57"
definition kIapCmd_ReadUid :: u32 where "kIapCmd_ReadUid = 58"
definition kIapCmd_ErasePage :: u32 where "kIapCmd_ErasePage = 59"

definition translate_iap_status :: "u32 \<Rightarrow> u32" where
  "translate_iap_status status = (if status \<noteq> 0 then 102 * 100 + status else status)"

text \<open>The result array starts as five zeros and the ROM overwrites a front part of it.\<close>

definition iap_result :: "u32 list \<Rightarrow> u32 list" where
  "iap_result ws = take 5 (ws @ drop (length ws) (replicate 5 0))"

definition iap_entry_no_disable_irq ::
  "iap_rom \<Rightarrow> u32 list \<Rightarrow> u8 list \<Rightarrow> 'a iap_scheme \<Rightarrow> u32 list \<times> 'a iap_scheme" where
  "iap_entry_no_disable_irq rom cmd src s =
     (case rom cmd src (nvm s) of (ws, n) \<Rightarrow> (iap_result ws, s\<lparr>nvm := n\<rparr>))"

definition iap_entry ::
  "iap_rom \<Rightarrow> u32 list \<Rightarrow> u8 list \<Rightarrow> 'a iap_scheme \<Rightarrow> u32 list \<times> 'a iap_scheme" where
  "iap_entry rom cmd src s =
     (case iap_entry_no_disable_irq rom cmd src (disable_irq s) of (res, s) \<Rightarrow> (res, enable_irq s))"

text \<open>A call whose only result is its status.\<close>

definition iap_status ::
  "iap_rom \<Rightarrow> u32 list \<Rightarrow> u8 list \<Rightarrow> 'a iap_scheme \<Rightarrow> u32 \<times> 'a iap_scheme" where
  "iap_status rom cmd src s =
     (case iap_entry rom cmd src s of (res, s) \<Rightarrow> (translate_iap_status (res ! 0), s))"

definition IAP_ReadPartID :: "iap_rom \<Rightarrow> 'a iap_scheme \<Rightarrow> u32 \<times> u32 \<times> 'a iap_scheme" where
  "IAP_ReadPartID rom s =
     (case iap_entry rom [kIapCmd_ReadPartId, 0, 0, 0, 0] [] s of (res, s) \<Rightarrow>
        (translate_iap_status (res ! 0), res ! 1, s))"

definition IAP_ReadBootCodeVersion :: "iap_rom \<Rightarrow> 'a iap_scheme \<Rightarrow> u32 \<times> u32 list \<times> 'a iap_scheme" where
  "IAP_ReadBootCodeVersion rom s =
     (case iap_entry rom [kIapCmd_Read_BootromVersion, 0, 0, 0, 0] [] s of (res, s) \<Rightarrow>
        (translate_iap_status (res ! 0), [res ! 1, res ! 2], s))"

definition IAP_ReinvokeISP :: "iap_rom \<Rightarrow> u8 \<Rightarrow> 'a iap_scheme \<Rightarrow> u32 \<times> 'a iap_scheme" where
  "IAP_ReinvokeISP rom ispType s =
     (case iap_entry_no_disable_irq rom [kIapCmd_ReinvokeISP, ucast ispType, 0, 0, 0] [] s of (res, s) \<Rightarrow>
        (translate_iap_status (res ! 0), s))"

definition IAP_ReadUniqueID :: "iap_rom \<Rightarrow> 'a iap_scheme \<Rightarrow> u32 \<times> u32 list \<times> 'a iap_scheme" where
  "IAP_ReadUniqueID rom s =
     (case iap_entry rom [kIapCmd_ReadUid, 0, 0, 0, 0] [] s of (res, s) \<Rightarrow>
        (translate_iap_status (res ! 0), [res ! 1, res ! 2, res ! 3, res ! 4], s))"

definition IAP_PrepareSectorForWrite :: "iap_rom \<Rightarrow> u32 \<Rightarrow> u32 \<Rightarrow> 'a iap_scheme \<Rightarrow> u32 \<times> 'a iap_scheme" where
  "IAP_PrepareSectorForWrite rom startSector endSector s =
     iap_status rom [kIapCmd_PrepareSectorforWrite, startSector, endSector, 0, 0] [] s"

text \<open>The copy also gets the bytes at its source address.\<close>

definition IAP_CopyRamToFlash ::
  "iap_rom \<Rightarrow> u32 \<Rightarrow> u32 \<Rightarrow> u8 list \<Rightarrow> u32 \<Rightarrow> 'a iap_scheme \<Rightarrow> u32 \<times> 'a iap_scheme" where
  "IAP_CopyRamToFlash rom dstAddr srcAddr src numOfBytes s =
     iap_status rom [kIapCmd_CopyRamToFlash, dstAddr, srcAddr, numOfBytes, 0] src s"

definition IAP_EraseSector :: "iap_rom \<Rightarrow> u32 \<Rightarrow> u32 \<Rightarrow> 'a iap_scheme \<Rightarrow> u32 \<times> 'a iap_scheme" where
  "IAP_EraseSector rom startSector endSector s =
     iap_status rom [kIapCmd_EraseSector, startSector, endSector, 0, 0] [] s"

definition IAP_ErasePage :: "iap_rom \<Rightarrow> u32 \<Rightarrow> u32 \<Rightarrow> 'a iap_scheme \<Rightarrow> u32 \<times> 'a iap_scheme" where
  "IAP_ErasePage rom startPage endPage s =
     iap_status rom [kIapCmd_ErasePage, startPage, endPage, 0, 0] [] s"

definition IAP_BlankCheckSector :: "iap_rom \<Rightarrow> u32 \<Rightarrow> u32 \<Rightarrow> 'a iap_scheme \<Rightarrow> u32 \<times> 'a iap_scheme" where
  "IAP_BlankCheckSector rom startSector endSector s =
     iap_status rom [kIapCmd_BlankCheckSector, startSector, endSector, 0, 0] [] s"

definition IAP_Compare ::
  "iap_rom \<Rightarrow> u32 \<Rightarrow> u32 \<Rightarrow> u8 list \<Rightarrow> u32 \<Rightarrow> 'a iap_scheme \<Rightarrow> u32 \<times> 'a iap_scheme" where
  "IAP_Compare rom dstAddr srcAddr src numOfBytes s =
     iap_status rom [kIapCmd_Compare, dstAddr, srcAddr, numOfBytes, 0] src s"

lemma iap_status_nvm:
  "nvm (snd (iap_status rom cmd src s)) = snd (rom cmd src (nvm s))"
  by (simp add: iap_status_def iap_entry_def iap_entry_no_disable_irq_def disable_irq_def enable_irq_def
      split: prod.splits)

end
