(* ===== verification/Flash_Memory.thy ===== *)
theory Flash_Memory
  imports Iap
begin

text \<open>
  \<open>drivers/flash_memory/flash_memory.c\<close>, the part the configuration selects (\<open>__EEPROM_MEM__\<close>): a
  copy of the flash area in RAM that is written byte by byte and committed page by page. The other
  half of the file refers to an array that is commented out and does not compile. An address of the
  flash is a byte index into \<open>flash_mem\<close>; reading outside the flash, or a half word or word at an
  unaligned address (a fault on this core), is \<^term>\<open>None\<close>.
\<close>

section \<open>The code\<close>

definition FlashFail :: u8 where "FlashFail = 0"
definition FlashOK :: u8 where "FlashOK = 1"

definition EEPROM_FLASH_SIZE :: u32 where "EEPROM_FLASH_SIZE = 0x380"
definition eeprom_flash_sector :: u32 where "eeprom_flash_sector = 30"
definition eeprom_flash_page :: u32 where "eeprom_flash_page = 480"
definition eeprom_flash_end_sector :: u32 where "eeprom_flash_end_sector = 0"
definition eeprom_flash_end_page :: u32 where "eeprom_flash_end_page = 1"
definition eeprom_flash_page_num :: nat where "eeprom_flash_page_num = 14"
definition eeprom_flash_first_addr :: u32 where "eeprom_flash_first_addr = 0x7800"
definition FLASH_PAGE_SIZE_BYTES :: u32 where "FLASH_PAGE_SIZE_BYTES = 64"

text \<open>\<open>vet_addr\<close> is where the linker put the RAM copy.\<close>

record flash = iap +
  eeprom_on :: u8
  eeprom_flash_Vet :: "u8 list"
  vet_addr :: u32

definition eeprom_ReadChar :: "u32 \<Rightarrow> 'a flash_scheme \<Rightarrow> u8 option" where
  "eeprom_ReadChar ad s = arr_get (flash_mem (nvm s)) (unat (ad + eeprom_flash_first_addr))"

definition eeprom_Begin :: "'a flash_scheme \<Rightarrow> 'a flash_scheme option" where
  "eeprom_Begin s =
     (if eeprom_on s \<noteq> 0 then Some s
      else do {
        s \<leftarrow> for_loop 0 (unat EEPROM_FLASH_SIZE) (\<lambda>i s. do {
          v \<leftarrow> eeprom_ReadChar (of_nat i) s;
          vet \<leftarrow> arr_set (eeprom_flash_Vet s) i v;
          Some (s\<lparr>eeprom_flash_Vet := vet\<rparr>) }) s;
        Some (s\<lparr>eeprom_on := 1\<rparr>) })"

definition eeprom_ReadVet :: "u16 \<Rightarrow> u32 \<Rightarrow> 'a flash_scheme \<Rightarrow> (u8 list \<times> u8) option" where
  "eeprom_ReadVet len addrInit s = (
     let a = unat (addrInit + eeprom_flash_first_addr) in
     if a + unat len \<le> length (flash_mem (nvm s))
     then Some (take (unat len) (drop a (flash_mem (nvm s))), FlashOK) else None)"

definition eeprom_ReadShort :: "u32 \<Rightarrow> 'a flash_scheme \<Rightarrow> u16 option" where
  "eeprom_ReadShort ad s = (
     let a = unat (ad + eeprom_flash_first_addr) in
     if a mod 2 \<noteq> 0 then None
     else do {
       b0 \<leftarrow> arr_get (flash_mem (nvm s)) a;
       b1 \<leftarrow> arr_get (flash_mem (nvm s)) (a + 1);
       Some (of_le16 b0 b1) })"

definition eeprom_ReadInt :: "u32 \<Rightarrow> 'a flash_scheme \<Rightarrow> u32 option" where
  "eeprom_ReadInt ad s = (
     let a = unat (ad + eeprom_flash_first_addr) in
     if a mod 4 \<noteq> 0 then None
     else do {
       b0 \<leftarrow> arr_get (flash_mem (nvm s)) a;
       b1 \<leftarrow> arr_get (flash_mem (nvm s)) (a + 1);
       b2 \<leftarrow> arr_get (flash_mem (nvm s)) (a + 2);
       b3 \<leftarrow> arr_get (flash_mem (nvm s)) (a + 3);
       Some (of_le32 b0 b1 b2 b3) })"

text \<open>The guards add in 32 bits and can wrap.\<close>

definition eeprom_WriteVet :: "u8 list \<Rightarrow> u16 \<Rightarrow> u32 \<Rightarrow> 'a flash_scheme \<Rightarrow> (u8 \<times> 'a flash_scheme) option" where
  "eeprom_WriteVet vet len addrInit s =
     (if EEPROM_FLASH_SIZE < addrInit + ucast len then Some (FlashFail, s)
      else do {
        s \<leftarrow> for_loop 0 (unat len) (\<lambda>i s. do {
          v \<leftarrow> arr_get vet i;
          new \<leftarrow> arr_set (eeprom_flash_Vet s) (unat (of_nat i + addrInit)) v;
          Some (s\<lparr>eeprom_flash_Vet := new\<rparr>) }) s;
        Some (FlashOK, s) })"

definition eeprom_WriteChar :: "u8 \<Rightarrow> u32 \<Rightarrow> 'a flash_scheme \<Rightarrow> (u8 \<times> 'a flash_scheme) option" where
  "eeprom_WriteChar value ad s =
     (if ad < EEPROM_FLASH_SIZE
      then do {
        new \<leftarrow> arr_set (eeprom_flash_Vet s) (unat ad) value;
        Some (FlashOK, s\<lparr>eeprom_flash_Vet := new\<rparr>) }
      else Some (FlashFail, s))"

text \<open>The bytes of a value, low byte first; the result of each byte is ignored.\<close>

definition write_bytes :: "nat \<Rightarrow> u32 \<Rightarrow> u32 \<Rightarrow> 'a flash_scheme \<Rightarrow> 'a flash_scheme option" where
  "write_bytes n value ad s = for_loop 0 n (\<lambda>i s. do {
     (st, s) \<leftarrow> eeprom_WriteChar (ucast (drop_bit (8 * i) value)) (ad + of_nat i) s;
     Some s }) s"

definition eeprom_WriteShort :: "u16 \<Rightarrow> u32 \<Rightarrow> 'a flash_scheme \<Rightarrow> (u8 \<times> 'a flash_scheme) option" where
  "eeprom_WriteShort value ad s =
     (if ad + 1 < EEPROM_FLASH_SIZE
      then do { s \<leftarrow> write_bytes 2 (ucast value) ad s; Some (FlashOK, s) }
      else Some (FlashFail, s))"

definition eeprom_WriteInt :: "u32 \<Rightarrow> u32 \<Rightarrow> 'a flash_scheme \<Rightarrow> (u8 \<times> 'a flash_scheme) option" where
  "eeprom_WriteInt value ad s =
     (if ad + 3 < EEPROM_FLASH_SIZE
      then do { s \<leftarrow> write_bytes 4 value ad s; Some (FlashOK, s) }
      else Some (FlashFail, s))"

text \<open>Does the RAM copy differ from the flash?\<close>

primrec commit_test :: "nat \<Rightarrow> nat \<Rightarrow> 'a flash_scheme \<Rightarrow> bool option" where
  "commit_test 0 i s = Some False"
| "commit_test (Suc n) i s = do {
     v \<leftarrow> arr_get (eeprom_flash_Vet s) i;
     w \<leftarrow> eeprom_ReadChar (of_nat i) s;
     if v \<noteq> w then Some True else commit_test n (Suc i) s }"

text \<open>One page: the sectors are prepared again, then the page is copied.\<close>

definition commit_page :: "iap_rom \<Rightarrow> nat \<Rightarrow> 'a flash_scheme \<Rightarrow> 'a flash_scheme option" where
  "commit_page rom i s = (
     let (st, s) = IAP_PrepareSectorForWrite rom eeprom_flash_sector eeprom_flash_end_sector s;
         (st, s) = IAP_CopyRamToFlash rom (eeprom_flash_first_addr + FLASH_PAGE_SIZE_BYTES * of_nat i)
                     (vet_addr s + FLASH_PAGE_SIZE_BYTES * of_nat i)
                     (take 64 (drop (64 * i) (eeprom_flash_Vet s))) FLASH_PAGE_SIZE_BYTES s
     in Some s)"

definition eeprom_Commit :: "iap_rom \<Rightarrow> 'a flash_scheme \<Rightarrow> (u8 \<times> 'a flash_scheme) option" where
  "eeprom_Commit rom s = do {
     test \<leftarrow> commit_test (unat EEPROM_FLASH_SIZE) 0 s;
     if \<not> test then Some (FlashOK, s)
     else do {
       let (st, s) = IAP_PrepareSectorForWrite rom eeprom_flash_sector eeprom_flash_end_sector s;
       let (st, s) = IAP_ErasePage rom eeprom_flash_page eeprom_flash_end_page s;
       s \<leftarrow> for_loop 0 eeprom_flash_page_num (commit_page rom) s;
       Some (FlashOK, s) } }"

definition eeprom_Reset :: "iap_rom \<Rightarrow> 'a flash_scheme \<Rightarrow> (u8 \<times> 'a flash_scheme) option" where
  "eeprom_Reset rom s = do {
     s \<leftarrow> for_loop 0 (unat EEPROM_FLASH_SIZE) (\<lambda>i s. do {
       vet \<leftarrow> arr_set (eeprom_flash_Vet s) i 0xFF;
       Some (s\<lparr>eeprom_flash_Vet := vet\<rparr>) }) s;
     (st, s) \<leftarrow> eeprom_Commit rom s;
     Some (FlashOK, s) }"

section \<open>Loading and filling the copy\<close>

definition wf_flash :: "'a flash_scheme \<Rightarrow> bool" where
  "wf_flash s \<longleftrightarrow> length (flash_mem (nvm s)) = 32640 \<and> length (eeprom_flash_Vet s) = 0x380"

text \<open>The part of the flash the copy stands for.\<close>

definition flash_area :: "'a flash_scheme \<Rightarrow> u8 list" where
  "flash_area s = take 0x380 (drop 0x7800 (flash_mem (nvm s)))"

lemma length_flash_area [simp]: "wf_flash s \<Longrightarrow> length (flash_area s) = 0x380"
  by (simp add: wf_flash_def flash_area_def)

lemma eeprom_ReadChar_area:
  assumes "wf_flash s" "i < 0x380"
  shows "eeprom_ReadChar (of_nat i) s = Some (flash_area s ! i)"
proof -
  have "unat (of_nat i + 0x7800 :: u32) = i + 0x7800"
    using assms(2) by (subst unat_add_lem [THEN iffD1]) (simp_all add: unat_of_nat)
  then show ?thesis
    using assms by (simp add: eeprom_ReadChar_def eeprom_flash_first_addr_def wf_flash_def flash_area_def add.commute)
qed

text \<open>A loop that stores one value after the other fills the copy.\<close>

lemma fill_copy:
  assumes "length (eeprom_flash_Vet s) = 0x380" "length xs = 0x380"
    and "\<And>j vet. j < 0x380 \<Longrightarrow> length vet = 0x380 \<Longrightarrow>
      f j (s\<lparr>eeprom_flash_Vet := vet\<rparr>) = Some (s\<lparr>eeprom_flash_Vet := vet[j := xs ! j]\<rparr>)"
  shows "for_loop 0 0x380 f s = Some (s\<lparr>eeprom_flash_Vet := xs\<rparr>)"
proof -
  define P where "P = (\<lambda>i t. t = s\<lparr>eeprom_flash_Vet := take i xs @ drop i (eeprom_flash_Vet s)\<rparr>)"
  have "\<exists>t. for_loop 0 0x380 f s = Some t \<and> P (0 + 0x380) t"
  proof (rule for_loop_total)
    fix j t assume j: "j < 0 + 0x380" and t: "P j t"
    have "(take j xs @ drop j (eeprom_flash_Vet s))[j := xs ! j] =
        take (Suc j) xs @ drop (Suc j) (eeprom_flash_Vet s)"
      using j assms(1,2) by (simp add: list_update_append take_Suc_conv_app_nth flip: Cons_nth_drop_Suc)
    then show "\<exists>t'. f j t = Some t' \<and> P (Suc j) t'"
      using assms(3) [of j "take j xs @ drop j (eeprom_flash_Vet s)"] j t assms(1,2) by (simp add: P_def)
  qed (simp add: P_def)
  then show ?thesis using assms(1,2) by (auto simp: P_def)
qed

lemma eeprom_Begin_eq:
  assumes "wf_flash s"
  shows "eeprom_Begin s =
    Some (if eeprom_on s \<noteq> 0 then s else s\<lparr>eeprom_flash_Vet := flash_area s, eeprom_on := 1\<rparr>)"
proof (cases "eeprom_on s = 0")
  case True
  have "eeprom_ReadChar (of_nat j) (s\<lparr>eeprom_flash_Vet := vet\<rparr>) = Some (flash_area s ! j)" if "j < 0x380" for j vet
    using eeprom_ReadChar_area [OF assms that] by (simp add: eeprom_ReadChar_def)
  then have "for_loop 0 0x380 (\<lambda>i s. do {
          v \<leftarrow> eeprom_ReadChar (of_nat i) s;
          vet \<leftarrow> arr_set (eeprom_flash_Vet s) i v;
          Some (s\<lparr>eeprom_flash_Vet := vet\<rparr>) }) s = Some (s\<lparr>eeprom_flash_Vet := flash_area s\<rparr>)"
    using assms by (intro fill_copy) (simp_all add: wf_flash_def flash_area_def)
  then show ?thesis using True by (simp add: eeprom_Begin_def EEPROM_FLASH_SIZE_def)
qed (simp add: eeprom_Begin_def)

lemma reset_fill:
  assumes "wf_flash s"
  shows "for_loop 0 0x380 (\<lambda>i s. do {
       vet \<leftarrow> arr_set (eeprom_flash_Vet s) i 0xFF;
       Some (s\<lparr>eeprom_flash_Vet := vet\<rparr>) }) s = Some (s\<lparr>eeprom_flash_Vet := replicate 0x380 0xFF\<rparr>)"
  using assms by (intro fill_copy) (simp_all add: wf_flash_def)

section \<open>Writing the copy\<close>

lemma eeprom_WriteChar_in [simp]:
  "length (eeprom_flash_Vet s) = 0x380 \<Longrightarrow> unat ad < 0x380 \<Longrightarrow>
   eeprom_WriteChar v ad s = Some (FlashOK, s\<lparr>eeprom_flash_Vet := (eeprom_flash_Vet s)[unat ad := v]\<rparr>)"
  by (simp add: eeprom_WriteChar_def EEPROM_FLASH_SIZE_def word_less_nat_alt)

lemma for_loop_2: "for_loop i 2 f s = do { s \<leftarrow> f i s; f (Suc i) s }"
  by (simp add: numeral_2_eq_2)

lemma write_bytes_2:
  assumes "length (eeprom_flash_Vet s) = 0x380" "unat ad + 1 < 0x380"
  shows "write_bytes 2 v ad s = Some (s\<lparr>eeprom_flash_Vet :=
    (eeprom_flash_Vet s)[unat ad := ucast v, unat ad + 1 := ucast (drop_bit 8 v)]\<rparr>)"
proof -
  have "unat (ad + 1) = unat ad + 1"
    using assms(2) by (subst unat_add_lem [THEN iffD1]) simp_all
  then show ?thesis using assms by (simp add: write_bytes_def numeral_eq_Suc)
qed

lemma write_bytes_4:
  assumes "length (eeprom_flash_Vet s) = 0x380" "unat ad + 3 < 0x380"
  shows "write_bytes 4 v ad s = Some (s\<lparr>eeprom_flash_Vet :=
    (eeprom_flash_Vet s)[unat ad := ucast v, unat ad + 1 := ucast (drop_bit 8 v),
      unat ad + 2 := ucast (drop_bit 16 v), unat ad + 3 := ucast (drop_bit 24 v)]\<rparr>)"
proof -
  have k: "unat (ad + of_nat k) = unat ad + k" if "k < 4" for k
    using assms(2) that by (subst unat_add_lem [THEN iffD1]) (simp_all add: unat_of_nat)
  have "unat (ad + 1) = unat ad + 1" "unat (ad + 2) = unat ad + 2" "unat (ad + 3) = unat ad + 3"
    using k [of 1] k [of 2] k [of 3] by simp_all
  moreover have "(4::nat) = Suc (Suc (Suc (Suc 0)))" by simp
  ultimately show ?thesis using assms by (simp add: write_bytes_def eval_nat_numeral)
qed

lemma unat_minus_one_u32: "unat (- 1 :: u32) = 4294967295"
  by (simp add: unsigned_minus_1_eq_mask mask_eq_exp_minus_1)

lemma minus_one_word_plus: "ad = (- 1 :: u32) \<longleftrightarrow> ad + 1 = 0"
  by (metis add.commute add_eq_0_iff)

text \<open>
  Writing a half word inside the copy stores its two bytes, low byte first, and nothing else;
  outside it the copy is unchanged and the result is a failure, except at the address -1, where the
  guard wraps: the write reports success and stores only the high byte, at address 0.
\<close>

theorem write_short_outcome:
  assumes "length (eeprom_flash_Vet s) = 0x380"
  shows "eeprom_WriteShort v ad s =
    (if unat ad + 1 < 0x380
     then Some (FlashOK, s\<lparr>eeprom_flash_Vet :=
            (eeprom_flash_Vet s)[unat ad := ucast v, unat ad + 1 := ucast (drop_bit 8 v)]\<rparr>)
     else if ad = - 1
     then Some (FlashOK, s\<lparr>eeprom_flash_Vet := (eeprom_flash_Vet s)[0 := ucast (drop_bit 8 v)]\<rparr>)
     else Some (FlashFail, s))"
proof -
  have lo: "(ucast (ucast v :: u32) :: u8) = ucast v" by (rule bit_eqI) (auto simp: bit_simps)
  have hi: "(ucast (drop_bit 8 (ucast v :: u32)) :: u8) = ucast (drop_bit 8 v)"
    by (rule bit_eqI) (auto simp: bit_simps)
  consider (inside) "unat ad + 1 < 0x380" | (wrap) "ad = - 1" | (outside) "0x380 \<le> unat ad + 1" "ad \<noteq> - 1"
    by linarith
  then show ?thesis
  proof cases
    case inside
    then have "unat (ad + 1) = unat ad + 1" by (subst unat_add_lem [THEN iffD1]) simp_all
    then show ?thesis
      using inside write_bytes_2 [OF assms inside] lo hi
      by (simp add: eeprom_WriteShort_def EEPROM_FLASH_SIZE_def word_less_nat_alt)
  next
    case wrap
    have "write_bytes 2 (ucast v) (- 1) s =
        Some (s\<lparr>eeprom_flash_Vet := (eeprom_flash_Vet s)[0 := ucast (drop_bit 8 v)]\<rparr>)"
      using assms hi
      by (simp add: write_bytes_def for_loop_2 eeprom_WriteChar_def EEPROM_FLASH_SIZE_def)
    then show ?thesis
      using wrap by (simp add: eeprom_WriteShort_def EEPROM_FLASH_SIZE_def unat_minus_one_u32)
  next
    case outside
    then have "unat (ad + 1) = unat ad + 1"
      by (metis minus_one_word_plus unatSuc add.commute Suc_eq_plus1)
    then show ?thesis
      using outside by (simp add: eeprom_WriteShort_def EEPROM_FLASH_SIZE_def word_less_nat_alt)
  qed
qed

definition flash_zero :: flash where
  "flash_zero = iap.extend (device.extend device_zero
       \<lparr>nvm = \<lparr>flash_mem = replicate 32640 0, rom_state = 0\<rparr>\<rparr>)
     \<lparr>eeprom_on = 0, eeprom_flash_Vet = replicate 0x380 0, vet_addr = 0x10000200\<rparr>"

lemma flash_zero_fields [simp]:
  "nvm flash_zero = \<lparr>flash_mem = replicate 32640 0, rom_state = 0\<rparr>"
  "eeprom_flash_Vet flash_zero = replicate 0x380 0" "eeprom_on flash_zero = 0" "regs flash_zero = reg_zero"
  by (simp_all add: flash_zero_def iap.defs device.defs device_zero_def tasks.defs task_zero_def i2c.defs
      i2c_zero_def interrupt.defs int_zero_def adc.defs adc_zero_def gpio.defs gpio_zero_def)

theorem write_short_outcome_witness:
  "eeprom_WriteShort 0x1234 (- 1) flash_zero =
     Some (FlashOK, flash_zero\<lparr>eeprom_flash_Vet := (replicate 0x380 0)[0 := 0x12]\<rparr>)"
  by (subst write_short_outcome) (simp_all add: unat_minus_one_u32)

text \<open>
  C28: a word written at an aligned address inside the copy is what a read of that address returns
  once the flash holds the copy.
\<close>

theorem word_round_trip:
  assumes "wf_flash s" "unat ad + 3 < 0x380" "unat ad mod 4 = 0"
  shows "\<exists>u. eeprom_WriteInt v ad s = Some (FlashOK, u) \<and>
    (\<forall>t :: 'b flash_scheme. wf_flash t \<and> flash_area t = eeprom_flash_Vet u \<longrightarrow> eeprom_ReadInt ad t = Some v)"
proof -
  define a where "a = unat ad"
  have a: "a + 3 < 0x380" "a mod 4 = 0" using assms(2,3) by (simp_all add: a_def)
  have len: "length (eeprom_flash_Vet s) = 0x380" using assms(1) by (simp add: wf_flash_def)
  have "unat (ad + 3) = unat ad + 3" using assms(2) by (subst unat_add_lem [THEN iffD1]) simp_all
  then have w: "eeprom_WriteInt v ad s = Some (FlashOK, s\<lparr>eeprom_flash_Vet :=
      (eeprom_flash_Vet s)[a := ucast v, a + 1 := ucast (drop_bit 8 v),
        a + 2 := ucast (drop_bit 16 v), a + 3 := ucast (drop_bit 24 v)]\<rparr>)"
    using assms(2) write_bytes_4 [OF len assms(2)]
    by (simp add: eeprom_WriteInt_def EEPROM_FLASH_SIZE_def word_less_nat_alt a_def)
  have "eeprom_ReadInt ad t = Some v" if t: "wf_flash t" and area: "flash_area t = (eeprom_flash_Vet s)[a := ucast v, a + 1 := ucast (drop_bit 8 v),
        a + 2 := ucast (drop_bit 16 v), a + 3 := ucast (drop_bit 24 v)]" for t :: "'b flash_scheme"
  proof -
    have at: "flash_mem (nvm t) ! (0x7800 + a + k) = flash_area t ! (a + k)" if "k < 4" for k
      using that a t by (simp add: flash_area_def wf_flash_def add.assoc)
    have "unat (ad + 0x7800) = 0x7800 + a"
      using a by (subst unat_add_lem [THEN iffD1]) (simp_all add: a_def)
    moreover have "(0x7800 + a) mod 4 = 0" using a(2) by presburger
    ultimately have "eeprom_ReadInt ad t = Some (of_le32 (flash_area t ! a) (flash_area t ! (a + 1))
        (flash_area t ! (a + 2)) (flash_area t ! (a + 3)))"
      using a t at [of 0] at [of 1] at [of 2] at [of 3]
      by (simp add: eeprom_ReadInt_def eeprom_flash_first_addr_def wf_flash_def Let_def)
    also have "\<dots> = Some v"
      using a len by (simp add: area of_le32_le32)
    finally show ?thesis .
  qed
  then show ?thesis using w by auto
qed

theorem word_round_trip_witness:
  "\<exists>u. eeprom_WriteInt 0xDEADBEEF 12 flash_zero = Some (FlashOK, u) \<and>
    (\<forall>t :: flash. wf_flash t \<and> flash_area t = eeprom_flash_Vet u \<longrightarrow> eeprom_ReadInt 12 t = Some 0xDEADBEEF)"
  by (rule word_round_trip) (simp_all add: wf_flash_def)

section \<open>The commit\<close>

text \<open>
  What the documentation of the ROM says of the three commands: a range of sectors or pages whose
  end is before its start is refused and nothing is prepared or erased; a copy into sectors that are
  not prepared is refused. \<open>prepared\<close> says of the ROM's state that some sector is prepared.
\<close>

definition rom_refuses :: "iap_rom \<Rightarrow> (nvm \<Rightarrow> bool) \<Rightarrow> bool" where
  "rom_refuses rom prepared \<longleftrightarrow>
     (\<forall>a b src n. b < a \<longrightarrow>
        flash_mem (snd (rom [kIapCmd_PrepareSectorforWrite, a, b, 0, 0] src n)) = flash_mem n \<and>
        (prepared (snd (rom [kIapCmd_PrepareSectorforWrite, a, b, 0, 0] src n)) \<longrightarrow> prepared n)) \<and>
     (\<forall>a b src n. b < a \<longrightarrow>
        flash_mem (snd (rom [kIapCmd_ErasePage, a, b, 0, 0] src n)) = flash_mem n \<and>
        (prepared (snd (rom [kIapCmd_ErasePage, a, b, 0, 0] src n)) \<longrightarrow> prepared n)) \<and>
     (\<forall>d a k src n. \<not> prepared n \<longrightarrow>
        flash_mem (snd (rom [kIapCmd_CopyRamToFlash, d, a, k, 0] src n)) = flash_mem n \<and>
        \<not> prepared (snd (rom [kIapCmd_CopyRamToFlash, d, a, k, 0] src n)))"

lemma iap_status_frame:
  "iap_status rom cmd src s = (st, t) \<Longrightarrow>
   nvm t = snd (rom cmd src (nvm s)) \<and> flash.more t = flash.more s \<and>
   eeprom_flash_Vet t = eeprom_flash_Vet s \<and> eeprom_on t = eeprom_on s \<and> regs t = regs s"
  by (auto simp: iap_status_def iap_entry_def iap_entry_no_disable_irq_def disable_irq_def enable_irq_def
      split: prod.splits)

definition same_flash :: "(nvm \<Rightarrow> bool) \<Rightarrow> 'a flash_scheme \<Rightarrow> 'a flash_scheme \<Rightarrow> bool" where
  "same_flash prepared s t \<longleftrightarrow> flash_mem (nvm t) = flash_mem (nvm s) \<and> \<not> prepared (nvm t) \<and>
     eeprom_flash_Vet t = eeprom_flash_Vet s \<and> eeprom_on t = eeprom_on s \<and> regs t = regs s"

lemma rom_refuses_range:
  fixes rom :: iap_rom
  assumes "rom_refuses rom prepared" "b < a"
  shows "flash_mem (snd (rom [kIapCmd_PrepareSectorforWrite, a, b, 0, 0] src n)) = flash_mem n"
    "prepared (snd (rom [kIapCmd_PrepareSectorforWrite, a, b, 0, 0] src n)) \<Longrightarrow> prepared n"
    "flash_mem (snd (rom [kIapCmd_ErasePage, a, b, 0, 0] src n)) = flash_mem n"
    "prepared (snd (rom [kIapCmd_ErasePage, a, b, 0, 0] src n)) \<Longrightarrow> prepared n"
  using assms unfolding rom_refuses_def by blast+

lemma refused_prepare:
  assumes "rom_refuses rom prepared" "same_flash prepared s t"
    and "IAP_PrepareSectorForWrite rom eeprom_flash_sector eeprom_flash_end_sector t = (st, u)"
  shows "same_flash prepared s u"
proof -
  have "eeprom_flash_end_sector < eeprom_flash_sector"
    by (simp add: eeprom_flash_end_sector_def eeprom_flash_sector_def)
  note refuse = rom_refuses_range [OF assms(1) this]
  show ?thesis
    using assms(2) iap_status_frame [OF assms(3) [unfolded IAP_PrepareSectorForWrite_def]]
      refuse(1,2) [of "[]" "nvm t"]
    by (auto simp: same_flash_def)
qed

lemma refused_erase:
  assumes "rom_refuses rom prepared" "same_flash prepared s t"
    and "IAP_ErasePage rom eeprom_flash_page eeprom_flash_end_page t = (st, u)"
  shows "same_flash prepared s u"
proof -
  have "eeprom_flash_end_page < eeprom_flash_page"
    by (simp add: eeprom_flash_end_page_def eeprom_flash_page_def)
  note refuse = rom_refuses_range [OF assms(1) this]
  show ?thesis
    using assms(2) iap_status_frame [OF assms(3) [unfolded IAP_ErasePage_def]]
      refuse(3,4) [of "[]" "nvm t"]
    by (auto simp: same_flash_def)
qed

lemma refused_copy:
  assumes "rom_refuses rom prepared" "same_flash prepared s t"
    and "IAP_CopyRamToFlash rom d a src k t = (st, u)"
  shows "same_flash prepared s u"
  using assms(1,2) iap_status_frame [OF assms(3) [unfolded IAP_CopyRamToFlash_def]]
  by (simp add: same_flash_def rom_refuses_def)

lemma refused_page:
  assumes "rom_refuses rom prepared" "same_flash prepared s t"
  shows "\<exists>u. commit_page rom i t = Some u \<and> same_flash prepared s u"
proof -
  obtain st1 t1 where p: "IAP_PrepareSectorForWrite rom eeprom_flash_sector eeprom_flash_end_sector t = (st1, t1)"
    by fastforce
  obtain st2 t2 where c: "IAP_CopyRamToFlash rom (eeprom_flash_first_addr + FLASH_PAGE_SIZE_BYTES * of_nat i)
      (vet_addr t1 + FLASH_PAGE_SIZE_BYTES * of_nat i) (take 64 (drop (64 * i) (eeprom_flash_Vet t1)))
      FLASH_PAGE_SIZE_BYTES t1 = (st2, t2)" by fastforce
  have "commit_page rom i t = Some t2" using p c by (simp add: commit_page_def Let_def)
  then show ?thesis using refused_copy [OF assms(1) refused_prepare [OF assms p] c] by simp
qed

lemma commit_test_eq:
  assumes "wf_flash s" "i + n = 0x380"
  shows "commit_test n i s = Some (drop i (eeprom_flash_Vet s) \<noteq> drop i (flash_area s))"
  using assms(2)
proof (induction n arbitrary: i)
  case 0
  then show ?case using assms(1) by (simp add: wf_flash_def)
next
  case (Suc n)
  then have i: "i < 0x380" "Suc i + n = 0x380" by simp_all
  have "drop i xs = xs ! i # drop (Suc i) xs" if "length xs = 0x380" for xs :: "u8 list"
    using i that by (simp add: Cons_nth_drop_Suc)
  then show ?case
    using Suc.IH [OF i(2)] eeprom_ReadChar_area [OF assms(1) i(1)] i assms(1)
    by (auto simp: wf_flash_def)
qed

lemma commit_refused:
  assumes "wf_flash s" "rom_refuses rom prepared" "same_flash prepared s0 s"
  shows "\<exists>t. eeprom_Commit rom s = Some (FlashOK, t) \<and> same_flash prepared s0 t"
proof (cases "eeprom_flash_Vet s = flash_area s")
  case True
  then show ?thesis
    using commit_test_eq [OF assms(1), of 0 896] assms(3) by (simp add: eeprom_Commit_def EEPROM_FLASH_SIZE_def)
next
  case False
  obtain st1 t1 where p: "IAP_PrepareSectorForWrite rom eeprom_flash_sector eeprom_flash_end_sector s = (st1, t1)"
    by fastforce
  obtain st2 t2 where e: "IAP_ErasePage rom eeprom_flash_page eeprom_flash_end_page t1 = (st2, t2)" by fastforce
  have t2: "same_flash prepared s0 t2"
    by (rule refused_erase [OF assms(2) refused_prepare [OF assms(2,3) p] e])
  have "\<exists>t. for_loop 0 eeprom_flash_page_num (commit_page rom) t2 = Some t \<and> same_flash prepared s0 t"
    by (rule for_loop_total [where P = "\<lambda>i t. same_flash prepared s0 t"])
      (use t2 refused_page [OF assms(2)] in auto)
  then obtain t where "for_loop 0 eeprom_flash_page_num (commit_page rom) t2 = Some t" "same_flash prepared s0 t"
    by blast
  then show ?thesis
    using commit_test_eq [OF assms(1), of 0 896] False p e
    by (simp add: eeprom_Commit_def EEPROM_FLASH_SIZE_def Let_def)
qed

text \<open>
  C29: a commit always reports success. It does not call the ROM when the copy equals the flash; when
  they differ it asks for sectors 30 to 0 and pages 480 to 1, so that a ROM that refuses ranges with
  the end before the start, and copies into unprepared sectors, leaves the flash as it was.
\<close>

theorem commit_never_reaches_the_flash:
  assumes "wf_flash s" "rom_refuses rom prepared" "\<not> prepared (nvm s)"
  shows "\<exists>t. eeprom_Commit rom s = Some (FlashOK, t) \<and> flash_mem (nvm t) = flash_mem (nvm s) \<and>
    eeprom_flash_Vet t = eeprom_flash_Vet s \<and>
    (eeprom_flash_Vet s = flash_area s \<longrightarrow> t = s)"
proof -
  have "same_flash prepared s s" using assms(3) by (simp add: same_flash_def)
  from commit_refused [OF assms(1,2) this] obtain t where
    t: "eeprom_Commit rom s = Some (FlashOK, t)" "same_flash prepared s t" by blast
  have "t = s" if "eeprom_flash_Vet s = flash_area s"
    using t(1) commit_test_eq [OF assms(1), of 0 896] that
    by (simp add: eeprom_Commit_def EEPROM_FLASH_SIZE_def)
  then show ?thesis using t by (auto simp: same_flash_def)
qed

text \<open>A ROM that refuses what the documentation says and copies pages otherwise.\<close>

definition sample_rom :: iap_rom where
  "sample_rom cmd src n =
     (if cmd ! 0 = kIapCmd_PrepareSectorforWrite
      then if cmd ! 2 < cmd ! 1 then ([7], n) else ([0], n\<lparr>rom_state := 1\<rparr>)
      else if cmd ! 0 = kIapCmd_ErasePage
      then if cmd ! 2 < cmd ! 1 \<or> rom_state n = 0 then ([7], n)
           else ([0], n\<lparr>flash_mem := replicate 32640 0xFF, rom_state := 0\<rparr>)
      else if cmd ! 0 = kIapCmd_CopyRamToFlash
      then if rom_state n = 0 then ([9], n)
           else ([0], n\<lparr>flash_mem := take (unat (cmd ! 1)) (flash_mem n) @ src @
                   drop (unat (cmd ! 1) + length src) (flash_mem n), rom_state := 0\<rparr>)
      else ([1], n))"

lemma sample_rom_refuses: "rom_refuses sample_rom (\<lambda>n. rom_state n \<noteq> 0)"
  by (simp add: rom_refuses_def sample_rom_def kIapCmd_PrepareSectorforWrite_def kIapCmd_ErasePage_def
      kIapCmd_CopyRamToFlash_def)

theorem commit_never_reaches_the_flash_witness:
  "\<exists>t. eeprom_Commit sample_rom (flash_zero\<lparr>eeprom_flash_Vet := replicate 0x380 0xFF\<rparr>) = Some (FlashOK, t) \<and>
    flash_mem (nvm t) = replicate 32640 0 \<and> eeprom_flash_Vet t = replicate 0x380 0xFF"
  using commit_never_reaches_the_flash [OF _ sample_rom_refuses,
      of "flash_zero\<lparr>eeprom_flash_Vet := replicate 0x380 0xFF\<rparr>"]
  by (auto simp: wf_flash_def)

end
