(* ===== verification/Flash_Map.thy ===== *)
theory Flash_Map
  imports Flash_Memory
begin

text \<open>
  \<open>app/flash_map.c\<close>: the factory values of the registers as they lie in flash, their checks and copy,
  and \<open>reg_Begin\<close> of the registers manager, which chooses between the stored and the factory values
  at power-up. The address of the image is the linker's and a parameter.
\<close>

section \<open>The image\<close>

record nv_payload_t =
  bools :: "u8 list"
  shorts :: "i16 list"
  ints :: "i32 list"

record nv_image_t =
  magic :: u32
  version :: u16
  nv_length :: u16
  crc32 :: u32
  data :: nv_payload_t

definition sizeof_nv_payload :: nat where
  "sizeof_nv_payload = Sys_RegMap_Nreg_Bool_tot div 8 + 2 * Sys_RegMap_Nreg_Short_tot + 4 * Sys_RegMap_Nreg_Int_tot"

text \<open>The values listed in an initialiser, the rest zero.\<close>

definition pad :: "nat \<Rightarrow> 'a :: zero list \<Rightarrow> 'a list" where
  "pad n xs = xs @ replicate (n - length xs) 0"

definition nv_defaults_shorts :: "i16 list" where
  "nv_defaults_shorts =
     [Sys_equip_code, Sys_firmware_version_major, Sys_firmware_version_minor,
      Sys_firmware_version_patch, 0xFF, 0xFF, 0xFF] @
     replicate 16 0 @ replicate 16 0 @
     replicate 8 0 @
     [0b0000111111111111, 0xFFFF, 0xFFFF, 0xFFFF, 0xFFFF, 0xFFFF, 0b1111111000000000, 0] @
     [0b0111111111101111, 0b1000111111111000, 0b1111111110001111, 0b1110000000000000, 0, 0, 0, 0] @
     replicate 8 0 @
     [0b1100000000000000, 0, 0, 0, 0, 0, 0, 0] @
     replicate 8 0 @
     [0b1111111111111110, 0b0111110000000111, 0b0000111000000000, 0, 0, 0, 0, 0] @
     [0x03]"

definition nv_defaults_ints :: "i32 list" where
  "nv_defaults_ints =
     [of_nat Sys_timestamp_min,
      0, 0, 0,  0, 0, 0,  0, 0, 0,  0, 0, 0,  0,
      2, 100000, 0,
      4500, 200, 1, 1, 1, 5000, 0, 20000, 0,
      4000, 200, 1, 1, 1, 5000, 0, 20000, 0,
      34, 10000, 0, 4000,
      30000, 0] @ replicate 10 Sys_schedulers_default"

definition nv_defaults :: nv_image_t where
  "nv_defaults = \<lparr>magic = 0x4E563030, version = 1, nv_length = of_nat sizeof_nv_payload, crc32 = 0,
     data = \<lparr>bools = pad (Sys_RegMap_Nreg_Bool_tot div 8) [0],
             shorts = pad Sys_RegMap_Nreg_Short_tot nv_defaults_shorts,
             ints = pad Sys_RegMap_Nreg_Int_tot nv_defaults_ints\<rparr>\<rparr>"

text \<open>The check and copy into the RAM instance \<open>nv\<close>.\<close>

definition nv_load_defaults :: "nv_image_t \<Rightarrow> nv_payload_t \<Rightarrow> int \<times> nv_payload_t" where
  "nv_load_defaults img nv =
     (if magic img \<noteq> 0x4E563030 then (- 1, nv)
      else if nv_length img \<noteq> of_nat sizeof_nv_payload then (- 2, nv)
      else (0, data img))"

definition nv_flash_addr_bools :: "u32 \<Rightarrow> u32" where "nv_flash_addr_bools base = base + 12"
definition nv_flash_addr_shorts :: "u32 \<Rightarrow> u32" where "nv_flash_addr_shorts base = base + 12 + 16"
definition nv_flash_addr_ints :: "u32 \<Rightarrow> u32" where "nv_flash_addr_ints base = base + 12 + 16 + 256"

definition nv_size_bools :: nat where "nv_size_bools = (Sys_RegMap_Nreg_Bool_tot div 8) div 8"
definition nv_size_shorts :: nat where "nv_size_shorts = 2 * Sys_RegMap_Nreg_Short_tot"
definition nv_size_ints :: nat where "nv_size_ints = 4 * Sys_RegMap_Nreg_Int_tot"

definition payload_bytes :: "nv_payload_t \<Rightarrow> u8 list" where
  "payload_bytes p = bools p @ short_bytes (shorts p) @ int_bytes (ints p)"

section \<open>Power-up\<close>

definition reg_Begin :: "iap_rom \<Rightarrow> 'a flash_scheme \<Rightarrow> 'a flash_scheme option" where
  "reg_Begin rom s = do {
     s \<leftarrow> eeprom_Begin s;
     (bs, st) \<leftarrow> eeprom_ReadVet (ucast reg_mem_size) 0 s;
     let s = s\<lparr>regs := reg_load bs (regs s)\<rparr>;
     model \<leftarrow> arr_get (short_reg_vet (regs s)) (nat (Sys_RegMap_GetIndex Sys_RegMap_Model));
     if model = Sys_equip_code then Some s
     else do {
       let s = s\<lparr>regs := reg_load (payload_bytes (data nv_defaults)) (regs s)\<rparr>;
       (st, s) \<leftarrow> eeprom_Reset rom s;
       (st, s) \<leftarrow> eeprom_Commit rom s;
       Some s } }"

section \<open>The factory values\<close>

lemma defaults_lengths [simp]:
  "length (bools (data nv_defaults)) = 16" "length (shorts (data nv_defaults)) = 128"
  "length (ints (data nv_defaults)) = 128"
  by (simp_all add: nv_defaults_def pad_def nv_defaults_shorts_def nv_defaults_ints_def regmap)

lemma length_payload [simp]: "length (payload_bytes (data nv_defaults)) = 784"
  by (simp add: payload_bytes_def)

lemma reg_load_payload:
  assumes "length (bools p) = 16" "length (shorts p) = 128" "length (ints p) = 128"
  shows "reg_load (payload_bytes p) r =
    r\<lparr>bool_reg_vet := bools p, short_reg_vet := shorts p, int_reg_vet := ints p\<rparr>"
  using assms by (simp add: reg_load_def payload_bytes_def)

lemma pad_nth: "i < length xs \<Longrightarrow> pad n xs ! i = xs ! i"
  by (simp add: pad_def nth_append)

lemma length_default_lists: "length nv_defaults_shorts = 96" "length nv_defaults_ints = 51"
  by (simp_all add: nv_defaults_shorts_def nv_defaults_ints_def)

lemma short_default: "i < 96 \<Longrightarrow> shorts (data nv_defaults) ! i = nv_defaults_shorts ! i"
  by (simp add: nv_defaults_def pad_nth length_default_lists)

lemma int_default: "i < 51 \<Longrightarrow> ints (data nv_defaults) ! i = nv_defaults_ints ! i"
  by (simp add: nv_defaults_def pad_nth length_default_lists)

text \<open>
  The factory image fits the register banks exactly, its check accepts it, and the values stand
  in the registers the comments name: the model code, the mode, the temperature references, the
  recirculation time, no error and ten copies of the default schedule.
\<close>

theorem factory_image:
  "length (payload_bytes (data nv_defaults)) = unat reg_mem_size \<and>
   unat reg_mem_size = Sys_RegMap_Total_Bytes \<and>
   nv_load_defaults nv_defaults nv = (0, data nv_defaults) \<and>
   shorts (data nv_defaults) ! nat (Sys_RegMap_GetIndex Sys_RegMap_Model) = Sys_equip_code \<and>
   shorts (data nv_defaults) ! nat (Sys_RegMap_GetIndex Sys_RegMap_GTM) = 3 \<and>
   ints (data nv_defaults) ! nat (Sys_RegMap_GetIndex Sys_RegMap_Timestamp) = of_nat Sys_timestamp_min \<and>
   ints (data nv_defaults) ! nat (Sys_RegMap_GetIndex Sys_RegMap_Errors) = Sys_ERROR_NO \<and>
   ints (data nv_defaults) ! nat (Sys_RegMap_GetIndex Sys_RegMap_S1_Temp_Ref) = 4500 \<and>
   ints (data nv_defaults) ! nat (Sys_RegMap_GetIndex Sys_RegMap_S2_Temp_Ref) = 4000 \<and>
   ints (data nv_defaults) ! nat (Sys_RegMap_GetIndex Sys_RegMap_Current_Resistor) = 34 \<and>
   ints (data nv_defaults) ! nat (Sys_RegMap_GetIndex Sys_RegMap_Time_Recirculation) = 30000 \<and>
   take 10 (drop (nat (Sys_RegMap_GetIndex Sys_RegMap_Schedules_0)) (ints (data nv_defaults))) =
     replicate 10 Sys_schedulers_default"
proof -
  have s: "shorts (data nv_defaults) ! nat (Sys_RegMap_GetIndex Sys_RegMap_Model) = Sys_equip_code"
    "shorts (data nv_defaults) ! nat (Sys_RegMap_GetIndex Sys_RegMap_GTM) = 3"
    by (simp_all add: regmap Sys_RegMap_GetIndex_def short_default)
      (simp_all add: nv_defaults_shorts_def nth_append regmap)
  have i: "ints (data nv_defaults) ! nat (Sys_RegMap_GetIndex Sys_RegMap_Timestamp) = of_nat Sys_timestamp_min"
    "ints (data nv_defaults) ! nat (Sys_RegMap_GetIndex Sys_RegMap_Errors) = Sys_ERROR_NO"
    "ints (data nv_defaults) ! nat (Sys_RegMap_GetIndex Sys_RegMap_S1_Temp_Ref) = 4500"
    "ints (data nv_defaults) ! nat (Sys_RegMap_GetIndex Sys_RegMap_S2_Temp_Ref) = 4000"
    "ints (data nv_defaults) ! nat (Sys_RegMap_GetIndex Sys_RegMap_Current_Resistor) = 34"
    "ints (data nv_defaults) ! nat (Sys_RegMap_GetIndex Sys_RegMap_Time_Recirculation) = 30000"
    by (simp_all add: regmap Sys_RegMap_GetIndex_def int_default)
      (simp_all add: nv_defaults_ints_def nth_append regmap)
  have sched: "take 10 (drop 41 (ints (data nv_defaults))) = replicate 10 Sys_schedulers_default"
    by (simp add: nv_defaults_def pad_def nv_defaults_ints_def regmap)
  have "nat (Sys_RegMap_GetIndex Sys_RegMap_Schedules_0) = 41"
    by (simp add: regmap Sys_RegMap_GetIndex_def)
  moreover have "nv_load_defaults nv_defaults nv = (0, data nv_defaults)"
    by (simp add: nv_load_defaults_def nv_defaults_def)
  ultimately show ?thesis
    using s i sched by (simp add: reg_mem_size_def Sys_RegMap_Total_Bytes_def regmap)
qed

section \<open>What power-up leaves\<close>

definition stored_model :: "'a flash_scheme \<Rightarrow> i16" where
  "stored_model s = of_le16 (flash_mem (nvm s) ! 0x7810) (flash_mem (nvm s) ! 0x7811)"

text \<open>The bytes of the flash that a start reads into the banks.\<close>

definition stored_image :: "'a flash_scheme \<Rightarrow> u8 list" where
  "stored_image s = take 784 (drop 0x7800 (flash_mem (nvm s)))"

lemma eeprom_ReadVet_image:
  assumes "wf_flash s"
  shows "eeprom_ReadVet (ucast reg_mem_size) 0 s = Some (stored_image s, FlashOK)"
  using assms by (simp add: eeprom_ReadVet_def reg_mem_size_def eeprom_flash_first_addr_def wf_flash_def
      stored_image_def)

lemma as_shorts_0: "2 \<le> length bs \<Longrightarrow> as_shorts bs ! 0 = of_le16 (bs ! 0) (bs ! 1)"
  by (cases bs rule: as_shorts.cases) auto

lemma stored_model_loaded:
  assumes "wf_flash s"
  shows "arr_get (short_reg_vet (reg_load (stored_image s) r)) (nat (Sys_RegMap_GetIndex Sys_RegMap_Model)) =
    Some (stored_model s)"
proof -
  have "nat (Sys_RegMap_GetIndex Sys_RegMap_Model) = 0" by (simp add: regmap Sys_RegMap_GetIndex_def)
  then show ?thesis
    using assms by (simp add: reg_load_def as_shorts_0 stored_image_def stored_model_def wf_flash_def)
qed

lemma reg_Begin_outcome:
  assumes "wf_flash s" "rom_refuses rom prepared" "\<not> prepared (nvm s)"
  shows "\<exists>t. reg_Begin rom s = Some t \<and> flash_mem (nvm t) = flash_mem (nvm s) \<and>
    (stored_model s = Sys_equip_code \<longrightarrow> regs t = reg_load (stored_image s) (regs s)) \<and>
    (stored_model s \<noteq> Sys_equip_code \<longrightarrow>
       regs t = (regs s)\<lparr>bool_reg_vet := bools (data nv_defaults),
         short_reg_vet := shorts (data nv_defaults), int_reg_vet := ints (data nv_defaults)\<rparr> \<and>
       eeprom_flash_Vet t = replicate 0x380 0xFF)"
proof -
  define s1 where "s1 = (if eeprom_on s \<noteq> 0 then s else s\<lparr>eeprom_flash_Vet := flash_area s, eeprom_on := 1\<rparr>)"
  have b: "eeprom_Begin s = Some s1" using eeprom_Begin_eq [OF assms(1)] by (simp add: s1_def)
  have s1: "nvm s1 = nvm s" "regs s1 = regs s" "wf_flash s1" "stored_image s1 = stored_image s"
    using assms(1) by (simp_all add: s1_def wf_flash_def stored_image_def flash_area_def)
  define s2 where "s2 = s1\<lparr>regs := reg_load (stored_image s) (regs s)\<rparr>"
  show ?thesis
  proof (cases "stored_model s = Sys_equip_code")
    case True
    then have "reg_Begin rom s = Some s2"
      using b eeprom_ReadVet_image [OF s1(3)] s1 stored_model_loaded [OF assms(1), of "regs s"]
      by (simp add: reg_Begin_def s2_def)
    then show ?thesis using True s1 by (simp add: s2_def)
  next
    case False
    define s3 where "s3 = s2\<lparr>regs := reg_load (payload_bytes (data nv_defaults)) (regs s2)\<rparr>"
    define s4 where "s4 = s3\<lparr>eeprom_flash_Vet := replicate 0x380 0xFF\<rparr>"
    have s4: "wf_flash s4" "same_flash prepared s4 s4"
      using s1 assms(3) by (simp_all add: s4_def s3_def s2_def wf_flash_def same_flash_def)
    from commit_refused [OF s4(1) assms(2) s4(2)] obtain s5 where
      s5: "eeprom_Commit rom s4 = Some (FlashOK, s5)" "same_flash prepared s4 s5" by blast
    have reset: "eeprom_Reset rom s3 = Some (FlashOK, s5)"
      using reset_fill [of s3] s1(3) s5(1) by (simp add: eeprom_Reset_def EEPROM_FLASH_SIZE_def s4_def s3_def
          s2_def wf_flash_def)
    have "wf_flash s5" using s4(1) s5(2) by (simp add: wf_flash_def same_flash_def)
    from commit_refused [OF this assms(2) s5(2)] obtain t where
      t: "eeprom_Commit rom s5 = Some (FlashOK, t)" "same_flash prepared s4 t" by blast
    have "reg_Begin rom s = Some t"
      using b eeprom_ReadVet_image [OF s1(3)] s1 stored_model_loaded [OF assms(1), of "regs s"] False reset t(1)
      by (simp add: reg_Begin_def s2_def s3_def)
    moreover have "flash_mem (nvm t) = flash_mem (nvm s)" "eeprom_flash_Vet t = replicate 0x380 0xFF"
      "regs t = regs s4"
      using t(2) s1 by (simp_all add: same_flash_def s4_def s3_def s2_def)
    moreover have "regs s4 = (regs s)\<lparr>bool_reg_vet := bools (data nv_defaults),
         short_reg_vet := shorts (data nv_defaults), int_reg_vet := ints (data nv_defaults)\<rparr>"
      by (simp add: s4_def s3_def s2_def reg_load_payload) (simp add: reg_load_def)
    ultimately show ?thesis using False by simp
  qed
qed

text \<open>
  C20: at power-up the banks are the bytes of the EEPROM area when these hold the model code of this
  equipment; otherwise they are the factory values, but what is queued for the flash is the erased
  value in every byte: the factory values are never written, and with a ROM that refuses the ranges
  of the commit the flash does not change, so the next start finds it as this one did.
\<close>

theorem power_up_registers:
  assumes "wf_flash s" "rom_refuses rom prepared" "\<not> prepared (nvm s)"
  shows "\<exists>t. reg_Begin rom s = Some t \<and> flash_mem (nvm t) = flash_mem (nvm s) \<and>
    (stored_model s = Sys_equip_code \<longrightarrow> regs t = reg_load (stored_image s) (regs s)) \<and>
    (stored_model s \<noteq> Sys_equip_code \<longrightarrow>
       regs t = (regs s)\<lparr>bool_reg_vet := bools (data nv_defaults),
         short_reg_vet := shorts (data nv_defaults), int_reg_vet := ints (data nv_defaults)\<rparr> \<and>
       eeprom_flash_Vet t = replicate 0x380 0xFF)"
  using assms by (rule reg_Begin_outcome)

theorem power_up_registers_witness:
  "\<exists>t. reg_Begin sample_rom flash_zero = Some t \<and> flash_mem (nvm t) = replicate 32640 0 \<and>
     int_reg_vet (regs t) = ints (data nv_defaults) \<and> eeprom_flash_Vet t = replicate 0x380 0xFF"
proof -
  have "stored_model flash_zero \<noteq> Sys_equip_code"
    by (simp add: stored_model_def of_le16_def Sys_equip_code_def)
  then show ?thesis
    using power_up_registers [OF _ sample_rom_refuses, of flash_zero] by (auto simp: wf_flash_def)
qed

end
