(* ===== verification/Scheduling.thy ===== *)
theory Scheduling
  imports Registers_Manager
begin

text \<open>
  \<open>services/scheduling/scheduling.c\<close>: the ten weekly schedules held in int registers and the test
  whether one of them is active at a timestamp. Times are minutes of the day; a schedule whose
  end is before its start crosses midnight.
\<close>

section \<open>The code\<close>

definition secMin :: u32 where "secMin = 60"
definition secDay :: u32 where "secDay = 86400"

definition scheduleReturnMode :: "u32 \<Rightarrow> u32" where
  "scheduleReturnMode v = v AND 0b00000000000000000000000000000111"
definition scheduleReturnDay :: "u32 \<Rightarrow> u32" where
  "scheduleReturnDay v = drop_bit 25 (v AND 0b11111110000000000000000000000000)"
definition scheduleReturnTimeStart :: "u32 \<Rightarrow> u32" where
  "scheduleReturnTimeStart v = drop_bit 14 (v AND 0b00000001111111111100000000000000)"
definition scheduleReturnTimeEnd :: "u32 \<Rightarrow> u32" where
  "scheduleReturnTimeEnd v = drop_bit 3 (v AND 0b00000000000000000011111111111000)"

definition weekDay :: "u32 \<Rightarrow> u8" where
  "weekDay timestamp = (
     let timestamp = timestamp - of_nat Sys_timestamp_min;
         dayAux = timestamp div secDay;
         dayAux = (if timestamp mod secDay \<noteq> 0 then dayAux + 1 else dayAux);
         dayAux = dayAux mod 7
     in drop_bit (unat dayAux) 0b1000000)"

definition minute :: "u32 \<Rightarrow> i16" where
  "minute timestamp = ucast ((timestamp mod secDay) div secMin)"

definition second :: "u32 \<Rightarrow> i16" where
  "second timestamp = ucast (timestamp mod secMin)"

text \<open>The body of the loop for one schedule: does it return \<open>true\<close>?\<close>

definition schedule_active :: "u32 \<Rightarrow> u32 \<Rightarrow> bool" where
  "schedule_active schedule timestamp =
     (if scheduleReturnDay schedule AND ucast (weekDay timestamp) \<noteq> 0
      then let timeStart = (ucast (scheduleReturnTimeStart schedule) :: i16);
               timeEnd = (ucast (scheduleReturnTimeEnd schedule) :: i16);
               time = minute timestamp
           in if sint timeEnd < sint timeStart
              then \<not> (sint timeEnd \<le> sint time \<and> sint time < sint timeStart)
              else sint time < sint timeEnd \<and> sint timeStart \<le> sint time
      else False)"

primrec schedulingTest_loop :: "u32 \<Rightarrow> reg_state \<Rightarrow> nat \<Rightarrow> nat \<Rightarrow> bool option" where
  "schedulingTest_loop timestamp r i 0 = Some False"
| "schedulingTest_loop timestamp r i (Suc n) = do {
     schedule \<leftarrow> arr_get (int_reg_vet r) (nat (Sys_RegMap_GetIndex Sys_RegMap_Schedules_0) + i);
     if schedule_active schedule timestamp then Some True
     else schedulingTest_loop timestamp r (Suc i) n }"

definition schedulingTest :: "u32 \<Rightarrow> reg_state \<Rightarrow> bool option" where
  "schedulingTest timestamp r = schedulingTest_loop timestamp r 0 Sys_schedulers_total"

section \<open>Specification\<close>

text \<open>
  A schedule as a set of days and a window of minutes. Bit \<open>6 - d\<close> of the day field is day \<open>d\<close>,
  with Sunday as day 0; 2024-01-01 was a Monday.
\<close>

definition sched_days :: "u32 \<Rightarrow> nat \<Rightarrow> bool" where
  "sched_days s d \<longleftrightarrow> bit s (31 - d)"

definition sched_start :: "u32 \<Rightarrow> nat" where "sched_start s = unat (drop_bit 14 s) mod 2048"
definition sched_end :: "u32 \<Rightarrow> nat" where "sched_end s = unat (drop_bit 3 s) mod 2048"

definition in_window :: "nat \<Rightarrow> nat \<Rightarrow> nat \<Rightarrow> bool" where
  "in_window a b m \<longleftrightarrow> (if a \<le> b then a \<le> m \<and> m < b else a \<le> m \<or> m < b)"

text \<open>
  The day of the week the code uses: the days that have begun since the reference date, counted
  from Sunday; the first second of a day still belongs to the day before.
\<close>

definition day_of :: "nat \<Rightarrow> nat" where
  "day_of t = ((t - Sys_timestamp_min + 86399) div 86400) mod 7"

definition minute_of :: "nat \<Rightarrow> nat" where
  "minute_of t = (t mod 86400) div 60"

definition sched_spec :: "u32 \<Rightarrow> nat \<Rightarrow> bool" where
  "sched_spec s t \<longleftrightarrow> sched_days s (day_of t) \<and> in_window (sched_start s) (sched_end s) (minute_of t)"

section \<open>The code meets the specification\<close>

lemma unat_minute: "unat ((t mod secDay) div secMin) = minute_of (unat t)"
  by (simp add: secDay_def secMin_def minute_of_def unat_div_distrib unat_mod_distrib)

lemma minute_of_less: "minute_of t < 1440"
  by (simp add: minute_of_def less_mult_imp_div_less)

lemma sint_ucast_small: "unat w < 32768 \<Longrightarrow> sint (ucast (w :: u32) :: i16) = int (unat w)"
proof -
  assume "unat w < 32768"
  then have "uint w < 32768" by (metis nat_int of_nat_less_iff of_nat_numeral uint_nat)
  have "0 \<le> uint w" by simp
  then have "- 32768 \<le> uint w" by linarith
  have "(ucast w :: i16) = word_of_int (uint w)" by (rule ucast_eq)
  moreover have "sint (word_of_int (uint w) :: i16) = uint w"
    by (rule sint_word_of_int_16) fact+
  moreover have "int (unat w) = uint w" by simp
  ultimately show ?thesis by presburger
qed

lemma sint_minute: "sint (minute t) = int (minute_of (unat t))"
  using minute_of_less [of "unat t"] by (simp add: minute_def sint_ucast_small unat_minute)

lemma field_masks:
  "(0b00000001111111111100000000000000 :: u32) = push_bit 14 (mask 11)"
  "(0b00000000000000000011111111111000 :: u32) = push_bit 3 (mask 11)"
  "(0b11111110000000000000000000000000 :: u32) = push_bit 25 (mask 7)"
  by (simp_all add: mask_eq_exp_minus_1)

lemma TimeStart_eq: "scheduleReturnTimeStart s = take_bit 11 (drop_bit 14 s)"
  unfolding scheduleReturnTimeStart_def field_masks
  by (rule bit_eqI) (auto simp: bit_simps)

lemma TimeEnd_eq: "scheduleReturnTimeEnd s = take_bit 11 (drop_bit 3 s)"
  unfolding scheduleReturnTimeEnd_def field_masks
  by (rule bit_eqI) (auto simp: bit_simps)

lemma unat_field: "unat (take_bit 11 (drop_bit n s)) = unat (drop_bit n s) mod 2048" for s :: u32
  by (subst unsigned_take_bit_eq) (simp add: take_bit_eq_mod)

lemma sint_TimeStart: "sint (ucast (scheduleReturnTimeStart s) :: i16) = int (sched_start s)"
  by (simp add: TimeStart_eq sint_ucast_small unat_field sched_start_def order_less_trans [OF mod_less_divisor])

lemma sint_TimeEnd: "sint (ucast (scheduleReturnTimeEnd s) :: i16) = int (sched_end s)"
  by (simp add: TimeEnd_eq sint_ucast_small unat_field sched_end_def order_less_trans [OF mod_less_divisor])

lemma bit_weekDay:
  assumes "Sys_timestamp_min \<le> unat t"
  shows "weekDay t = drop_bit (day_of (unat t)) 0b1000000"
proof -
  define u where "u = t - of_nat Sys_timestamp_min"
  have u: "unat u = unat t - Sys_timestamp_min"
    using assms by (simp add: u_def Sys_timestamp_min_def unat_sub word_le_nat_alt)
  define q where "q = (if u mod secDay \<noteq> 0 then u div secDay + 1 else u div secDay)"
  have "unat (u div secDay) = unat u div 86400" "unat (u mod secDay) = unat u mod 86400"
    by (simp_all add: secDay_def unat_div_distrib unat_mod_distrib)
  moreover have "unat u div 86400 < 2 ^ 32 - 1"
    using unsigned_less [of u, where ?'a = nat] by (simp add: less_mult_imp_div_less)
  moreover have "unat (w + 1) = unat w + 1" if "unat w < 2 ^ 32 - 1" for w :: u32
    using that by (subst unat_add_lem [THEN iffD1]) simp_all
  ultimately have "unat q = (if unat u mod 86400 \<noteq> 0 then unat u div 86400 + 1 else unat u div 86400)"
    by (simp add: q_def word_unat_eq_iff)
  also have "\<dots> = (unat u + 86399) div 86400"
    using ceil_div [of 86400 "unat u"] by simp
  finally have "unat (q mod 7) = day_of (unat t)"
    by (simp add: unat_mod_distrib day_of_def u)
  then show ?thesis
    unfolding weekDay_def Let_def u_def [symmetric] q_def [symmetric] by simp
qed

lemma day_mask:
  assumes "d < 7"
  shows "scheduleReturnDay s AND ucast (drop_bit d (0b1000000 :: u8)) \<noteq> 0 \<longleftrightarrow> sched_days s d"
proof -
  have bits: "bit (scheduleReturnDay s AND ucast (drop_bit d (0b1000000 :: u8))) n \<longleftrightarrow>
      n = 6 - d \<and> bit s (31 - d)" for n
  proof -
    have "(0b1000000 :: u8) = push_bit 6 1" by simp
    then have "bit (ucast (drop_bit d (0b1000000 :: u8)) :: u32) n \<longleftrightarrow> n + d = 6"
      by (simp only: bit_ucast_iff bit_drop_bit_eq bit_push_bit_iff o_apply) (auto simp: bit_simps)
    moreover have "bit (scheduleReturnDay s) n \<longleftrightarrow> n < 7 \<and> bit s (25 + n)"
      unfolding scheduleReturnDay_def field_masks
      by (auto simp: bit_simps dest: bit_imp_le_length)
    moreover have "n + d = 6 \<longleftrightarrow> n = 6 - d" "25 + (6 - d) = 31 - d" "6 - d < 7" using assms by auto
    ultimately show ?thesis by (metis bit_and_iff)
  qed
  show ?thesis
  proof
    assume "scheduleReturnDay s AND ucast (drop_bit d (0b1000000 :: u8)) \<noteq> 0"
    then show "sched_days s d" using bits by (metis bit_0_eq bit_word_eqI bot_apply bot_bool_def sched_days_def)
  next
    assume "sched_days s d"
    then show "scheduleReturnDay s AND ucast (drop_bit d (0b1000000 :: u8)) \<noteq> 0"
      using bits [of "6 - d"] by (auto simp: sched_days_def)
  qed
qed

lemma schedule_active_spec:
  assumes "Sys_timestamp_min \<le> unat t"
  shows "schedule_active s t \<longleftrightarrow> sched_spec s (unat t)"
proof -
  have "day_of (unat t) < 7" by (simp add: day_of_def)
  then have "scheduleReturnDay s AND ucast (weekDay t) \<noteq> 0 \<longleftrightarrow> sched_days s (day_of (unat t))"
    unfolding bit_weekDay [OF assms] by (rule day_mask)
  then show ?thesis
    by (auto simp: schedule_active_def Let_def sint_TimeStart sint_TimeEnd sint_minute sched_spec_def
        in_window_def)
qed

lemma schedulingTest_loop_spec:
  assumes "Sys_timestamp_min \<le> unat t"
    and "nat (Sys_RegMap_GetIndex Sys_RegMap_Schedules_0) + i + n \<le> length (int_reg_vet r)"
  shows "schedulingTest_loop t r i n = Some (\<exists>j. i \<le> j \<and> j < i + n \<and>
    sched_spec (int_reg_vet r ! (nat (Sys_RegMap_GetIndex Sys_RegMap_Schedules_0) + j)) (unat t))"
  using assms
proof (induction n arbitrary: i)
  case 0
  then show ?case by simp
next
  case (Suc n)
  let ?P = "\<lambda>j. sched_spec (int_reg_vet r ! (nat (Sys_RegMap_GetIndex Sys_RegMap_Schedules_0) + j)) (unat t)"
  have "(\<exists>j. i \<le> j \<and> j < i + Suc n \<and> ?P j) \<longleftrightarrow>
      ?P i \<or> (\<exists>j. Suc i \<le> j \<and> j < Suc i + n \<and> ?P j)"
    by (metis Suc_leD Suc_leI add_Suc add_Suc_right le_eq_less_or_eq le_add1 order_refl less_Suc_eq_le)
  then show ?case
    using Suc.IH [of "Suc i"] Suc.prems by (simp add: schedule_active_spec)
qed

lemma Schedules_0_index: "nat (Sys_RegMap_GetIndex Sys_RegMap_Schedules_0) = 41"
  by (simp add: GetIndex_eq regmap)



text \<open>
  The factory schedule is active every day from 06:00 to 20:00. The day of the week changes
  one second late: at midnight itself the test still uses the day before.
\<close>

theorem default_schedule_and_midnight:
  "(sched_spec Sys_schedulers_default t \<longleftrightarrow> 360 \<le> minute_of t \<and> minute_of t < 1200) \<and>
   (Sys_timestamp_min < unat u \<longrightarrow> (unat u - Sys_timestamp_min) mod 86400 = 0 \<longrightarrow>
      weekDay u = weekDay (u - 1))"
proof (intro conjI impI)
  have "d < 7 \<Longrightarrow> sched_days Sys_schedulers_default d" for d
    unfolding sched_days_def Sys_schedulers_default_def
    by (simp add: numeral_eq_Suc less_Suc_eq) (elim disjE; simp)
  then have "sched_days Sys_schedulers_default (day_of t)" by (simp add: day_of_def)
  moreover have "sched_start Sys_schedulers_default = 360" "sched_end Sys_schedulers_default = 1200"
    by (simp_all add: sched_start_def sched_end_def Sys_schedulers_default_def)
  ultimately show "sched_spec Sys_schedulers_default t \<longleftrightarrow> 360 \<le> minute_of t \<and> minute_of t < 1200"
    by (simp add: sched_spec_def in_window_def)
next
  assume u: "Sys_timestamp_min < unat u" "(unat u - Sys_timestamp_min) mod 86400 = 0"
  then have pred: "unat (u - 1) = unat u - 1"
    by (subst unat_sub) (simp_all add: word_le_nat_alt)
  obtain k where k: "unat u - Sys_timestamp_min = k * 86400"
    using u(2) by (metis div_mult_mod_eq add.right_neutral)
  with u(1) have "0 < k" by (cases k) auto
  then have "(k * 86400 + 86399) div 86400 = k" "(k * 86400 - 1 + 86399) div 86400 = k"
    by (cases k; simp)+
  moreover have "unat u - 1 - Sys_timestamp_min = k * 86400 - 1" using k u(1) by simp
  ultimately have "day_of (unat u) = day_of (unat (u - 1))"
    by (simp only: day_of_def k pred)
  then show "weekDay u = weekDay (u - 1)"
    using u(1) pred bit_weekDay [of u] bit_weekDay [of "u - 1"] by simp
qed

theorem default_schedule_and_midnight_witness:
  "minute_of 1775055600 = 900 \<and> sched_spec Sys_schedulers_default 1775055600 \<and>
   weekDay 1704153600 = weekDay (1704153600 - 1)"
  using default_schedule_and_midnight [of 1775055600 1704153600]
  by (simp add: minute_of_def Sys_timestamp_min_def)

end
