(* ===== verification/Rtc.thy ===== *)
theory Rtc
  imports Flash_Map Scheduling
begin

text \<open>
  \<open>services/rtc/rtc.c\<close>: the conversion between seconds since 1970 and the binary coded registers of
  the clock chip (years counted from 2024), and its synchronisation over I2C. Reading the table of
  months outside its twelve entries is \<^term>\<open>None\<close>. The signed sums of the code wrap as the target
  computes them.
\<close>

section \<open>State\<close>

definition secHr :: u32 where "secHr = 3600"
definition secWeek :: u32 where "secWeek = 604800"
definition secYear :: u32 where "secYear = 31536000"
definition daysYear :: u32 where "daysYear = 365"
definition daysYearB :: u32 where "daysYearB = 366"

definition dayToMouth :: "u8 list" where
  "dayToMouth = [31, 28, 31, 30, 31, 30, 31, 31, 30, 31, 30, 31]"

record RTC_data_s =
  seconds :: u8
  minutes :: u8
  cent_hours :: u8
  day :: u8
  date :: u8
  month :: u8
  years :: u8
  cal_cfg1 :: u8
  tch_2 :: u8
  cfg_2 :: u8
  sf_key_1 :: u8
  sf_key_2 :: u8
  sfr :: u8

text \<open>The pointer to the timestamp: unset, the module's own variable, or into the register banks.\<close>

datatype ts_pointer = Ts_Unset | Ts_Own | Ts_Reg reg_pointer

record rtc = flash +
  flagBegin :: bool
  last_time_resynchronization :: u32
  time_resynchronization :: u32
  timestamp_own :: u32
  ptrTimestamp :: ts_pointer

definition load_ts :: "'a rtc_scheme \<Rightarrow> u32 option" where
  "load_ts s = (case ptrTimestamp s of Ts_Unset \<Rightarrow> None | Ts_Own \<Rightarrow> Some (timestamp_own s)
     | Ts_Reg p \<Rightarrow> load_int p (regs s))"

definition store_ts :: "u32 \<Rightarrow> 'a rtc_scheme \<Rightarrow> 'a rtc_scheme option" where
  "store_ts v s = (case ptrTimestamp s of Ts_Unset \<Rightarrow> None | Ts_Own \<Rightarrow> Some (s\<lparr>timestamp_own := v\<rparr>)
     | Ts_Reg p \<Rightarrow> on_regs (store_int p v) s)"

section \<open>Conversions\<close>

definition RTC_convertToReg_aux :: "i32 \<Rightarrow> u8" where
  "RTC_convertToReg_aux value =
     word_of_int ((sint value sdiv 10) * 16 + sint value smod 10)"

definition RTC_convertToTime_aux :: "u8 \<Rightarrow> u16" where
  "RTC_convertToTime_aux v = 10 * drop_bit 4 (0b1110000 AND ucast v) + (ucast v AND 0b1111)"

text \<open>The years that the days left fill; the year is a byte, so the test against 3000 never holds.\<close>

function years_loop :: "u8 \<Rightarrow> u32 \<Rightarrow> u8 \<times> u32" where
  "years_loop y daysLeft =
     (if 3000 < unat y then (y, daysLeft)
      else if unat y mod 4 \<noteq> 0
      then if daysLeft div daysYear = 0 then (y, daysLeft) else years_loop (y + 1) (daysLeft - daysYear)
      else if daysLeft div daysYearB = 0 then (y, daysLeft) else years_loop (y + 1) (daysLeft - daysYearB))"
  by pat_completeness auto

lemma sub_div_less:
  fixes d k :: u32
  assumes "d div k \<noteq> 0" "k \<noteq> 0"
  shows "unat (d - k) < unat d"
proof -
  have "k \<le> d"
  proof (rule ccontr)
    assume "\<not> k \<le> d"
    then have "unat d div unat k = 0" by (simp add: word_le_nat_alt)
    then have "d div k = 0" by (simp add: word_unat_eq_iff unat_div_distrib)
    with assms(1) show False by simp
  qed
  moreover have "0 < unat k" using assms(2) by (metis unat_eq_zero neq0_conv)
  ultimately show ?thesis by (simp add: unat_sub word_le_nat_alt)
qed

termination years_loop
  by (relation "measure (\<lambda>(y, d). unat d)") (simp_all add: sub_div_less daysYear_def daysYearB_def)

declare years_loop.simps [simp del]

definition month_days :: "u8 \<Rightarrow> u8 \<Rightarrow> u32 option" where
  "month_days y m =
     (if unat y mod 4 = 0 \<and> m = 1 then Some 29
      else do { d \<leftarrow> arr_get dayToMouth (unat m); Some (ucast d) })"

function months_loop :: "u8 \<Rightarrow> u8 \<Rightarrow> u32 \<Rightarrow> (u8 \<times> u32) option" where
  "months_loop y m daysLeft =
     (if 10 < unat m then Some (m, daysLeft)
      else case month_days y m of
        None \<Rightarrow> None
      | Some d \<Rightarrow> if daysLeft div d = 0 then Some (m, daysLeft) else months_loop y (m + 1) (daysLeft - d))"
  by pat_completeness auto

termination months_loop
proof (relation "measure (\<lambda>(y, m, d). 11 - unat m)", goal_cases)
  case (2 y m dl d)
  then have "unat (m + 1) = unat m + 1" by (subst unat_add_lem [THEN iffD1]) simp_all
  with 2 show ?case by simp
qed simp

declare months_loop.simps [simp del]

definition RTC_convertTimestampToTime :: "u64 \<Rightarrow> RTC_data_s option" where
  "RTC_convertTimestampToTime timestamp = (
     let timestamp = (if timestamp < of_nat Sys_timestamp_min then of_nat Sys_timestamp_min else timestamp);
         sec = (ucast (timestamp mod 60) :: u8);
         mi = (ucast ((timestamp mod 3600) div 60) :: u8);
         hr = (ucast ((timestamp mod 86400) div 3600) :: u8);
         timestamp = timestamp - of_nat Sys_timestamp_min;
         daysLeft = (ucast (timestamp div 86400) :: u32);
         (y, daysLeft) = years_loop 0 daysLeft
     in do {
       (m, daysLeft) \<leftarrow> months_loop y 0 daysLeft;
       let m = m + 1;
       let dt = (ucast (if timestamp mod 86400 \<noteq> 0 then daysLeft + 1 else daysLeft) :: u8);
       let dt = (if hr OR mi OR sec = 0 then dt + 1 else dt);
       let week = (ucast (timestamp mod 604800) :: u32);
       let week = (if week mod 86400 \<noteq> 0 then (week div 86400) + 2 else (week div 86400) + 1);
       Some \<lparr>seconds = RTC_convertToReg_aux (ucast sec), minutes = RTC_convertToReg_aux (ucast mi),
         cent_hours = RTC_convertToReg_aux (ucast hr), day = RTC_convertToReg_aux week,
         date = RTC_convertToReg_aux (ucast dt), month = RTC_convertToReg_aux (ucast m),
         years = RTC_convertToReg_aux (ucast y),
         cal_cfg1 = 0, tch_2 = 0, cfg_2 = 0, sf_key_1 = 0, sf_key_2 = 0, sfr = 0\<rparr> })"

text \<open>The seconds of the whole months of a year.\<close>

definition months_seconds :: "u16 \<Rightarrow> u8 \<Rightarrow> i32 option" where
  "months_seconds year m = for_loop 0 (unat m) (\<lambda>i acc.
     if unat year mod 4 \<noteq> 0 then do { d \<leftarrow> arr_get dayToMouth i; Some (acc + ucast d * secDay) }
     else if i = 1 then Some (acc + 29 * secDay)
     else do { d \<leftarrow> arr_get dayToMouth i; Some (acc + ucast d * secDay) }) 0"

definition RTC_convertTimeToTimestamp :: "RTC_data_s \<Rightarrow> u64 option" where
  "RTC_convertTimeToTimestamp t = (
     let sec = (ucast (RTC_convertToTime_aux (seconds t)) :: u8);
         mi = (ucast (RTC_convertToTime_aux (minutes t)) :: u8);
         hr = (ucast (RTC_convertToTime_aux (cent_hours t)) :: u8);
         dy = (ucast (RTC_convertToTime_aux (date t) - 1) :: u8);
         mo = (ucast (RTC_convertToTime_aux (month t) - 1) :: u8);
         year = RTC_convertToTime_aux (years t)
     in do {
       secMonthAux \<leftarrow> months_seconds year mo;
       let bissexto = (ucast (year div 4) * secDay :: i32);
       let bissexto = bissexto + (if unat year mod 4 \<noteq> 0 then secDay else 0);
       Some (scast (of_nat Sys_timestamp_min + (ucast year * secYear) + secMonthAux + (ucast dy * secDay)
         + (ucast hr * secHr) + (ucast mi * secMin) + ucast sec + bissexto :: i32)) })"

section \<open>The chip\<close>

text \<open>The first ten bytes of the structure, as they go over the bus.\<close>

definition rtc_bytes :: "RTC_data_s \<Rightarrow> u8 list" where
  "rtc_bytes t = [seconds t, minutes t, cent_hours t, day t, date t, month t, years t, cal_cfg1 t, tch_2 t, cfg_2 t]"

definition rtc_of_bytes :: "u8 list \<Rightarrow> RTC_data_s \<Rightarrow> RTC_data_s" where
  "rtc_of_bytes bs t = t\<lparr>seconds := bs ! 0, minutes := bs ! 1, cent_hours := bs ! 2, day := bs ! 3,
     date := bs ! 4, month := bs ! 5, years := bs ! 6, cal_cfg1 := bs ! 7, tch_2 := bs ! 8, cfg_2 := bs ! 9\<rparr>"

definition RTC_setValue :: "u32 \<Rightarrow> 'a rtc_scheme \<Rightarrow> 'a rtc_scheme option" where
  "RTC_setValue timestampRef s = do {
     t \<leftarrow> RTC_convertTimestampToTime (ucast timestampRef);
     let t = t\<lparr>seconds := seconds t AND 0b01111111, minutes := minutes t AND 0b01111111,
       day := day t AND 0b00000111, date := date t AND 0b00111111, month := month t AND 0b00011111,
       cal_cfg1 := 0, tch_2 := 0, cfg_2 := 0\<rparr>;
     (st, s) \<leftarrow> i2cSend_master SysI2C_ADDR_RTC_BQ32000 (0 # rtc_bytes t) 11 s;
     Some s }"

text \<open>
  The time of the chip: the buffer holds the present time, which ten bytes of the chip replace; the
  results of the two transfers are not looked at.
\<close>

definition RTC_read_chip :: "'a rtc_scheme \<Rightarrow> (RTC_data_s \<times> 'a rtc_scheme) option" where
  "RTC_read_chip s = do {
     ts \<leftarrow> load_ts s;
     timeAux \<leftarrow> RTC_convertTimestampToTime (ucast ts);
     (st, s) \<leftarrow> i2cSend_master SysI2C_ADDR_RTC_BQ32000 [0] 1 s;
     (st, bs, s) \<leftarrow> i2cReadLenght_master SysI2C_ADDR_RTC_BQ32000 (rtc_bytes timeAux) 10 s;
     Some (rtc_of_bytes bs timeAux, s) }"

definition RTC_resynchronization :: "'a rtc_scheme \<Rightarrow> 'a rtc_scheme option" where
  "RTC_resynchronization s = do {
     (timeAux, s) \<leftarrow> RTC_read_chip s;
     timestampAux \<leftarrow> RTC_convertTimeToTimestamp timeAux;
     (timeAux, s) \<leftarrow>
       (if minutes timeAux AND 0b10000000 \<noteq> 0 \<or> timestampAux < of_nat Sys_timestamp_min \<or>
           7268702400 < timestampAux
        then do {
          s \<leftarrow> store_ts (of_nat Sys_timestamp_min) s;
          timeAux \<leftarrow> RTC_convertTimestampToTime (of_nat Sys_timestamp_min);
          s \<leftarrow> RTC_setValue (of_nat Sys_timestamp_min) s;
          Some (timeAux, s) }
        else Some (timeAux, s));
     ts \<leftarrow> RTC_convertTimeToTimestamp timeAux;
     store_ts (ucast ts) s }"

definition RTC_begin :: "ts_pointer \<Rightarrow> 'a rtc_scheme \<Rightarrow> 'a rtc_scheme option" where
  "RTC_begin ptr s = (
     let s = s\<lparr>flagBegin := True,
               ptrTimestamp := (if ptr = Ts_Unset \<or> ptr = Ts_Reg NULL then Ts_Own else ptr)\<rparr>
     in RTC_resynchronization s)"

definition RTC_loop :: "'a rtc_scheme \<Rightarrow> 'a rtc_scheme option" where
  "RTC_loop s =
     (if \<not> flagBegin s then Some s
      else let dt = SysTickGetTime_ms s - ucast (last_time_resynchronization s)
      in if dt < ucast (time_resynchronization s) then Some s
         else do {
           s \<leftarrow> RTC_resynchronization s;
           Some (s\<lparr>last_time_resynchronization := ucast (SysTickGetTime_ms s)\<rparr>) })"

definition RTC_set_resynchronization_time :: "u32 \<Rightarrow> 'a rtc_scheme \<Rightarrow> 'a rtc_scheme" where
  "RTC_set_resynchronization_time t s = s\<lparr>time_resynchronization := t\<rparr>"

section \<open>The calendar\<close>

definition year_start :: "nat \<Rightarrow> nat" where "year_start y = 365 * y + (y + 3) div 4"
definition year_len :: "nat \<Rightarrow> nat" where "year_len y = (if y mod 4 = 0 then 366 else 365)"

definition month_len :: "nat \<Rightarrow> nat \<Rightarrow> nat" where
  "month_len y m = (if y mod 4 = 0 \<and> m = 1 then 29 else [31, 28, 31, 30, 31, 30, 31, 31, 30, 31, 30, 31] ! m)"
definition month_start :: "nat \<Rightarrow> nat \<Rightarrow> nat" where "month_start y m = sum_list (map (month_len y) [0..<m])"

lemma year_start_Suc: "year_start (Suc y) = year_start y + year_len y"
  by (simp add: year_start_def year_len_def) presburger

lemma month_start_Suc [simp]: "month_start y (Suc m) = month_start y m + month_len y m"
  by (simp add: month_start_def)

lemma month_start_0 [simp]: "month_start y 0 = 0"
  by (simp add: month_start_def)

lemma month_start_12: "month_start y 12 = year_len y"
  by (simp add: month_start_def year_len_def month_len_def upt_rec)

lemma div_eq_0_unat: "k \<noteq> 0 \<Longrightarrow> d div k = 0 \<longleftrightarrow> unat d < unat k" for d k :: u32
  by (simp add: word_unat_eq_iff unat_div_distrib div_eq_0_iff)

lemma years_loop_spec:
  "year_start (unat y) + unat d < 30000 \<Longrightarrow> years_loop y d = (y', d') \<Longrightarrow>
   year_start (unat y') + unat d' = year_start (unat y) + unat d \<and> unat d' < year_len (unat y')"
proof (induction y d rule: years_loop.induct)
  case (1 y d)
  have y: "unat y < 83" using 1(3) by (simp add: year_start_def)
  define k where "k = (if unat y mod 4 = 0 then daysYearB else daysYear)"
  have k: "unat k = year_len (unat y)" "k \<noteq> 0"
    by (simp_all add: k_def year_len_def daysYearB_def daysYear_def)
  have unfold: "years_loop y d = (if d div k = 0 then (y, d) else years_loop (y + 1) (d - k))"
    using y by (subst years_loop.simps) (simp add: k_def)
  show ?case
  proof (cases "d div k = 0")
    case True
    then show ?thesis using 1(4) unfold k by (simp add: div_eq_0_unat)
  next
    case False
    then have le: "unat k \<le> unat d" using k by (simp add: div_eq_0_unat)
    have y1: "unat (y + 1) = Suc (unat y)" using y by (subst unat_add_lem [THEN iffD1]) simp_all
    have d1: "unat (d - k) = unat d - unat k" using le by (simp add: unat_sub word_le_nat_alt)
    have eq: "year_start (unat (y + 1)) + unat (d - k) = year_start (unat y) + unat d"
      using le k(1) by (simp add: y1 d1 year_start_Suc)
    have run: "years_loop (y + 1) (d - k) = (y', d')" using 1(4) unfold False by simp
    have "unat y mod 4 = 0 \<Longrightarrow> d div daysYearB \<noteq> 0" "unat y mod 4 \<noteq> 0 \<Longrightarrow> d div daysYear \<noteq> 0"
      using False by (simp_all add: k_def)
    moreover have "\<not> 3000 < unat y" using y by simp
    ultimately show ?thesis
      using 1(1,2) eq run 1(3) unfolding k_def by (cases "unat y mod 4 = 0") auto
  qed
qed

lemma month_len_bounds: "m < 12 \<Longrightarrow> 28 \<le> month_len y m \<and> month_len y m \<le> 31"
proof -
  have "\<forall>i\<in>set [0..<12]. 28 \<le> [31, 28, 31, 30, 31, 30, 31, 31, 30, 31, 30, 31 :: nat] ! i \<and>
      [31, 28, 31, 30, 31, 30, 31, 31, 30, 31, 30, 31 :: nat] ! i \<le> 31"
    by (simp add: upt_rec)
  then show "m < 12 \<Longrightarrow> 28 \<le> month_len y m \<and> month_len y m \<le> 31" by (auto simp: month_len_def)
qed

lemma month_table:
  assumes "i < 12"
  shows "(ucast (dayToMouth ! i) :: u32) = of_nat ([31, 28, 31, 30, 31, 30, 31, 31, 30, 31, 30, 31] ! i)"
    "length dayToMouth = 12"
proof -
  have "\<forall>i\<in>set [0..<12]. (ucast (dayToMouth ! i) :: u32) =
      of_nat ([31, 28, 31, 30, 31, 30, 31, 31, 30, 31, 30, 31] ! i)"
    by (simp add: dayToMouth_def upt_rec)
  then show "(ucast (dayToMouth ! i) :: u32) = of_nat ([31, 28, 31, 30, 31, 30, 31, 31, 30, 31, 30, 31] ! i)"
    using assms by auto
qed (simp add: dayToMouth_def)

lemma month_days_eq:
  assumes "unat m < 12"
  shows "month_days y m = Some (of_nat (month_len (unat y) (unat m)))"
    "unat (of_nat (month_len (unat y) (unat m)) :: u32) = month_len (unat y) (unat m)"
proof -
  have "m = 1 \<longleftrightarrow> unat m = 1" by (simp add: word_unat_eq_iff)
  then show "month_days y m = Some (of_nat (month_len (unat y) (unat m)))"
    using month_table [OF assms] assms by (simp add: month_days_def month_len_def)
  show "unat (of_nat (month_len (unat y) (unat m)) :: u32) = month_len (unat y) (unat m)"
    using month_len_bounds [OF assms, of "unat y"] by (simp add: unat_of_nat)
qed

lemma months_loop_spec:
  "unat m < 12 \<Longrightarrow> month_start (unat y) (unat m) + unat d < year_len (unat y) \<Longrightarrow>
   \<exists>m' d'. months_loop y m d = Some (m', d') \<and> unat m' < 12 \<and>
     month_start (unat y) (unat m') + unat d' = month_start (unat y) (unat m) + unat d \<and>
     unat d' < month_len (unat y) (unat m')"
proof (induction y m d rule: months_loop.induct)
  case (1 y m d)
  define k where "k = (of_nat (month_len (unat y) (unat m)) :: u32)"
  have k: "month_days y m = Some k" "unat k = month_len (unat y) (unat m)"
    using month_days_eq [OF 1(2), of y] by (simp_all add: k_def)
  have k0: "k \<noteq> 0" using k(2) month_len_bounds [OF 1(2), of "unat y"] by auto
  show ?case
  proof (cases "10 < unat m")
    case True
    then have m: "unat m = 11" using 1(2) by simp
    have "month_start (unat y) 12 = month_start (unat y) 11 + month_len (unat y) 11"
      using month_start_Suc [of "unat y" 11] by (simp del: month_start_Suc)
    then have "unat d < month_len (unat y) 11" using 1(3) m month_start_12 [of "unat y"] by simp
    then show ?thesis using True m by (subst months_loop.simps) simp
  next
    case False
    have unfold: "months_loop y m d = (if d div k = 0 then Some (m, d) else months_loop y (m + 1) (d - k))"
      using False k(1) by (subst months_loop.simps) simp
    show ?thesis
    proof (cases "d div k = 0")
      case True
      then show ?thesis using 1(2) unfold k k0 by (simp add: div_eq_0_unat)
    next
      case nz: False
      then have le: "unat k \<le> unat d" using k0 by (simp add: div_eq_0_unat)
      have m1: "unat (m + 1) = Suc (unat m)" using 1(2) by (subst unat_add_lem [THEN iffD1]) simp_all
      have d1: "unat (d - k) = unat d - unat k" using le by (simp add: unat_sub word_le_nat_alt)
      show ?thesis
        using 1(1) [OF False k(1) nz] 1(3) False le k(2) unfold nz by (simp add: m1 d1)
    qed
  qed
qed

section \<open>Binary coded decimals\<close>

lemma bcd_round_trip: "n < 80 \<Longrightarrow> RTC_convertToTime_aux (RTC_convertToReg_aux (of_nat n)) = of_nat n"
proof -
  have "list_all (\<lambda>n. RTC_convertToTime_aux (RTC_convertToReg_aux (of_nat n)) = of_nat n) [0..<80]"
    by code_simp
  then show "n < 80 \<Longrightarrow> RTC_convertToTime_aux (RTC_convertToReg_aux (of_nat n)) = of_nat n"
    by (simp add: list_all_iff)
qed

lemma ucast_via_nat: "ucast (w :: 'a :: len word) = (of_nat (unat w) :: 'b :: len word)"
  by simp

lemma ucast_of_nat_less: "n < 2 ^ LENGTH('a) \<Longrightarrow> ucast (of_nat n :: 'a :: len word) = (of_nat n :: 'b :: len word)"
  by (simp add: ucast_via_nat unat_of_nat)

lemma u64_of_nat: "n < 2 ^ 64 \<Longrightarrow> unat (of_nat n :: u64) = n"
  by (simp add: unat_of_nat)

lemma u8_of_nat: "n < 256 \<Longrightarrow> unat (of_nat n :: u8) = n"
  by (simp add: unat_of_nat)

lemma ucast_div_mod:
  "ucast (w mod numeral k :: u64) = (of_nat (unat w mod unat (numeral k :: u64)) :: 'b :: len word)"
  "ucast (w div numeral k :: u64) = (of_nat (unat w div unat (numeral k :: u64)) :: 'b :: len word)"
  "ucast (w mod numeral k div numeral l :: u64) =
     (of_nat (unat w mod unat (numeral k :: u64) div unat (numeral l :: u64)) :: 'b :: len word)"
  by (simp_all only: ucast_via_nat [of "_ :: u64"] unat_div_distrib unat_mod_distrib)

lemma months_seconds_eq:
  assumes "unat m \<le> 12"
  shows "months_seconds y m = Some (of_nat (86400 * month_start (unat y) (unat m)))"
proof -
  define f where "f = (\<lambda>i (acc :: i32).
     if unat y mod 4 \<noteq> 0 then do { d \<leftarrow> arr_get dayToMouth i; Some (acc + ucast d * secDay) }
     else if i = 1 then Some (acc + 29 * secDay)
     else do { d \<leftarrow> arr_get dayToMouth i; Some (acc + ucast d * secDay) })"
  have "\<exists>t. for_loop 0 (unat m) f 0 = Some t \<and> t = of_nat (86400 * month_start (unat y) (0 + unat m))"
  proof (rule for_loop_total [where P = "\<lambda>i t. t = of_nat (86400 * month_start (unat y) i)"])
    fix j and s :: i32
    assume j: "j < 0 + unat m" and s: "s = of_nat (86400 * month_start (unat y) j)"
    have "j < 12" using j assms by simp
    note tab = month_table [OF this]
    have "f j s = Some (of_nat (86400 * month_start (unat y) j) + of_nat (month_len (unat y) j) * secDay)"
      using tab \<open>j < 12\<close> by (simp add: f_def s month_len_def)
    then show "\<exists>t. f j s = Some t \<and> t = of_nat (86400 * month_start (unat y) (Suc j))"
      by (simp add: secDay_def algebra_simps)
  qed simp
  then show ?thesis unfolding months_seconds_def f_def by simp
qed

lemma div_mod_parts: "b < k \<Longrightarrow> (k * a + b) div k = a" "b < k \<Longrightarrow> (k * a + b) mod k = b"
  for a b k :: nat
  by simp_all

text \<open>
  The clock registers of a moment: years, months and days counted from zero, hours, minutes and
  seconds, and any weekday.
\<close>

definition chip_time :: "nat \<Rightarrow> nat \<Rightarrow> nat \<Rightarrow> nat \<Rightarrow> nat \<Rightarrow> nat \<Rightarrow> u8 \<Rightarrow> RTC_data_s" where
  "chip_time y m d H M S w =
     \<lparr>seconds = RTC_convertToReg_aux (of_nat S), minutes = RTC_convertToReg_aux (of_nat M),
      cent_hours = RTC_convertToReg_aux (of_nat H), day = w,
      date = RTC_convertToReg_aux (of_nat (d + 1)), month = RTC_convertToReg_aux (of_nat (m + 1)),
      years = RTC_convertToReg_aux (of_nat y),
      cal_cfg1 = 0, tch_2 = 0, cfg_2 = 0, sf_key_1 = 0, sf_key_2 = 0, sfr = 0\<rparr>"

lemma clock_parts:
  fixes D H M S R e :: nat
  assumes r: "H < 24" "M < 60" "S < 60" and R: "R = 86400 * D + 3600 * H + 60 * M + S"
  shows "R div 86400 = D" "R mod 86400 = 3600 * H + 60 * M + S"
    "(86400 * e + R) mod 60 = S" "(86400 * e + R) mod 3600 div 60 = M" "(86400 * e + R) mod 86400 div 3600 = H"
proof -
  have lt: "60 * M + S < 3600" "3600 * H + (60 * M + S) < 86400" using r by linarith+
  show "R div 86400 = D" "R mod 86400 = 3600 * H + 60 * M + S"
    using div_mod_parts [OF lt(2), of D] by (simp_all add: R add.assoc)
  have "86400 * e + R = 60 * (1440 * e + 1440 * D + 60 * H + M) + S" unfolding R by (simp add: algebra_simps)
  then show "(86400 * e + R) mod 60 = S" by (simp only: div_mod_parts [OF r(3)])
  have "86400 * e + R = 3600 * (24 * e + 24 * D + H) + (60 * M + S)" unfolding R by (simp add: algebra_simps)
  then have "(86400 * e + R) mod 3600 = 60 * M + S" by (simp only: div_mod_parts [OF lt(1)])
  then show "(86400 * e + R) mod 3600 div 60 = M" by (simp only: div_mod_parts [OF r(3)])
  have "86400 * e + R = 86400 * (e + D) + (3600 * H + (60 * M + S))" unfolding R by (simp add: algebra_simps)
  then have "(86400 * e + R) mod 86400 = 3600 * H + (60 * M + S)" by (simp only: div_mod_parts [OF lt(2)])
  then show "(86400 * e + R) mod 86400 div 3600 = H" by (simp only: div_mod_parts [OF lt(1)])
qed

text \<open>The two loops find the date of a day.\<close>

lemma loops_date:
  assumes "D < 30000"
  shows "\<exists>y dy m d. years_loop 0 (of_nat D) = (y, dy) \<and> months_loop y 0 dy = Some (m, d) \<and>
    year_start (unat y) + month_start (unat y) (unat m) + unat d = D \<and>
    unat y < 83 \<and> unat m < 12 \<and> unat d < 31"
proof -
  have uD: "unat (of_nat D :: u32) = D" using assms by (simp add: unat_of_nat)
  obtain y dy where yl: "years_loop 0 (of_nat D) = (y, dy)" by fastforce
  have Y: "year_start (unat y) + unat dy = D" "unat dy < year_len (unat y)"
    using years_loop_spec [OF _ yl] uD assms by (simp_all add: year_start_def)
  then have y83: "unat y < 83" using assms by (simp add: year_start_def)
  obtain m d where ml: "months_loop y 0 dy = Some (m, d)"
    and Md: "unat m < 12" "month_start (unat y) (unat m) + unat d = unat dy" "unat d < month_len (unat y) (unat m)"
    using months_loop_spec [of 0 y dy] Y(2) by auto
  have "unat d < 31" using Md(1,3) month_len_bounds [of "unat m" "unat y"] by linarith
  then show ?thesis using yl ml Y(1) Md(1,2) y83 by auto
qed

text \<open>The correction of the date at midnight cancels the one for the rest of a day.\<close>

lemma date_byte:
  fixes d :: u32
  assumes r: "H < 24" "M < 60" "S < 60" and "unat d < 31"
    and R: "R < 2 ^ 64" "R mod 86400 = 3600 * H + 60 * M + S"
  shows "(if (of_nat H OR of_nat M OR of_nat S :: u8) = 0
      then (ucast (if (of_nat R mod 86400 :: u64) \<noteq> 0 then d + 1 else d) :: u8) + 1
      else ucast (if (of_nat R mod 86400 :: u64) \<noteq> 0 then d + 1 else d)) = of_nat (unat d + 1)"
proof -
  have zero: "(of_nat H OR of_nat M OR of_nat S :: u8) = 0 \<longleftrightarrow> R mod 86400 = 0"
  proof -
    have "(of_nat n :: u8) = 0 \<longleftrightarrow> n = 0" if "n < 256" for n
      using unat_eq_zero [of "of_nat n :: u8"] by (simp only: u8_of_nat [OF that])
    then show ?thesis using r by (simp add: or_eq_0_iff R(2))
  qed
  have "unat (of_nat R :: u64) = R" using R(1) by (simp only: u64_of_nat)
  then have mod0: "(of_nat R mod 86400 :: u64) = 0 \<longleftrightarrow> R mod 86400 = 0"
    by (simp add: word_unat_eq_iff unat_mod_distrib)
  have "unat (d + 1) = unat d + 1" using assms(4) by (subst unat_add_lem [THEN iffD1]) simp_all
  then have "(ucast (d + 1) :: u8) = of_nat (unat d + 1)" by (simp only: ucast_via_nat [of "d + 1"])
  then show ?thesis unfolding zero mod0 by simp
qed

lemma to_time_calendar:
  assumes t: "t = Sys_timestamp_min + 86400 * D + 3600 * H + 60 * M + S"
    and r: "D < 30000" "H < 24" "M < 60" "S < 60"
  shows "\<exists>y m d w. RTC_convertTimestampToTime (of_nat t) = Some (chip_time y m d H M S w) \<and>
    year_start y + month_start y m + d = D \<and> y < 83 \<and> m < 12 \<and> d < 31"
proof -
  define R where "R = 86400 * D + 3600 * H + 60 * M + S"
  have tR: "t = 86400 * 19723 + R" "t < 2 ^ 64" "R < 2 ^ 64"
    using t r by (simp_all add: R_def Sys_timestamp_min_def)
  have ut: "unat (of_nat t :: u64) = t" "unat (of_nat R :: u64) = R"
    using tR(2,3) by (simp_all only: u64_of_nat)
  note parts = clock_parts [OF r(2-4) R_def]
  note parts_t = parts(3-5) [of 19723, folded tR(1)]
  define ts where "ts = (of_nat t :: u64)"
  have ge: "\<not> ts < of_nat Sys_timestamp_min"
  proof -
    have "Sys_timestamp_min \<le> t" using t by simp
    then show ?thesis using ut(1) by (simp add: ts_def word_less_nat_alt Sys_timestamp_min_def)
  qed
  have ts: "unat ts = t" "ts - of_nat Sys_timestamp_min = of_nat R"
    using ut(1) by (simp_all add: ts_def tR(1) Sys_timestamp_min_def)
  obtain y dy m d where yl: "years_loop 0 (of_nat D) = (y, dy)" and ml: "months_loop y 0 dy = Some (m, d)"
    and cal: "year_start (unat y) + month_start (unat y) (unat m) + unat d = D" "unat y < 83" "unat m < 12" "unat d < 31"
    using loops_date [OF r(1)] by blast
  have word_parts: "(ucast (ts mod 60) :: u8) = of_nat S" "(ucast (ts mod 3600 div 60) :: u8) = of_nat M"
    "(ucast (ts mod 86400 div 3600) :: u8) = of_nat H" "(ucast (of_nat R div 86400 :: u64) :: u32) = of_nat D"
    by (simp_all only: ucast_div_mod ts(1) ut(2) unat_mod_distrib) (simp_all add: parts_t parts unat_mod_distrib ts(1))
  note dt = date_byte [OF r(2-4) cal(4) tR(3) parts(2)]
  have small: "(ucast (of_nat n :: u8) :: u32) = of_nat n" if "n < 256" for n
    using that by (intro ucast_of_nat_less) simp
  have date: "(ucast (of_nat (unat d + 1) :: u8) :: u32) = of_nat (unat d + 1)"
    by (rule small) (use cal(4) in simp)
  have "unat (m + 1) = unat m + 1" using cal(3) by (subst unat_add_lem [THEN iffD1]) simp_all
  then have mo: "(ucast (m + 1) :: u32) = of_nat (unat m + 1)" by (simp only: ucast_via_nat [of "m + 1"])
  have "\<exists>w. RTC_convertTimestampToTime ts = Some (chip_time (unat y) (unat m) (unat d) H M S w)"
    unfolding RTC_convertTimestampToTime_def Let_def if_not_P [OF ge] ts(2) word_parts yl prod.case ml
      Option.bind.simps dt mo date ucast_via_nat [of y] chip_time_def
    using r cal(4) by (simp add: small del: of_nat_add)
  then show ?thesis using cal unfolding ts_def by blast
qed

lemma day_parts:
  assumes "Sys_timestamp_min \<le> t"
  obtains D H M S where "t = Sys_timestamp_min + 86400 * D + 3600 * H + 60 * M + S"
    "H < 24" "M < 60" "S < 60"
proof -
  define q where "q = t - Sys_timestamp_min"
  define D H M S where "D = q div 86400" and "H = q mod 86400 div 3600" and "M = q mod 3600 div 60"
    and "S = q mod 60"
  have HMS: "H < 24" "M < 60" "S < 60" by (simp_all add: H_def M_def S_def less_mult_imp_div_less)
  have "q mod 86400 mod 3600 = q mod 3600" "q mod 3600 mod 60 = q mod 60"
    by (simp_all add: mod_mod_cancel)
  then have "q = 86400 * D + 3600 * H + 60 * M + S"
    unfolding D_def H_def M_def S_def
    using div_mult_mod_eq [of q 86400] div_mult_mod_eq [of "q mod 86400" 3600] div_mult_mod_eq [of "q mod 3600" 60]
    by linarith
  then have "t = Sys_timestamp_min + 86400 * D + 3600 * H + 60 * M + S"
    using assms by (simp add: q_def)
  from that [OF this HMS] show ?thesis .
qed

text \<open>The sum of the code, in 32 bits, is the number of seconds.\<close>

lemma calendar_sum:
  assumes "t = Sys_timestamp_min + 86400 * D + 3600 * H + 60 * M + S"
    and "year_start y + month_start y m + d = D"
  shows "(of_nat Sys_timestamp_min + of_nat y * secYear + of_nat (86400 * month_start y m) + of_nat d * secDay
      + of_nat H * secHr + of_nat M * secMin + of_nat S + of_nat (86400 * ((y + 3) div 4)) :: u32) = of_nat t"
proof -
  have "t = Sys_timestamp_min + y * 31536000 + 86400 * month_start y m + d * 86400 + H * 3600 + M * 60 + S +
      86400 * ((y + 3) div 4)"
    unfolding assms(1) assms(2) [symmetric] year_start_def by (simp add: algebra_simps)
  then have "(of_nat t :: u32) = of_nat (Sys_timestamp_min + y * 31536000 + 86400 * month_start y m + d * 86400 +
      H * 3600 + M * 60 + S + 86400 * ((y + 3) div 4))" by (simp only:)
  then show ?thesis by (simp add: secYear_def secDay_def secHr_def secMin_def)
qed

lemma narrow:
  assumes "n < 256"
  shows "(ucast (of_nat n :: u16) :: u8) = of_nat n" "(ucast (of_nat n :: u8) :: u32) = of_nat n"
    "(ucast (of_nat n :: u16) :: u32) = of_nat n"
  using assms by (intro ucast_of_nat_less, simp)+

lemma leap_days:
  assumes "y < 80"
  shows "(ucast ((of_nat y :: u16) div 4) * secDay :: u32) + (if y mod 4 \<noteq> 0 then secDay else 0) =
    of_nat (86400 * ((y + 3) div 4))"
proof -
  have "(of_nat y :: u16) div 4 = of_nat (y div 4)"
    using assms by (simp add: word_unat_eq_iff unat_div_distrib unat_of_nat)
  then show ?thesis
    using assms narrow(3) [of "y div 4"] ceil_div [of 4 y]
    by (cases "y mod 4 = 0") (simp_all add: secDay_def algebra_simps)
qed

lemma from_chip_time:
  assumes t: "t = Sys_timestamp_min + 86400 * D + 3600 * H + 60 * M + S" and HMS: "H < 24" "M < 60" "S < 60"
    and cal: "year_start y + month_start y m + d = D" "m < 12" "d < 31" "y < 80"
  shows "RTC_convertTimeToTimestamp (chip_time y m d H M S w) = Some (scast (of_nat t :: i32))"
proof -
  define r where "r = chip_time y m d H M S w"
  have minus1: "(of_nat (n + 1) - 1 :: u16) = of_nat n" for n by simp
  have uy: "unat (of_nat y :: u16) = y" "unat (of_nat m :: u8) = m"
    using cal by (simp_all add: unat_of_nat)
  have lt: "S < 80" "M < 80" "H < 80" "d + 1 < 80" "m + 1 < 80" "y < 80" using HMS cal by simp_all
  have fields: "RTC_convertToTime_aux (seconds r) = of_nat S" "RTC_convertToTime_aux (minutes r) = of_nat M"
    "RTC_convertToTime_aux (cent_hours r) = of_nat H" "RTC_convertToTime_aux (date r) = of_nat (d + 1)"
    "RTC_convertToTime_aux (month r) = of_nat (m + 1)" "RTC_convertToTime_aux (years r) = of_nat y"
    unfolding r_def chip_time_def RTC_data_s.simps by (rule lt [THEN bcd_round_trip])+
  have secs: "months_seconds (of_nat y) (of_nat m) = Some (of_nat (86400 * month_start y m))"
    using months_seconds_eq [of "of_nat m" "of_nat y"] cal(2) uy by simp
  have lt8: "S < 256" "M < 256" "H < 256" "d < 256" "m < 256" "y < 256" using HMS cal by simp_all
  show ?thesis
    unfolding r_def [symmetric] RTC_convertTimeToTimestamp_def Let_def fields minus1 lt8 [THEN narrow(1)]
      lt8 [THEN narrow(2)] lt8 [THEN narrow(3)] secs Option.bind.simps uy(1) leap_days [OF cal(4)]
      calendar_sum [OF t cal(1)] ..
qed

lemma there_and_back:
  assumes "Sys_timestamp_min \<le> t" "t < 4228675200"
  shows "\<exists>r. RTC_convertTimestampToTime (of_nat t) = Some r \<and>
    RTC_convertTimeToTimestamp r = Some (scast (of_nat t :: i32))"
proof -
  obtain D H M S where t: "t = Sys_timestamp_min + 86400 * D + 3600 * H + 60 * M + S"
    and HMS: "H < 24" "M < 60" "S < 60"
    using day_parts [OF assms(1)] by blast
  have D: "D < 29220" using t assms(2) by (simp add: Sys_timestamp_min_def)
  obtain y m d w where conv: "RTC_convertTimestampToTime (of_nat t) = Some (chip_time y m d H M S w)"
    and cal: "year_start y + month_start y m + d = D" "m < 12" "d < 31"
    using to_time_calendar [OF t _ HMS] D by fastforce
  have "y < 80" using cal(1) D by (simp add: year_start_def)
  then show ?thesis using conv from_chip_time [OF t HMS cal] by blast
qed

lemma scast_i32_nat: "t < 2 ^ 31 \<Longrightarrow> (scast (of_nat t :: i32) :: u64) = of_nat t"
proof -
  assume t: "t < 2 ^ 31"
  have "sint (of_nat t :: i32) = int t"
    using t sint_word_of_int_32 [of "int t"] by (simp add: fits32_def)
  then show ?thesis by (simp add: scast_eq)
qed

text \<open>
  C18: converting a timestamp from the start of 2024 to the last second a signed 32-bit number can
  hold into the chip's registers and back gives the timestamp, leap years and all.
\<close>

theorem rtc_round_trip:
  assumes "Sys_timestamp_min \<le> t" "t < 2 ^ 31"
  shows "\<exists>r. RTC_convertTimestampToTime (of_nat t) = Some r \<and> RTC_convertTimeToTimestamp r = Some (of_nat t)"
  using there_and_back [of t] assms scast_i32_nat [of t] by auto

theorem rtc_round_trip_witness:
  "\<exists>r. RTC_convertTimestampToTime (of_nat 1775055600) = Some r \<and>
     RTC_convertTimeToTimestamp r = Some (of_nat 1775055600)"
  by (rule rtc_round_trip) (simp_all add: Sys_timestamp_min_def)

section \<open>The resynchronisation\<close>

lemma bus_only_fields:
  fixes s s' :: "'a rtc_scheme"
  assumes "bus_only s s'"
  shows "load_ts s' = load_ts s" "ptrTimestamp s' = ptrTimestamp s" "regs s' = regs s"
    "SysTickGetTime_ms s' = SysTickGetTime_ms s"
proof -
  have "hw.more s' = hw.more s" using assms by (simp add: bus_only_def)
  then show p: "ptrTimestamp s' = ptrTimestamp s" and r: "regs s' = regs s"
    and "SysTickGetTime_ms s' = SysTickGetTime_ms s"
    by (cases s; cases s'; simp add: SysTickGetTime_ms_def)+
  have "timestamp_own s' = timestamp_own s" using \<open>hw.more s' = hw.more s\<close> by (cases s; cases s') simp
  then show "load_ts s' = load_ts s" using p r by (simp add: load_ts_def split: ts_pointer.split)
qed

lemma store_then_load: "store_ts v s = Some s' \<Longrightarrow> load_ts s' = Some v"
  by (auto simp: store_ts_def load_ts_def on_regs_eq_Some store_int_def load_int_def arr_set_eq_Some
      Option.bind_eq_Some_conv split: ts_pointer.splits)

lemma store_total: "load_ts s = Some w \<Longrightarrow> \<exists>s'. store_ts v s = Some s'"
  by (auto simp: store_ts_def load_ts_def on_regs_def store_int_def load_int_def arr_get_eq_Some
      Option.bind_eq_Some_conv split: ts_pointer.splits)

lemma to_time_total:
  assumes "ts < 2 ^ 32"
  shows "\<exists>r. RTC_convertTimestampToTime (of_nat ts) = Some r"
proof -
  have *: "\<exists>r. RTC_convertTimestampToTime (of_nat t) = Some r" if ge: "Sys_timestamp_min \<le> t" and "t < 2 ^ 32" for t
  proof -
    obtain D H M S where t: "t = Sys_timestamp_min + 86400 * D + 3600 * H + 60 * M + S"
      and HMS: "H < 24" "M < 60" "S < 60"
      using day_parts [OF ge] by blast
    have "D < 30000" using t \<open>t < 2 ^ 32\<close> by (simp add: Sys_timestamp_min_def)
    then show ?thesis using to_time_calendar [OF t _ HMS] by blast
  qed
  show ?thesis
  proof (cases "Sys_timestamp_min \<le> ts")
    case True
    then show ?thesis using * assms by blast
  next
    case False
    have "ts < 2 ^ 64" using assms by simp
    then have u: "unat (of_nat ts :: u64) = ts" by (rule u64_of_nat)
    have "unat (of_nat Sys_timestamp_min :: u64) = Sys_timestamp_min" by (simp add: Sys_timestamp_min_def)
    then have "(of_nat ts :: u64) < of_nat Sys_timestamp_min"
      using False u by (simp only: word_less_nat_alt)
    then have "RTC_convertTimestampToTime (of_nat ts) = RTC_convertTimestampToTime (of_nat Sys_timestamp_min)"
      by (simp add: RTC_convertTimestampToTime_def)
    then show ?thesis using * [of Sys_timestamp_min] by (simp add: Sys_timestamp_min_def)
  qed
qed

lemma to_time_total_word: "\<exists>r. RTC_convertTimestampToTime (ucast (ts :: u32)) = Some r"
proof -
  have "unat ts < 2 ^ 32" using unsigned_less [of ts] by simp
  from to_time_total [OF this] show ?thesis by (simp only: ucast_via_nat [of ts])
qed

lemma months_seconds_out: "12 < unat m \<Longrightarrow> months_seconds y m = None"
proof (rule ccontr)
  assume m: "12 < unat m" and "months_seconds y m \<noteq> None"
  then obtain t where "months_seconds y m = Some t" by auto
  from this [unfolded months_seconds_def] have "0 + unat m \<le> 12"
    by (rule for_loop_inv [where P = "\<lambda>i _. i \<le> 12"])
      (auto split: if_splits simp: Option.bind_eq_Some_conv arr_get_eq_Some dayToMouth_def)
  then show False using m by simp
qed

text \<open>The month, counted from zero, that the chip's register stands for.\<close>

definition month_read :: "RTC_data_s \<Rightarrow> nat" where
  "month_read t = unat (ucast (RTC_convertToTime_aux (month t) - 1) :: u8)"

lemma to_timestamp_total: "month_read t \<le> 12 \<Longrightarrow> \<exists>v. RTC_convertTimeToTimestamp t = Some (scast (v :: i32))"
  unfolding RTC_convertTimeToTimestamp_def month_read_def Let_def by (subst months_seconds_eq) auto

lemma to_timestamp_out: "12 < month_read t \<Longrightarrow> RTC_convertTimeToTimestamp t = None"
  by (simp add: RTC_convertTimeToTimestamp_def month_read_def Let_def months_seconds_out)

lemma read_chip_total:
  assumes "load_ts s = Some ts"
  shows "\<exists>t s'. RTC_read_chip s = Some (t, s') \<and> bus_only s s'"
proof -
  obtain t where t: "RTC_convertTimestampToTime (ucast ts) = Some t"
    by (rule to_time_total_word [THEN exE])
  obtain st1 s1 where w: "i2cSend_master SysI2C_ADDR_RTC_BQ32000 [0] 1 s = Some (st1, s1)" "bus_only s s1"
    using i2cSend_master_total [of 1 "[0]" SysI2C_ADDR_RTC_BQ32000 s] by auto
  obtain st2 bs s2 where r: "i2cReadLenght_master SysI2C_ADDR_RTC_BQ32000 (rtc_bytes t) 10 s1 = Some (st2, bs, s2)"
    "bus_only s1 s2"
    using i2cReadLenght_master_total [of 10 10 "rtc_bytes t" SysI2C_ADDR_RTC_BQ32000 s1]
    by (auto simp: rtc_bytes_def)
  have "RTC_read_chip s = Some (rtc_of_bytes bs t, s2)"
    using assms t w r by (simp add: RTC_read_chip_def)
  then show ?thesis using bus_only_trans [OF w(2) r(2)] by blast
qed

lemma setValue_total: "\<exists>s'. RTC_setValue v s = Some s' \<and> bus_only s s'"
proof -
  obtain t where t: "RTC_convertTimestampToTime (ucast v) = Some t"
    by (rule to_time_total_word [THEN exE])
  define t' where "t' = t\<lparr>seconds := seconds t AND 0b01111111, minutes := minutes t AND 0b01111111,
       day := day t AND 0b00000111, date := date t AND 0b00111111, month := month t AND 0b00011111,
       cal_cfg1 := 0, tch_2 := 0, cfg_2 := 0\<rparr>"
  obtain st s1 where w: "i2cSend_master SysI2C_ADDR_RTC_BQ32000 (0 # rtc_bytes t') 11 s = Some (st, s1)"
    "bus_only s s1"
    using i2cSend_master_total [of 11 "0 # rtc_bytes t'" SysI2C_ADDR_RTC_BQ32000 s] by (auto simp: rtc_bytes_def)
  have "RTC_setValue v s = Some s1"
    using t w(1) unfolding RTC_setValue_def Let_def t'_def by simp
  then show ?thesis using w(2) by blast
qed

text \<open>A sign-extended number passes the upper limit of the code only when it was not negative.\<close>

lemma scast_limit:
  fixes v :: i32
  defines "w \<equiv> (scast v :: u64)"
  shows "if 0 \<le> sint v then unat w = nat (sint v) \<and> unat w = unat v \<and> unat w < 2 ^ 31 \<and> ucast w = v
    else 7268702400 < w"
proof (cases "0 \<le> sint v")
  case True
  have lt: "sint v < 2 ^ 31" using sint_less [of v] by simp
  have v: "v = of_nat (nat (sint v))" using True by simp
  have small: "nat (sint v) < 2 ^ 31" using lt by simp
  then have "w = of_nat (nat (sint v))" unfolding w_def by (subst v) (rule scast_i32_nat)
  moreover have "nat (sint v) < 2 ^ 64" using small by simp
  ultimately have "unat w = nat (sint v)" by (simp only: u64_of_nat)
  moreover have "unat v = nat (sint v)" using small by (subst v) (simp only: unat_of_nat, simp)
  ultimately show ?thesis using True small by (simp add: ucast_via_nat [of w] v [symmetric])
next
  case False
  have "- (2 ^ 31) \<le> sint v" using sint_ge [of v] by simp
  then have "take_bit 64 (sint v + 2 ^ 64) = sint v + 2 ^ 64"
    using False by (intro take_bit_int_eq_self) simp_all
  moreover have "take_bit 64 (sint v + 2 ^ 64) = take_bit 64 (sint v)"
    unfolding take_bit_eq_mod by (rule mod_add_self2)
  moreover have "uint w = take_bit 64 (sint v)"
    unfolding w_def by (simp only: scast_eq uint_word_of_int_eq) simp
  ultimately have "uint w = sint v + 2 ^ 64" by (simp only:)
  then show ?thesis using False \<open>- (2 ^ 31) \<le> sint v\<close> by (simp add: word_less_def)
qed

text \<open>Whether a time of the chip is taken.\<close>

definition chip_trusted :: "RTC_data_s \<Rightarrow> u64 \<Rightarrow> bool" where
  "chip_trusted t w \<longleftrightarrow> minutes t AND 0b10000000 = 0 \<and> of_nat Sys_timestamp_min \<le> w \<and> w \<le> 7268702400"

lemma resync_trusted:
  assumes chip: "RTC_read_chip s = Some (t, s1)" "RTC_convertTimeToTimestamp t = Some w"
    and "chip_trusted t w"
  shows "RTC_resynchronization s = store_ts (ucast w) s1"
  using assms by (simp add: RTC_resynchronization_def chip_trusted_def not_less [symmetric])

lemma resync_reset:
  assumes chip: "RTC_read_chip s = Some (t, s1)" "RTC_convertTimeToTimestamp t = Some w"
    and "\<not> chip_trusted t w" and "load_ts s1 = Some v"
  shows "\<exists>s'. RTC_resynchronization s = Some s' \<and> load_ts s' = Some (of_nat Sys_timestamp_min)"
proof -
  have bad: "minutes t AND 0b10000000 \<noteq> 0 \<or> w < of_nat Sys_timestamp_min \<or> 7268702400 < w"
    using assms(3) by (auto simp: chip_trusted_def not_le)
  obtain s2 where s2: "store_ts (of_nat Sys_timestamp_min) s1 = Some s2" using store_total [OF assms(4)] by blast
  obtain s3 where s3: "RTC_setValue (of_nat Sys_timestamp_min) s2 = Some s3" "bus_only s2 s3"
    using setValue_total by blast
  obtain r where r: "RTC_convertTimestampToTime (of_nat Sys_timestamp_min) = Some r"
    "RTC_convertTimeToTimestamp r = Some (of_nat Sys_timestamp_min)"
    using there_and_back [of Sys_timestamp_min] scast_i32_nat [of Sys_timestamp_min]
    by (auto simp: Sys_timestamp_min_def)
  have "load_ts s3 = Some (of_nat Sys_timestamp_min)"
    using bus_only_fields(1) [OF s3(2)] store_then_load [OF s2] by simp
  then obtain s4 where s4: "store_ts (of_nat Sys_timestamp_min) s3 = Some s4" using store_total by blast
  have u: "(ucast (of_nat Sys_timestamp_min :: u64) :: u32) = of_nat Sys_timestamp_min"
    by (simp add: Sys_timestamp_min_def)
  have "RTC_resynchronization s = Some s4"
    using chip bad s2 s3(1) r s4 unfolding RTC_resynchronization_def by (simp add: u)
  then show ?thesis using store_then_load [OF s4] by blast
qed

text \<open>
  C22: whatever the chip answers, a synchronisation that returns leaves a timestamp that is at least
  the start of 2024 and fits a signed 32-bit number: the chip's time when its stop bit is clear and
  the time is in that range, the start of 2024 otherwise. It returns for the months 1 to 13 of the
  chip (counted from zero: up to 12); for any other month the table of months is read outside.
\<close>

theorem resynchronization_outcome:
  assumes "load_ts s = Some ts"
  shows "\<exists>t s1. RTC_read_chip s = Some (t, s1) \<and>
    (if 12 < month_read t then RTC_resynchronization s = None
     else \<exists>w s' v. RTC_convertTimeToTimestamp t = Some w \<and> RTC_resynchronization s = Some s' \<and>
       load_ts s' = Some v \<and> Sys_timestamp_min \<le> unat v \<and> unat v < 2 ^ 31 \<and>
       v = (if chip_trusted t w then ucast w else of_nat Sys_timestamp_min))"
proof -
  obtain t s1 where chip: "RTC_read_chip s = Some (t, s1)" "bus_only s s1"
    using read_chip_total [OF assms] by blast
  have l1: "load_ts s1 = Some ts" using assms bus_only_fields(1) [OF chip(2)] by simp
  have umin: "unat (of_nat Sys_timestamp_min :: u64) = Sys_timestamp_min"
    "unat (of_nat Sys_timestamp_min :: u32) = Sys_timestamp_min" by (simp_all add: Sys_timestamp_min_def)
  show ?thesis
  proof (cases "12 < month_read t")
    case True
    then show ?thesis using chip to_timestamp_out [of t] by (simp add: RTC_resynchronization_def)
  next
    case False
    then obtain v where w: "RTC_convertTimeToTimestamp t = Some (scast (v :: i32))"
      using to_timestamp_total [of t] by auto
    show ?thesis
    proof (cases "chip_trusted t (scast v)")
      case good: True
      then have "0 \<le> sint v" using scast_limit [of v] by (auto simp: chip_trusted_def not_le [symmetric] split: if_splits)
      then have v: "unat (scast v :: u64) = unat v" "unat v < 2 ^ 31" "ucast (scast v :: u64) = v"
        using scast_limit [of v] by auto
      have "Sys_timestamp_min \<le> unat v"
        using good v(1) umin by (simp add: chip_trusted_def word_le_nat_alt)
      moreover obtain s' where "RTC_resynchronization s = Some s'" "load_ts s' = Some v"
        using resync_trusted [OF chip(1) w good] store_total [OF l1, of v] v(3) store_then_load by metis
      ultimately show ?thesis using chip(1) w v good False by auto
    next
      case bad: False
      then show ?thesis
        using resync_reset [OF chip(1) w bad l1] chip(1) w False umin by (auto simp: Sys_timestamp_min_def)
    qed
  qed
qed

definition rtc_zero :: rtc where
  "rtc_zero = flash.extend flash_zero \<lparr>flagBegin = False, last_time_resynchronization = 0,
     time_resynchronization = 3600000, timestamp_own = 0, ptrTimestamp = Ts_Unset\<rparr>"

lemma rtc_zero_fields [simp]:
  "flagBegin rtc_zero = False" "last_time_resynchronization rtc_zero = 0"
  "time_resynchronization rtc_zero = 3600000" "timestamp_own rtc_zero = 0" "ptrTimestamp rtc_zero = Ts_Unset"
  "SysTickCount rtc_zero = 0" "regs rtc_zero = reg_zero" "mq rtc_zero = queue_zero" "eeprom_on rtc_zero = 0"
  "task_vet rtc_zero = task_vet flash_zero"
  by (simp_all add: rtc_zero_def flash.defs flash_zero_def iap.defs device.defs device_zero_def tasks.defs
      task_zero_def i2c.defs i2c_zero_def interrupt.defs int_zero_def adc.defs adc_zero_def gpio.defs gpio_zero_def)

lemma time_zero: "SysTickCount s = 0 \<Longrightarrow> SysTickGetTime_ms s = 0"
  by (simp add: SysTickGetTime_ms_def)

theorem resynchronization_outcome_witness:
  "\<exists>t s1. RTC_read_chip (rtc_zero\<lparr>ptrTimestamp := Ts_Own\<rparr>) = Some (t, s1) \<and>
    (if 12 < month_read t then RTC_resynchronization (rtc_zero\<lparr>ptrTimestamp := Ts_Own\<rparr>) = None
     else \<exists>w s' v. RTC_convertTimeToTimestamp t = Some w \<and>
       RTC_resynchronization (rtc_zero\<lparr>ptrTimestamp := Ts_Own\<rparr>) = Some s' \<and>
       load_ts s' = Some v \<and> Sys_timestamp_min \<le> unat v \<and> unat v < 2 ^ 31 \<and>
       v = (if chip_trusted t w then ucast w else of_nat Sys_timestamp_min))"
  by (rule resynchronization_outcome [of _ "timestamp_own rtc_zero"]) (simp add: load_ts_def)



lemma mod_plus_le: "b \<le> a \<Longrightarrow> a mod b + b \<le> a" for a b :: nat
proof -
  assume "b \<le> a"
  then have "a mod b \<le> a - b" using mod_less_eq_dividend [of "a - b" b] by (simp add: le_mod_geq)
  then show ?thesis using \<open>b \<le> a\<close> by linarith
qed

text \<open>
  The clock task talks to the chip only when the period has passed since the last
  synchronisation, as long as the uptime fits 32 bits of milliseconds; after that, about fifty
  days, the subtraction of the truncated time is at least \<open>2 ^ 32\<close> and every call synchronises.
\<close>

theorem clock_task_period:
  assumes "flagBegin s" "last_time_resynchronization s = ucast t0" "t0 \<le> SysTickGetTime_ms s"
  shows "RTC_loop s =
    (if unat t0 < 2 ^ 32 \<and> unat (SysTickGetTime_ms s) < unat t0 + unat (time_resynchronization s)
     then Some s
     else map_option (\<lambda>s. s\<lparr>last_time_resynchronization := ucast (SysTickGetTime_ms s)\<rparr>)
            (RTC_resynchronization s))"
proof -
  define now per where "now = SysTickGetTime_ms s" and "per = time_resynchronization s"
  define l where "l = (ucast (ucast t0 :: u32) :: u64)"
  have l: "unat l = unat t0 mod 2 ^ 32"
    unfolding l_def by (simp add: unsigned_ucast_eq take_bit_eq_mod unat_mod_distrib)
  have le: "unat t0 \<le> unat now" using assms(3) by (simp add: now_def word_le_nat_alt)
  then have "unat l \<le> unat now" using l mod_less_eq_dividend [of "unat t0" "2 ^ 32"] by linarith
  then have d: "unat (now - l) = unat now - unat t0 mod 2 ^ 32" using l by (simp add: unat_sub word_le_nat_alt)
  have p32: "unat per < 2 ^ 32" using unsigned_less [of per] by simp
  then have "unat per < 2 ^ 64" by simp
  from u64_of_nat [OF this] have p: "unat (ucast per :: u64) = unat per" by (simp only: ucast_via_nat [of per])
  have "unat t0 mod 2 ^ 32 + 2 ^ 32 \<le> unat t0" if "2 ^ 32 \<le> unat t0"
    using that by (rule mod_plus_le)
  then have "now - l < ucast per \<longleftrightarrow> unat t0 < 2 ^ 32 \<and> unat now < unat t0 + unat per"
    using le d p p32 unfolding word_less_nat_alt by (cases "unat t0 < 2 ^ 32") auto
  then show ?thesis
    using assms(1,2) unfolding RTC_loop_def Let_def now_def [symmetric] per_def [symmetric] l_def
    by (cases "RTC_resynchronization s") auto
qed

theorem clock_task_period_witness:
  "RTC_loop (rtc_zero\<lparr>flagBegin := True\<rparr>) = Some (rtc_zero\<lparr>flagBegin := True\<rparr>)"
  using clock_task_period [of "rtc_zero\<lparr>flagBegin := True\<rparr>" 0]
  by (simp add: time_zero)

end
