(* ===== verification/Message_Manager.thy ===== *)
theory Message_Manager
  imports Rtc
begin

text \<open>
  \<open>services/message_manager/message_manager.c\<close>, the part behind the queue: the handlers of the
  answers and the loop that sends the message at the head, waits, takes the answer and pops. The
  answer buffers are arrays of the handlers' computed length; a length below one is undefined. No
  handler looks at a byte of them before the read of all of them succeeded, so they start as zeros.
\<close>

section \<open>Codes\<close>

definition Modbus_Get_Bool_Reg :: u8 where "Modbus_Get_Bool_Reg = 0x01"
definition Modbus_Get_Discrete_Input :: u8 where "Modbus_Get_Discrete_Input = 0x02"
definition Modbus_Get_Num_Reg :: u8 where "Modbus_Get_Num_Reg = 0x03"
definition Modbus_Read_Input_Reg :: u8 where "Modbus_Read_Input_Reg = 0x04"
definition Modbus_Set_Bool_Reg :: u8 where "Modbus_Set_Bool_Reg = 0x05"
definition Modbus_Set_Single_Reg :: u8 where "Modbus_Set_Single_Reg = 0x06"
definition Modbus_Read_Exception :: u8 where "Modbus_Read_Exception = 0x07"
definition Modbus_Diagnostics :: u8 where "Modbus_Diagnostics = 0x08"
definition Modbus_Get_Event_Counter :: u8 where "Modbus_Get_Event_Counter = 0x0B"
definition Modbus_Get_Event_Log :: u8 where "Modbus_Get_Event_Log = 0x0C"
definition Modbus_Set_Mult_Bool_Reg :: u8 where "Modbus_Set_Mult_Bool_Reg = 0x0F"
definition Modbus_Set_Mult_Num_Reg :: u8 where "Modbus_Set_Mult_Num_Reg = 0x10"
definition Modbus_Report_Slave_ID :: u8 where "Modbus_Report_Slave_ID = 0x11"
definition Modbus_Read_File_Record :: u8 where "Modbus_Read_File_Record = 0x14"
definition Modbus_Write_File_Record :: u8 where "Modbus_Write_File_Record = 0x15"
definition Modbus_Mask_Write_Register :: u8 where "Modbus_Mask_Write_Register = 0x16"
definition Modbus_RW_Mult_Registers :: u8 where "Modbus_RW_Mult_Registers = 0x17"
definition Modbus_Read_FIFO_Queue :: u8 where "Modbus_Read_FIFO_Queue = 0x18"
definition Modbus_Read_Device_ID :: u8 where "Modbus_Read_Device_ID = 0x2B"

definition replyFail :: int where "replyFail = 0"
definition replyOK :: int where "replyOK = 1"

section \<open>Announcing changes\<close>

text \<open>
  A message that writes registers of another device from a bank. The structure is built on the stack
  with its CRC unset; the sender fills the CRC in.
\<close>

definition set_message_of :: "u8 \<Rightarrow> u32 \<Rightarrow> u32 \<Rightarrow> u32 \<Rightarrow> reg_pointer \<Rightarrow> i2c_modbus_s" where
  "set_message_of ad ra n nb p = message_default\<lparr>code := Sys_Modbus_Set_Mult_Num_Reg,
     RegAddr := ucast ra, nReg := ucast n, bytes := ucast nb, ptrMessage := p, addr := ad,
     size_head := 6, size_message := ucast (ucast nb :: u8)\<rparr>"

definition post :: "i2c_modbus_s \<Rightarrow> 'a device_scheme \<Rightarrow> 'a device_scheme option" where
  "post m s = do { (st, s) \<leftarrow> new_message m s; Some s }"

definition Reg_chage :: "u8 \<Rightarrow> u8 \<Rightarrow> 'a device_scheme \<Rightarrow> 'a device_scheme option" where
  "Reg_chage ad flag s =
     (if flag = 0 then Some s
      else do {
        s \<leftarrow> (if flag AND 0b001 \<noteq> 0
             then post (set_message_of ad Sys_RegMap_Offset_Bool Sys_RegMap_Nreg_Bool
                    (Sys_RegMap_Nreg_Bool div 8 + 1) reg_ptr_bool) s
             else Some s);
        s \<leftarrow> (if flag AND 0b010 \<noteq> 0
             then do {
               p \<leftarrow> reg_ptr_short Sys_RegMap_Model;
               post (set_message_of ad Sys_RegMap_Offset_Short Sys_RegMap_Nreg_Short
                    (Sys_RegMap_Nreg_Short * 2) p) s }
             else Some s);
        (if flag AND 0b100 \<noteq> 0
         then do {
           p \<leftarrow> reg_ptr_int Sys_RegMap_Flux_Calib;
           post (set_message_of ad Sys_RegMap_Flux_Calib Sys_RegMap_Nreg_Int_static
                (Sys_RegMap_Nreg_Int_static * 4) p) s }
         else Some s) })"

section \<open>The handlers of the answers\<close>

text \<open>What most of them start with: read \<open>sizeReply\<close> bytes and check their CRC; no answer is \<open>None\<close> inside.\<close>

definition read_reply ::
  "u8 \<Rightarrow> i32 \<Rightarrow> 'a i2c_scheme \<Rightarrow> (u8 list option \<times> 'a i2c_scheme) option" where
  "read_reply ad sizeReply s =
     (if sint sizeReply < 1 then None
      else do {
        (st, ptrReply, s) \<leftarrow> i2cReadLenght_master ad (replicate (nat (sint sizeReply)) 0) sizeReply s;
        if st \<noteq> i2cStat_OK then Some (None, s)
        else do {
          ok \<leftarrow> CHECK_CRC16 ptrReply sizeReply;
          Some (if ok then Some ptrReply else None, s) } })"

text \<open>The first \<open>n\<close> bytes of the answer against the bytes \<open>ptrMessage\<close> points to.\<close>

definition echoes :: "nat \<Rightarrow> i2c_modbus_s \<Rightarrow> u8 list \<Rightarrow> reg_state \<Rightarrow> bool option" where
  "echoes n m ptrReply r = map_option Not
     (vet_differs 0 n (\<lambda>i. do {
        a \<leftarrow> arr_get (payload (ptrMessage m) r) i; b \<leftarrow> arr_get ptrReply i; Some (a \<noteq> b) }))"

definition Generic_Set_Reg ::
  "i2c_modbus_s \<Rightarrow> 'a device_scheme \<Rightarrow> (int \<times> 'a device_scheme) option" where
  "Generic_Set_Reg m s = do {
     let sizeReply = (if code m = Modbus_Diagnostics then 5 else 7);
     (reply, s) \<leftarrow> read_reply (addr m) sizeReply s;
     (case reply of
        None \<Rightarrow> Some (replyFail, s)
      | Some ptrReply \<Rightarrow> do {
          ok \<leftarrow> echoes (nat (sint (sizeReply - 2))) m ptrReply (regs s);
          Some (if ok then replyOK else replyFail, s) }) }"

definition Generic_Read_Reg ::
  "i2c_modbus_s \<Rightarrow> 'a device_scheme \<Rightarrow> (int \<times> 'a device_scheme) option" where
  "Generic_Read_Reg m s = (
     let nBytes = Sys_RegMap_GetRegBytes (scast (RegAddr m)) * scast (nReg m) in
     if sint nBytes < 1 then Some (replyFail, s)
     else do {
       (reply, s) \<leftarrow> read_reply (addr m) (4 + nBytes) s;
       (case reply of
          None \<Rightarrow> Some (replyFail, s)
        | Some ptrReply \<Rightarrow> do {
            s \<leftarrow> on_regs (reg_write_vet (drop 2 ptrReply) (scast (nReg m)) (scast (RegAddr m))) s;
            Some (replyOK, s) }) })"

text \<open>The bits of the answer, most significant first, until \<open>nReg\<close> is counted down to zero.\<close>

primrec get_bool_loop ::
  "nat \<Rightarrow> nat \<Rightarrow> i32 \<Rightarrow> i32 \<Rightarrow> u8 list \<Rightarrow> reg_state \<Rightarrow> (int \<times> reg_state) option" where
  "get_bool_loop 0 k nr addrAux ptrReply r = Some (replyFail, r)"
| "get_bool_loop (Suc n) k nr addrAux ptrReply r = do {
     b \<leftarrow> arr_get ptrReply (2 + k div 8);
     r \<leftarrow> reg_write_bool (b AND drop_bit (k mod 8) 0b10000000 \<noteq> 0) addrAux r;
     if nr - 1 = 0 then Some (replyOK, r)
     else get_bool_loop n (Suc k) (nr - 1) (addrAux + 1) ptrReply r }"

definition Get_Bool_Reg ::
  "i2c_modbus_s \<Rightarrow> 'a device_scheme \<Rightarrow> (int \<times> 'a device_scheme) option" where
  "Get_Bool_Reg m s = do {
     let sizeReply = word_of_int (4 + sint (nReg m) sdiv 8 + (if sint (nReg m) smod 8 \<noteq> 0 then 1 else 0));
     (reply, s) \<leftarrow> read_reply (addr m) sizeReply s;
     (case reply of
        None \<Rightarrow> Some (replyFail, s)
      | Some ptrReply \<Rightarrow> do {
          n \<leftarrow> arr_get ptrReply 1;
          (st, r) \<leftarrow> get_bool_loop (8 * unat n) 0 (scast (nReg m)) (scast (RegAddr m)) ptrReply (regs s);
          Some (st, s\<lparr>regs := r\<rparr>) }) }"

text \<open>Handlers that only look whether an answer arrived.\<close>

definition answered :: "i32 \<Rightarrow> i2c_modbus_s \<Rightarrow> 'a device_scheme \<Rightarrow> (int \<times> 'a device_scheme) option" where
  "answered sizeReply m s = do {
     (reply, s) \<leftarrow> read_reply (addr m) sizeReply s;
     Some (if reply = None then replyFail else replyOK, s) }"

definition Read_Exception where "Read_Exception = answered 4"
definition Get_Event_Counter where "Get_Event_Counter = answered 5"

definition Get_Event_Log ::
  "i2c_modbus_s \<Rightarrow> 'a device_scheme \<Rightarrow> (int \<times> 'a device_scheme) option" where
  "Get_Event_Log m s = do {
     (st, ptrReply, s) \<leftarrow> i2cRead_master (addr m) (replicate 0xFF 0) s;
     if st \<noteq> i2cStat_OK then Some (replyFail, s)
     else do {
       n \<leftarrow> arr_get ptrReply 1;
       ok \<leftarrow> CHECK_CRC16 ptrReply (ucast n * 2 + 4);
       Some (if ok then replyOK else replyFail, s) } }"

definition Read_File_Record ::
  "i2c_modbus_s \<Rightarrow> 'a device_scheme \<Rightarrow> (int \<times> 'a device_scheme) option" where
  "Read_File_Record m s = do {
     (st, ptrReply, s) \<leftarrow> i2cRead_master (addr m) (replicate 0xFF 0) s;
     if st \<noteq> i2cStat_OK then Some (replyFail, s)
     else do {
       n \<leftarrow> arr_get ptrReply 1;
       ok \<leftarrow> CHECK_CRC16 ptrReply (ucast n);
       Some (if ok then replyOK else replyFail, s) } }"

text \<open>Only the WiFi module answers with its identification; it may carry the time and change flags.\<close>

definition Report_Slave_ID ::
  "i2c_modbus_s \<Rightarrow> 'a rtc_scheme \<Rightarrow> (int \<times> 'a rtc_scheme) option" where
  "Report_Slave_ID m s =
     (if addr m \<noteq> SysI2C_ADDR_WiFi then Some (replyFail, s)
      else do {
        (reply, s) \<leftarrow> read_reply (addr m) 16 s;
        (case reply of
           None \<Rightarrow> Some (replyFail, s)
         | Some ptrReply \<Rightarrow> do {
             ptrTimestamp_local \<leftarrow> reg_ptr_int Sys_RegMap_Timestamp;
             timestamp_ref \<leftarrow> arr_get (as_ints (take 4 (drop 9 ptrReply))) 0;
             s \<leftarrow> (if timestamp_ref \<noteq> 0
                  then do {
                    s \<leftarrow> on_regs (store_int ptrTimestamp_local timestamp_ref) s;
                    RTC_setValue timestamp_ref s }
                  else Some s);
             flag \<leftarrow> arr_get ptrReply 13;
             s \<leftarrow> Reg_chage SysI2C_ADDR_WiFi flag s;
             Some (replyOK, s) }) })"

definition Write_File_Record ::
  "i2c_modbus_s \<Rightarrow> 'a device_scheme \<Rightarrow> (int \<times> 'a device_scheme) option" where
  "Write_File_Record m s = do {
     (reply, s) \<leftarrow> read_reply (addr m) 10 s;
     (case reply of
        None \<Rightarrow> Some (replyFail, s)
      | Some ptrReply \<Rightarrow> do {
          ok \<leftarrow> echoes 8 m ptrReply (regs s);
          Some (if ok then replyOK else replyFail, s) }) }"

definition RW_Mult_Registers ::
  "i2c_modbus_s \<Rightarrow> 'a device_scheme \<Rightarrow> (int \<times> 'a device_scheme) option" where
  "RW_Mult_Registers m s = (
     let nBytes = (ucast (Sys_RegMap_GetRegBytes (scast (RegAddr m))) :: i16) in
     if sint nBytes \<le> 0 then Some (replyFail, s)
     else do {
       let nBytes = nBytes * nReg m;
       (reply, s) \<leftarrow> read_reply (addr m) (4 + scast nBytes) s;
       (case reply of
          None \<Rightarrow> Some (replyFail, s)
        | Some ptrReply \<Rightarrow> do {
            s \<leftarrow> on_regs (reg_write_vet (drop 2 ptrReply) (scast (nReg m)) (scast (RegAddr m))) s;
            Some (replyOK, s) }) })"

definition Get_Discrete_Input where "Get_Discrete_Input = Generic_Read_Reg"
definition Get_Num_Reg where "Get_Num_Reg = Generic_Read_Reg"
definition Read_Input_Reg where "Read_Input_Reg = Generic_Read_Reg"
definition Set_Bool_Reg where "Set_Bool_Reg = Generic_Set_Reg"
definition Set_Single_Reg where "Set_Single_Reg = Generic_Set_Reg"
definition Diagnostics where "Diagnostics = Generic_Set_Reg"
definition Set_Mult_Bool_Reg where "Set_Mult_Bool_Reg = Generic_Set_Reg"
definition Set_Mult_Num_Reg where "Set_Mult_Num_Reg = Generic_Set_Reg"

definition Mask_Write_Register :: "i2c_modbus_s \<Rightarrow> 's \<Rightarrow> (int \<times> 's) option" where
  "Mask_Write_Register m s = Some (replyFail, s)"
definition Read_FIFO_Queue :: "i2c_modbus_s \<Rightarrow> 's \<Rightarrow> (int \<times> 's) option" where
  "Read_FIFO_Queue m s = Some (replyFail, s)"
definition Read_Device_ID :: "i2c_modbus_s \<Rightarrow> 's \<Rightarrow> (int \<times> 's) option" where
  "Read_Device_ID m s = Some (replyFail, s)"

section \<open>The loop\<close>

text \<open>The switch over the code of the message; the default branch leaves the status of the sending.\<close>

definition take_answer ::
  "int \<Rightarrow> i2c_modbus_s \<Rightarrow> 'a rtc_scheme \<Rightarrow> (int \<times> 'a rtc_scheme) option" where
  "take_answer statusAux m s = (
     let c = code m in
     if c = Modbus_Get_Bool_Reg then Get_Bool_Reg m s
     else if c = Modbus_Get_Discrete_Input then Get_Discrete_Input m s
     else if c = Modbus_Get_Num_Reg then Get_Num_Reg m s
     else if c = Modbus_Read_Input_Reg then Read_Input_Reg m s
     else if c = Modbus_Set_Bool_Reg then Set_Bool_Reg m s
     else if c = Modbus_Set_Single_Reg then Set_Single_Reg m s
     else if c = Modbus_Read_Exception then Read_Exception m s
     else if c = Modbus_Diagnostics then Diagnostics m s
     else if c = Modbus_Get_Event_Counter then Get_Event_Counter m s
     else if c = Modbus_Get_Event_Log then Get_Event_Log m s
     else if c = Modbus_Set_Mult_Bool_Reg then Set_Mult_Bool_Reg m s
     else if c = Modbus_Set_Mult_Num_Reg then Set_Mult_Num_Reg m s
     else if c = Modbus_Report_Slave_ID then Report_Slave_ID m s
     else if c = Modbus_Read_File_Record then Read_File_Record m s
     else if c = Modbus_Write_File_Record then Write_File_Record m s
     else if c = Modbus_Mask_Write_Register then Mask_Write_Register m s
     else if c = Modbus_RW_Mult_Registers then RW_Mult_Registers m s
     else if c = Modbus_Read_FIFO_Queue then Read_FIFO_Queue m s
     else if Modbus_Read_Device_ID \<le> c then Read_Device_ID m s
     else Some (statusAux, s))"

text \<open>The message at the head of the queue, and a store to it.\<close>

definition head_message :: "'a device_scheme \<Rightarrow> i2c_modbus_s option" where
  "head_message s = do { p \<leftarrow> ptrQueue (mq s); e \<leftarrow> arr_get (Queue (mq s)) p; Some (message e) }"

definition store_head :: "i2c_modbus_s \<Rightarrow> 'a device_scheme \<Rightarrow> 'a device_scheme option" where
  "store_head m s = do {
     p \<leftarrow> ptrQueue (mq s); q \<leftarrow> set_message p m (mq s); Some (s\<lparr>mq := q\<rparr>) }"

definition message_loop_aux ::
  "('a rtc_scheme \<Rightarrow> 'a rtc_scheme option) \<Rightarrow> 'a rtc_scheme \<Rightarrow> 'a rtc_scheme option" where
  "message_loop_aux idle s = do {
     let s = task_scheduler_pause s;
     m \<leftarrow> head_message s;
     (statusAux, m, s) \<leftarrow> i2cSend_master_modbus m (regs s) s;
     s \<leftarrow> store_head m s;
     let s = task_scheduler_continue s;
     s \<leftarrow> task_delay_ms idle Sys_Modbus_Time_Reply s;
     let s = task_scheduler_pause s;
     m \<leftarrow> head_message s;
     (statusAux, s) \<leftarrow> take_answer statusAux m s;
     s \<leftarrow> (if statusAux = replyFail
          then do { m \<leftarrow> head_message s; Some (snd (i2cReadClearBuffer_master (addr m) s)) }
          else Some s);
     Some (task_scheduler_continue s) }"

definition message_loop ::
  "('a rtc_scheme \<Rightarrow> 'a rtc_scheme option) \<Rightarrow> 'a rtc_scheme \<Rightarrow> 'a rtc_scheme option" where
  "message_loop idle s =
     (if message_init (mq s) = 0 then Some s
      else if message_queue_lenght (mq s) = 0 then Some s
      else do {
        m \<leftarrow> head_message s;
        s \<leftarrow> (if addr m = SysI2C_ADDR_ALL
             then for_loop 0 (length SysI2C_ADDR_Slave_Vet) (\<lambda>i s. do {
                    ad \<leftarrow> arr_get SysI2C_ADDR_Slave_Vet i;
                    m \<leftarrow> head_message s;
                    s \<leftarrow> store_head (m\<lparr>addr := ad\<rparr>) s;
                    s \<leftarrow> message_loop_aux idle s;
                    task_delay_ms idle Sys_Modbus_Time_Reply s }) s
             else message_loop_aux idle s);
        q \<leftarrow> message_pop (mq s);
        task_delay_ms idle Sys_Modbus_Time_Reply (s\<lparr>mq := q\<rparr>) })"

section \<open>Answers\<close>

text \<open>
  A read of at most 255 bytes always returns and touches nothing but the bus; what it hands to the
  handler is what came over the bus, with a good CRC.
\<close>

lemma read_reply_total:
  assumes "sint n = int l" "2 \<le> l" "l \<le> 255"
  shows "\<exists>reply s' vs. read_reply ad n s = Some (reply, s') \<and> bus_only s s' \<and>
    mst_received s' = mst_received s @ vs \<and>
    (\<forall>bs. reply = Some bs \<longrightarrow> bs = map ucast vs \<and> length bs = l \<and> crc_spec bs = 0)"
proof -
  obtain st bs s' vs where r: "i2cReadLenght_master ad (replicate l 0) n s = Some (st, bs, s')"
    "bus_only s s'" "length bs = l" "mst_received s' = mst_received s @ vs"
    "st = i2cStat_OK \<longrightarrow> length vs = l \<and> bs = map ucast vs @ drop l (replicate l 0)"
    using i2cReadLenght_master_total [of n l "replicate l 0" ad s] assms by auto
  have n: "unat n = l"
  proof -
    have "n = word_of_int (int l)"
      using arg_cong [OF assms(1), of "word_of_int :: int \<Rightarrow> i32"] by simp
    then show ?thesis using assms(3) by (simp add: unat_of_nat)
  qed
  have crc: "CHECK_CRC16 bs n = Some (crc_spec bs = 0)"
    using CHECK_CRC16_residue [of n bs] n r(3) assms(2) by simp
  have "read_reply ad n s = Some (if st = i2cStat_OK \<and> crc_spec bs = 0 then Some bs else None, s')"
    using r(1) crc assms(1,2) by (simp add: read_reply_def)
  then show ?thesis using r by auto
qed

lemma vet_differs_lists:
  "k + n \<le> length xs \<Longrightarrow> k + n \<le> length ys \<Longrightarrow>
   vet_differs k n (\<lambda>i. do { a \<leftarrow> arr_get xs i; b \<leftarrow> arr_get ys i; Some (a \<noteq> b) }) =
     Some (take n (drop k xs) \<noteq> take n (drop k ys))"
proof (induction n arbitrary: k)
  case (Suc n)
  have "take (Suc n) (drop k xs) = xs ! k # take n (drop (Suc k) xs)"
    "take (Suc n) (drop k ys) = ys ! k # take n (drop (Suc k) ys)"
    using Suc.prems by (simp_all add: Cons_nth_drop_Suc [symmetric])
  then show ?case using Suc by simp
qed simp

lemma echoes_eq:
  "n \<le> length (payload (ptrMessage m) r) \<Longrightarrow> n \<le> length bs \<Longrightarrow>
   echoes n m bs r = Some (take n (payload (ptrMessage m) r) = take n bs)"
  using vet_differs_lists [of 0 n "payload (ptrMessage m) r" bs] by (simp add: echoes_def)

lemma bus_only_regs:
  fixes s s' :: "'a device_scheme"
  assumes "bus_only s s'"
  shows "regs s' = regs s" "mq s' = mq s"
proof -
  have "hw.more s' = hw.more s" using assms by (simp add: bus_only_def)
  then show "regs s' = regs s" "mq s' = mq s" by (cases s; cases s'; simp)+
qed

lemma Generic_Set_Reg_total:
  assumes "code m \<noteq> Modbus_Diagnostics" "5 \<le> length (payload (ptrMessage m) (regs s))"
  shows "\<exists>reply s' vs. read_reply (addr m) 7 s = Some (reply, s') \<and> bus_only s s' \<and>
    mst_received s' = mst_received s @ vs \<and>
    (\<forall>bs. reply = Some bs \<longrightarrow> bs = map ucast vs \<and> length bs = 7 \<and> crc_spec bs = 0) \<and>
    Generic_Set_Reg m s = Some
      (if \<exists>bs. reply = Some bs \<and> take 5 bs = take 5 (payload (ptrMessage m) (regs s))
       then replyOK else replyFail, s')"
proof -
  obtain reply s' vs where r: "read_reply (addr m) 7 s = Some (reply, s')" "bus_only s s'"
    "mst_received s' = mst_received s @ vs"
    "\<forall>bs. reply = Some bs \<longrightarrow> bs = map ucast vs \<and> length bs = 7 \<and> crc_spec bs = 0"
    using read_reply_total [of 7 7 "addr m" s] by auto
  have "regs s' = regs s" by (rule bus_only_regs [OF r(2)])
  then have "Generic_Set_Reg m s = Some
      (if \<exists>bs. reply = Some bs \<and> take 5 bs = take 5 (payload (ptrMessage m) (regs s))
       then replyOK else replyFail, s')"
    using r(1,4) assms echoes_eq [of 5 m "regs s"]
    by (cases reply) (auto simp: Generic_Set_Reg_def)
  then show ?thesis using r by blast
qed



section \<open>The answers of unknown length\<close>

lemma read_master_loop_OK:
  "i2cRead_master_loop n i buf s = Some (i2cStat_OK, buf', s') \<Longrightarrow> n = 0 \<or> i + n \<le> length buf"
proof (induction n arbitrary: i buf s)
  case (Suc n)
  obtain st s1 where w: "WaitI2cMasterState I2C_STAT_MSTST_RXRDY s = (st, s1)" by fastforce
  obtain v s2 where rd: "hw_read I2C_MSTDAT s1 = (v, s2)" by fastforce
  have "st = i2cStat_OK" using Suc.prems w by (auto split: if_splits)
  then have "i < length buf \<and>
      i2cRead_master_loop n (Suc i) (buf[i := ucast v]) (hw_write I2C_MSTCTL MSTCTL_CONTINUE s2) =
        Some (i2cStat_OK, buf', s')"
    using Suc.prems w rd by (auto simp: Option.bind_eq_Some_conv arr_set_eq_Some)
  then show ?case using Suc.IH by fastforce
qed simp

lemma read_master_never_OK:
  "length buf < 511 \<Longrightarrow> i2cRead_master ad buf s = Some (st, buf', s') \<Longrightarrow> st \<noteq> i2cStat_OK"
  using read_master_loop_OK [where n = 511 and i = 0 and buf = buf]
  by (auto simp: i2cRead_master_def Option.bind_eq_Some_conv Let_def split: prod.splits if_splits)

text \<open>
  The event log and the file record are never accepted: their handlers read 511 bytes into a
  buffer of 255, so the transfer either stops early, which is a failure, or writes behind the
  buffer. The checks of the CRC that follow are never reached.
\<close>

theorem event_log_never_accepted:
  "Get_Event_Log m s = map_option (\<lambda>(st, bs, s'). (replyFail, s')) (i2cRead_master (addr m) (replicate 0xFF 0) s)
   \<and> Read_File_Record m s = Get_Event_Log m s"
proof (cases "i2cRead_master (addr m) (replicate 0xFF 0) s")
  case None
  then show ?thesis by (simp add: Get_Event_Log_def Read_File_Record_def)
next
  case (Some x)
  obtain st bs s' where x: "x = (st, bs, s')" by (cases x)
  have "st \<noteq> i2cStat_OK" using read_master_never_OK [of "replicate 0xFF 0" "addr m" s st bs s'] Some x by simp
  then show ?thesis using Some x by (simp add: Get_Event_Log_def Read_File_Record_def)
qed

end
