(* ===== verification/Message_Loop.thy ===== *)
theory Message_Loop
  imports Message_Manager
begin

text \<open>
  Rounds of \<open>message_loop\<close>: which messages the program queues, and that a round over such a queue
  returns, consumes exactly the head and keeps the queue well formed. Between two reads of the
  clock the system tick runs and no task is due, which is what \<open>idle_tick\<close> does.
\<close>

section \<open>The messages of the program\<close>

text \<open>
  A message the loop can handle: it sends what it points to and no more, and it is the default
  message, a status request, or a write whose payload has at least the bytes its answer is compared
  with.
\<close>

definition own_message :: "i2c_modbus_s \<Rightarrow> bool" where
  "own_message m \<longleftrightarrow> 0 \<le> sint (size_head m) \<and> sint (size_head m) \<le> 6 \<and>
     (code m = 0 \<and> size_message m = 0 \<or> code m = Modbus_Report_Slave_ID \<and> size_message m = 0 \<or>
      code m = Modbus_Set_Mult_Num_Reg \<and> 0 \<le> sint (size_message m) \<and>
      (\<exists>off. ptrMessage m = Reg_Vet off \<and> off + max 5 (nat (sint (size_message m))) \<le> 784))"

definition bool_message :: "u8 \<Rightarrow> i2c_modbus_s" where
  "bool_message ad = set_message_of ad Sys_RegMap_Offset_Bool Sys_RegMap_Nreg_Bool
     (Sys_RegMap_Nreg_Bool div 8 + 1) (Reg_Vet 0)"
definition short_message :: "u8 \<Rightarrow> i2c_modbus_s" where
  "short_message ad = set_message_of ad Sys_RegMap_Offset_Short Sys_RegMap_Nreg_Short
     (Sys_RegMap_Nreg_Short * 2) (Reg_Vet 16)"
definition int_message :: "u8 \<Rightarrow> u32 \<Rightarrow> i2c_modbus_s" where
  "int_message ad n = set_message_of ad Sys_RegMap_Flux_Calib n (n * 4) (Reg_Vet 328)"

lemma own_messages [simp, intro]:
  "own_message (bool_message ad)" "own_message (short_message ad)" "own_message (int_message ad 37)"
  "own_message message_default"
  "own_message (message_default\<lparr>code := Modbus_Report_Slave_ID, addr := ad, size_head := 1\<rparr>)"
  by (simp_all add: own_message_def bool_message_def short_message_def int_message_def set_message_of_def
      message_default_def regmap Modbus_Set_Mult_Num_Reg_def Modbus_Report_Slave_ID_def)

lemma own_message_ack [simp]:
  "own_message (m\<lparr>crc := c\<rparr>) = own_message m" "own_message (m\<lparr>addr := ad\<rparr>) = own_message m"
  by (simp_all add: own_message_def)

lemma pointers [simp]:
  "reg_ptr_short Sys_RegMap_Model = Some (Reg_Vet 16)" "reg_ptr_int Sys_RegMap_Flux_Calib = Some (Reg_Vet 328)"
  "reg_ptr_int Sys_RegMap_Timestamp = Some (Reg_Vet 272)"
  by (simp_all add: reg_ptr_short_def reg_ptr_int_def GetIndex_eq regmap)

lemma init_queue [simp]:
  "inv_queue (message_Init queue_zero)" "queue_content (message_Init queue_zero) = [message_default]"
  "message_queue_lenght (message_Init queue_zero) = 0"
proof -
  show "inv_queue (message_Init queue_zero)" by (rule inv_message_Init) (simp add: queue_zero_def)
  show "queue_content (message_Init queue_zero) = [message_default]"
    by (rule content_message_Init) (simp add: queue_zero_def)
qed (simp add: message_Init_def queue_zero_def)

lemma static_ints: "Sys_RegMap_Nreg_Int_static = 37"
  by (simp add: regmap)

lemma flag_bits:
  "flag AND 1 = 0 \<longleftrightarrow> \<not> bit flag 0" "flag AND 2 = 0 \<longleftrightarrow> \<not> bit flag 1" "flag AND 4 = 0 \<longleftrightarrow> \<not> bit flag 2"
  for flag :: u8
  using and_exp_eq_0_iff_not_bit [of flag 0] and_exp_eq_0_iff_not_bit [of flag 1]
    and_exp_eq_0_iff_not_bit [of flag 2] by simp_all

lemma post_any:
  assumes "inv_queue (mq s)"
  shows "\<exists>q. post m s = Some (s\<lparr>mq := q\<rparr>) \<and> inv_queue q \<and>
    (if message_queue_lenght (mq s) = 14 then q = mq s
     else queue_content q = queue_content (mq s) @ [m] \<and> message_queue_lenght q = message_queue_lenght (mq s) + 1)"
proof (cases "message_queue_lenght (mq s) = 14")
  case True
  then show ?thesis using assms by (simp add: post_def new_message_def message_New_inv)
next
  case False
  then obtain q where q: "message_New m (mq s) = Some (Message_Ok, q)"
      "message_queue_lenght q = message_queue_lenght (mq s) + 1"
    using message_New_inv [OF assms, of m] by auto
  moreover have "queue_put m (mq s) = Some q" using q by (simp add: queue_put_def)
  from queue_put_some [OF assms this] have "inv_queue q" "queue_content q = queue_content (mq s) @ [m]" by auto
  ultimately show ?thesis using False by (intro exI [of _ q]) (simp add: post_def new_message_def)
qed

lemma same_queue [simp]: "s\<lparr>mq := mq s\<rparr> = s" for s :: "'a device_scheme"
  by (cases s) simp

lemma post_room:
  assumes "inv_queue (mq s)" "message_queue_lenght (mq s) \<le> 13"
  shows "\<exists>q. (if b then post m s else Some s) = Some (s\<lparr>mq := q\<rparr>) \<and> inv_queue q \<and>
    queue_content q = queue_content (mq s) @ (if b then [m] else []) \<and>
    message_queue_lenght q \<le> message_queue_lenght (mq s) + 1"
proof (cases b)
  case True
  then show ?thesis using post_any [OF assms(1), of m] assms(2) by auto
next
  case False
  then show ?thesis using assms(1) by (intro exI [of _ "mq s"]) simp
qed

lemma Reg_chage_eq:
  "Reg_chage ad flag s = (if flag = 0 then Some s else do {
     s \<leftarrow> (if bit flag 0 then post (bool_message ad) s else Some s);
     s \<leftarrow> (if bit flag 1 then post (short_message ad) s else Some s);
     (if bit flag 2 then post (int_message ad 37) s else Some s) })"
  unfolding Reg_chage_def bool_message_def short_message_def int_message_def reg_ptr_bool_def static_ints
    pointers flag_bits not_not Option.bind.simps ..



section \<open>Time passes\<close>

definition idle_tick :: "'a interrupt_scheme \<Rightarrow> 'a interrupt_scheme option" where
  "idle_tick s = Some (s\<lparr>SysTickCount := SysTickCount s + 1\<rparr>)"

lemma time_ms_exact:
  assumes "unat (dT_us s) * unat (SysTickCount s) < 2 ^ 64"
  shows "unat (SysTickGetTime_ms s) = unat (dT_us s) * unat (SysTickCount s) div 1000"
  using time_us_exact [OF assms] by (simp add: SysTickGetTime_ms_def SysTickGetTime_us_def unat_div_distrib)

section \<open>A round of the loop\<close>

lemma content_Cons: "queue_content q = hd (queue_content q) # tl (queue_content q)"
  by (rule hd_Cons_tl [symmetric]) (use length_queue_content [of q] in fastforce)

lemma hd_content: "hd (queue_content q) = slot q 0"
  by (simp add: queue_content_def upt_rec)

lemma head_message_eq: "inv_queue (mq s) \<Longrightarrow> head_message s = Some (hd (queue_content (mq s)))"
  by (frule inv_queueD(1), frule inv_queueD(2), frule inv_queueD(3))
    (simp add: head_message_def hd_content slot_def)

lemma store_head_eq:
  assumes inv: "inv_queue (mq s)"
  shows "\<exists>q. store_head m s = Some (s\<lparr>mq := q\<rparr>) \<and> inv_queue q \<and>
    queue_content q = m # tl (queue_content (mq s)) \<and> message_queue_lenght q = message_queue_lenght (mq s)"
proof -
  define q p where "q = mq s" and "p = head (mq s)"
  note D = inv_queueD [OF inv, folded q_def p_def]
  define q' where "q' = q\<lparr>Queue := (Queue q)[p := (Queue q ! p)\<lparr>message := m\<rparr>]\<rparr>"
  have run: "store_head m s = Some (s\<lparr>mq := q'\<rparr>)"
    using D(1-3) by (simp add: store_head_def set_message_def q_def [symmetric] q'_def)
  have inv': "inv_queue q'"
    using D by (auto simp: inv_queue_def q'_def nth_list_update)
  have slots: "slot q' i = (if i = 0 then m else slot q i)" if "i < 15" for i
  proof -
    have "(p + i) mod 15 = p \<longleftrightarrow> i = 0" using ring_inj [of p i 0] that D(3) by simp
    then show ?thesis using D(1,2,3) by (auto simp: slot_def q'_def head_def nth_list_update)
  qed
  have "[0..<nat (message_queue_lenght q) + 1] = 0 # [1..<nat (message_queue_lenght q) + 1]"
    by (simp add: upt_rec)
  then have "queue_content q' = m # map (slot q') [1..<nat (message_queue_lenght q) + 1]"
    using slots [of 0] by (simp add: queue_content_def q'_def)
  also have "map (slot q') [1..<nat (message_queue_lenght q) + 1] = map (slot q) [1..<nat (message_queue_lenght q) + 1]"
    using slots D(5) by (intro map_cong refl) auto
  also have "\<dots> = tl (queue_content q)" by (simp add: queue_content_def upt_rec)
  finally show ?thesis using run inv' by (intro exI [of _ q']) (simp add: q'_def q_def)
qed

text \<open>
  The invariant between the steps of a round: \<open>n\<close> more ticks fit the 64 bits of the clock. A step
  replaces the head at most, and queues at the end.
\<close>

definition loop_inv :: "nat \<Rightarrow> 'a device_scheme \<Rightarrow> bool" where
  "loop_inv n s \<longleftrightarrow> inv_queue (mq s) \<and> wf_regs (regs s) \<and>
     (\<forall>m\<in>set (queue_content (mq s)). own_message m) \<and> 0 < unat (dT_us s) \<and>
     unat (dT_us s) * (unat (SysTickCount s) + n) < 2 ^ 64"

definition grown :: "'a device_scheme \<Rightarrow> 'a device_scheme \<Rightarrow> bool" where
  "grown s s' \<longleftrightarrow> (\<exists>h e. queue_content (mq s') = h # tl (queue_content (mq s)) @ e)"

text \<open>What the loop and the tasks leave of the scheduler's state, the pause flag apart: not the starts.\<close>

type_synonym frame = "task_s list \<times> c_func option \<times> u32 \<times> i32 \<times> i32 \<times> u32 \<times> u32"

definition frame :: "'a tasks_scheme \<Rightarrow> frame" where
  "frame s = (map (\<lambda>t. t\<lparr>lastExecution := 0\<rparr>) (task_vet s), ptrSysTickISR s, dT_us s, tasks_on s, scheduler_on s,
     inputRefPin s, outputRefPin s)"

definition step_ok :: "nat \<Rightarrow> 'a device_scheme \<Rightarrow> 'a device_scheme \<Rightarrow> bool" where
  "step_ok n s s' \<longleftrightarrow> loop_inv n s' \<and> grown s s' \<and> frame s' = frame s"

lemma frame_device [simp]:
  fixes s :: "'a device_scheme"
  shows "frame (s\<lparr>mq := q\<rparr>) = frame s" "frame (s\<lparr>regs := r\<rparr>) = frame s"
    "frame (s\<lparr>SysTickCount := c\<rparr>) = frame s" "frame (s\<lparr>pause := p\<rparr>) = frame s" "frame (task_scheduler_pause s) = frame s"
    "frame (task_scheduler_continue s) = frame s" "frame (hw_write rg v s) = frame s"
  by (simp_all add: frame_def task_scheduler_pause_def task_scheduler_continue_def hw_write_def)

definition appended :: "'a device_scheme \<Rightarrow> 'a device_scheme \<Rightarrow> bool" where
  "appended s s' \<longleftrightarrow> (\<exists>e. queue_content (mq s') = queue_content (mq s) @ e)"

lemma loop_inv_less: "loop_inv n s \<Longrightarrow> k \<le> n \<Longrightarrow> loop_inv k s"
  by (auto simp: loop_inv_def elim!: le_less_trans [rotated])

lemma grown_refl: "grown s s"
  unfolding grown_def by (rule exI [of _ "hd (queue_content (mq s))"], rule exI [of _ "[]"])
    (simp add: content_Cons [symmetric])

lemma grown_trans: "grown s t \<Longrightarrow> grown t u \<Longrightarrow> grown s u"
  unfolding grown_def by auto

lemma appended_refl [simp]: "mq s' = mq s \<Longrightarrow> appended s s'"
  by (simp add: appended_def)

lemma appended_trans: "appended s t \<Longrightarrow> appended t u \<Longrightarrow> appended s u"
  unfolding appended_def by auto

lemma appended_grown: "appended s s' \<Longrightarrow> grown s s'"
  unfolding appended_def grown_def by (metis append_Cons content_Cons)

lemma step_trans: "step_ok n s t \<Longrightarrow> step_ok k t u \<Longrightarrow> step_ok k s u"
  by (auto simp: step_ok_def intro: grown_trans)

lemma step_frame: "step_ok n s t \<Longrightarrow> frame t = frame s"
  by (simp add: step_ok_def)

lemma step_inv: "step_ok n s t \<Longrightarrow> loop_inv n t"
  by (simp add: step_ok_def)

lemma step_same:
  assumes "loop_inv n s" "mq s' = mq s" "regs s' = regs s" "frame s' = frame s" "SysTickCount s' = SysTickCount s"
  shows "step_ok n s s'"
  using assms grown_refl [of s] by (simp add: step_ok_def loop_inv_def grown_def frame_def)

lemma step_bus:
  fixes s s' :: "'a device_scheme"
  assumes "loop_inv n s" "bus_only s s'"
  shows "step_ok n s s'"
proof -
  have "hw.more s' = hw.more s" using assms(2) by (simp add: bus_only_def)
  then have "frame s' = frame s" "SysTickCount s' = SysTickCount s"
    by (cases s; cases s'; simp add: frame_def)+
  then show ?thesis using assms bus_only_regs [OF assms(2)] by (intro step_same) auto
qed

lemma step_store_head:
  assumes "loop_inv n s" "own_message m"
  shows "\<exists>s'. store_head m s = Some s' \<and> step_ok n s s' \<and> pause s' = pause s"
proof -
  obtain q where q: "store_head m s = Some (s\<lparr>mq := q\<rparr>)" "inv_queue q"
    "queue_content q = m # tl (queue_content (mq s))" "message_queue_lenght q = message_queue_lenght (mq s)"
    using store_head_eq assms(1) unfolding loop_inv_def by blast
  have "set (tl (queue_content (mq s))) \<subseteq> set (queue_content (mq s))"
    by (metis content_Cons set_subset_Cons)
  then have "step_ok n s (s\<lparr>mq := q\<rparr>)"
    using assms q by (auto simp: step_ok_def loop_inv_def grown_def)
  then show ?thesis using q(1) by auto
qed

lemma step_post:
  assumes "loop_inv n s" "own_message m"
  shows "\<exists>s'. post m s = Some s' \<and> step_ok n s s'"
proof -
  obtain q where q: "post m s = Some (s\<lparr>mq := q\<rparr>)" "inv_queue q"
    "if message_queue_lenght (mq s) = 14 then q = mq s
     else queue_content q = queue_content (mq s) @ [m] \<and> message_queue_lenght q = message_queue_lenght (mq s) + 1"
    using post_any assms(1) unfolding loop_inv_def by blast
  have "grown s (s\<lparr>mq := q\<rparr>)"
  proof (cases "message_queue_lenght (mq s) = 14")
    case True
    then show ?thesis using q(3) grown_refl [of s] by simp
  next
    case False
    then have "queue_content q = hd (queue_content (mq s)) # tl (queue_content (mq s)) @ [m]"
      using q(3) content_Cons [of "mq s"] by (metis append_Cons)
    then show ?thesis by (auto simp: grown_def)
  qed
  then have "step_ok n s (s\<lparr>mq := q\<rparr>)"
    using assms q by (auto simp: step_ok_def loop_inv_def split: if_splits)
  then show ?thesis using q(1) by blast
qed

lemma send_modbus_only:
  assumes "i2cSend_master_modbus m r s = Some (st, m', s')"
  shows "bus_only s s'"
proof -
  obtain st0 s0 where w0: "WaitI2cMasterState I2C_STAT_MSTST_IDLE s = (st0, s0)" by fastforce
  define s1 where "s1 = hw_write I2C_MSTCTL MSTCTL_START (hw_write I2C_MSTDAT (i2c_address (addr m) 0) s0)"
  obtain st2 s2 where w2: "WaitI2cMasterState I2C_STAT_MSTST_TXRDY s1 = (st2, s2)" by fastforce
  note o0 = WaitMaster_only [OF w0]
  have "bus_only s s1" using o0 by (simp add: s1_def)
  from bus_only_trans [OF this WaitMaster_only [OF w2]] have o2: "bus_only s s2" .
  show ?thesis
  proof (cases "st0 = i2cStat_OK \<and> st2 = i2cStat_OK")
    case False
    then have "s' = s0 \<or> s' = s2"
      using assms w0 w2 [unfolded s1_def]
      by (cases "st0 = i2cStat_OK") (auto simp: i2cSend_master_modbus_def Option.bind_eq_Some_conv Let_def)
    then show ?thesis using o0 o2 by blast
  next
    case True
    then obtain c st3 s3 where 3: "i2cSend_loop (nat (sint (size_head m))) 0 c s2 = Some (st3, s3)"
      and rest: "s' = s3 \<or> (\<exists>st4 s4 p. i2cSend_loop (nat (sint (size_message m))) 0 p s3 = Some (st4, s4) \<and>
        (s' = s4 \<or> (\<exists>st5 s5 b. i2cSend_loop 2 0 b s4 = Some (st5, s5) \<and> (s' = s5 \<or> s' = i2cSend_end s5))))"
      using assms w0 w2 [unfolded s1_def]
      by (fastforce simp: i2cSend_master_modbus_def Option.bind_eq_Some_conv Let_def split: if_splits prod.splits)
    have "bus_only s2 s'"
      using rest i2cSend_loop_only [OF 3] i2cSend_loop_only i2cSend_end_only bus_only_trans by metis
    then show ?thesis by (rule bus_only_trans [OF o2])
  qed
qed

lemma clear_loop_only: "bus_only s (snd (i2cClear_loop n s))"
proof (induction n arbitrary: s)
  case (Suc n)
  obtain st s1 where w: "WaitI2cMasterState I2C_STAT_MSTST_RXRDY s = (st, s1)" by fastforce
  obtain v s2 where rd: "hw_read I2C_MSTDAT s1 = (v, s2)" by fastforce
  note o1 = WaitMaster_only [OF w]
  have "bus_only s (hw_write I2C_MSTCTL MSTCTL_CONTINUE s2)"
    using bus_only_trans [OF o1 bus_only_read [OF rd]] by simp
  from bus_only_trans [OF this Suc.IH] show ?case using w rd o1 by simp
qed simp

lemma clear_only: "bus_only s (snd (i2cReadClearBuffer_master ad s))"
proof -
  obtain st s1 where w: "WaitI2cMasterState I2C_STAT_MSTST_IDLE s = (st, s1)" by fastforce
  define s2 where "s2 = hw_write I2C_MSTCTL MSTCTL_START (hw_write I2C_MSTDAT (i2c_address ad 1) s1)"
  obtain st3 s3 where c: "i2cClear_loop 0x1FF s2 = (st3, s3)" by fastforce
  note o1 = WaitMaster_only [OF w]
  have "bus_only s s2" using o1 by (simp add: s2_def)
  from bus_only_trans [OF this clear_loop_only [of s2 "0x1FF"]] have o3: "bus_only s s3" using c by simp
  then have "bus_only s (hw_write I2C_MSTCTL MSTCTL_STOP s3)" by simp
  from bus_only_trans [OF this WaitMaster_only_snd]
  show ?thesis using w o1 o3 c by (simp add: i2cReadClearBuffer_master_def s2_def Let_def)
qed

section \<open>The answers of a round\<close>

lemmas codes = Modbus_Get_Bool_Reg_def Modbus_Get_Discrete_Input_def Modbus_Get_Num_Reg_def
  Modbus_Read_Input_Reg_def Modbus_Set_Bool_Reg_def Modbus_Set_Single_Reg_def Modbus_Read_Exception_def
  Modbus_Diagnostics_def Modbus_Get_Event_Counter_def Modbus_Get_Event_Log_def Modbus_Set_Mult_Bool_Reg_def
  Modbus_Set_Mult_Num_Reg_def Modbus_Report_Slave_ID_def Modbus_Read_File_Record_def
  Modbus_Write_File_Record_def Modbus_Mask_Write_Register_def Modbus_RW_Mult_Registers_def
  Modbus_Read_FIFO_Queue_def Modbus_Read_Device_ID_def

lemma step_change:
  assumes "loop_inv n s"
  shows "\<exists>s'. Reg_chage ad flag s = Some s' \<and> step_ok n s s'"
proof (cases "flag = 0")
  case True
  then show ?thesis using assms grown_refl by (simp add: Reg_chage_def step_ok_def)
next
  case False
  have opt: "\<exists>t. (if b then post m u else Some u) = Some t \<and> step_ok n s t"
    if "step_ok n s u" "own_message m" for b m u
    using step_post [OF step_inv [OF that(1)] that(2)] step_trans [OF that(1)] that(1) by (cases b) auto
  have "step_ok n s s" using assms grown_refl by (simp add: step_ok_def)
  from opt [OF this own_messages(1)] obtain s1 where
    s1: "(if bit flag 0 then post (bool_message ad) s else Some s) = Some s1" "step_ok n s s1" by blast
  from opt [OF s1(2) own_messages(2)] obtain s2 where
    s2: "(if bit flag 1 then post (short_message ad) s1 else Some s1) = Some s2" "step_ok n s s2" by blast
  from opt [OF s2(2) own_messages(3)] obtain s3 where
    s3: "(if bit flag 2 then post (int_message ad 37) s2 else Some s2) = Some s3" "step_ok n s s3" by blast
  have "Reg_chage ad flag s = Some s3"
    using False unfolding Reg_chage_eq by (simp only: if_False s1(1) s2(1) s3(1) Option.bind.simps)
  then show ?thesis using s3(2) by blast
qed

lemma step_regs:
  assumes "loop_inv n s" "wf_regs r"
  shows "step_ok n s (s\<lparr>regs := r\<rparr>)"
  using assms grown_refl [of s] by (simp add: step_ok_def loop_inv_def grown_def)

text \<open>The time a slave sends is stored and goes to the clock chip.\<close>

lemma step_set_time:
  fixes s :: "'a rtc_scheme"
  assumes inv: "loop_inv n s"
  shows "\<exists>s'. (if ts \<noteq> 0 then do {
      s \<leftarrow> on_regs (store_int (Reg_Vet 272) ts) s; RTC_setValue ts s } else Some s) = Some s' \<and> step_ok n s s'"
proof (cases "ts = 0")
  case True
  then show ?thesis using inv grown_refl by (simp add: step_ok_def)
next
  case False
  define r where "r = (regs s)\<lparr>int_reg_vet := (int_reg_vet (regs s))[0 := ts]\<rparr>"
  have "wf_regs (regs s)" using inv by (simp add: loop_inv_def)
  then have st: "on_regs (store_int (Reg_Vet 272) ts) s = Some (s\<lparr>regs := r\<rparr>)" "wf_regs r"
    by (simp_all add: on_regs_def store_int_def int_slot_def wf_regs_def r_def Sys_RegMap_Nreg_Int_tot_def)
  obtain s' where s': "RTC_setValue ts (s\<lparr>regs := r\<rparr>) = Some s'" "bus_only (s\<lparr>regs := r\<rparr>) s'"
    using setValue_total by blast
  note k = step_regs [OF inv st(2)]
  show ?thesis using False st(1) s'(1) step_trans [OF k step_bus [OF step_inv [OF k] s'(2)]] by simp
qed

lemma step_report:
  fixes s :: "'a rtc_scheme"
  assumes inv: "loop_inv n s"
  shows "\<exists>st s'. Report_Slave_ID m s = Some (st, s') \<and> step_ok n s s'"
proof (cases "addr m = SysI2C_ADDR_WiFi")
  case False
  then show ?thesis using inv grown_refl by (simp add: Report_Slave_ID_def step_ok_def)
next
  case True
  obtain reply s1 where r: "read_reply (addr m) 16 s = Some (reply, s1)" "bus_only s s1"
    "\<forall>bs. reply = Some bs \<longrightarrow> length bs = 16"
    using read_reply_total [of 16 16 "addr m" s] by auto
  have s1: "step_ok n s s1" using step_bus [OF inv r(2)] .
  show ?thesis
  proof (cases reply)
    case None
    then show ?thesis using r(1) s1 True by (simp add: Report_Slave_ID_def)
  next
    case (Some bs)
    have lb: "length bs = 16" using r(3) Some by simp
    obtain ts where ts: "arr_get (as_ints (take 4 (drop 9 bs))) 0 = Some ts"
      using lb by (simp add: arr_get_def length_as_ints)
    have fl: "arr_get bs 13 = Some (bs ! 13)" using lb by simp
    obtain s2 where s2: "(if ts \<noteq> 0 then do {
          s \<leftarrow> on_regs (store_int (Reg_Vet 272) ts) s1; RTC_setValue ts s } else Some s1) = Some s2" "step_ok n s s2"
      using step_set_time [OF step_inv [OF s1], of ts] step_trans [OF s1] by metis
    obtain s3 where s3: "Reg_chage SysI2C_ADDR_WiFi (bs ! 13) s2 = Some s3" "step_ok n s s3"
      using step_change [OF step_inv [OF s2(2)]] step_trans [OF s2(2)] by blast
    have "Report_Slave_ID m s = Some (replyOK, s3)"
      using True r(1) Some ts fl s2(1) s3(1) by (simp add: Report_Slave_ID_def)
    then show ?thesis using s3(2) by blast
  qed
qed

lemma own_payload:
  assumes "own_message m" "wf_regs r"
  shows "nat (sint (size_message m)) \<le> length (payload (ptrMessage m) r)" "0 \<le> sint (size_message m)"
    "code m = Modbus_Set_Mult_Num_Reg \<Longrightarrow> 5 \<le> length (payload (ptrMessage m) r)"
  using assms length_reg_image [OF assms(2)]
  by (auto simp: own_message_def payload_def Modbus_Set_Mult_Num_Reg_def Modbus_Report_Slave_ID_def)

lemma step_answer:
  fixes s :: "'a rtc_scheme"
  assumes inv: "loop_inv n s" and own: "own_message m"
  shows "\<exists>st' s'. take_answer st m s = Some (st', s') \<and> step_ok n s s'"
proof -
  consider "code m = 0" | "code m = Modbus_Report_Slave_ID" | "code m = Modbus_Set_Mult_Num_Reg"
    using own by (auto simp: own_message_def)
  then show ?thesis
  proof cases
    case 1
    then have "take_answer st m s = Some (st, s)"
      by (simp add: take_answer_def codes)
    then show ?thesis using inv grown_refl by (simp add: step_ok_def)
  next
    case 2
    then have "take_answer st m s = Report_Slave_ID m s"
      by (simp add: take_answer_def codes)
    then show ?thesis using step_report [OF inv] by simp
  next
    case 3
    then have eq: "take_answer st m s = Generic_Set_Reg m s" and "code m \<noteq> Modbus_Diagnostics"
      by (simp_all add: take_answer_def codes Set_Mult_Num_Reg_def)
    moreover have "5 \<le> length (payload (ptrMessage m) (regs s))"
      using own_payload(3) [OF own _ 3] inv by (simp add: loop_inv_def)
    ultimately obtain st' s' where "Generic_Set_Reg m s = Some (st', s')" "bus_only s s'"
      using Generic_Set_Reg_total by blast
    then show ?thesis using eq step_bus [OF inv] by auto
  qed
qed

section \<open>The round\<close>

lemma head_own: "loop_inv n s \<Longrightarrow> \<exists>m. head_message s = Some m \<and> own_message m"
  using head_message_eq content_Cons [of "mq s"] unfolding loop_inv_def by (metis list.set_intros(1))

lemma step_pause:
  assumes "loop_inv n s"
  shows "step_ok n s (task_scheduler_pause s)" "step_ok n s (task_scheduler_continue s)"
  using assms by (auto intro!: step_same simp: task_scheduler_pause_def task_scheduler_continue_def)

lemma loop_inv_tick:
  assumes "loop_inv (Suc n) s"
  shows "loop_inv n (s\<lparr>SysTickCount := SysTickCount s + 1\<rparr>)"
    "unat (SysTickCount s + 1) = unat (SysTickCount s) + 1"
proof -
  have "unat (SysTickCount s) + 1 \<le> unat (dT_us s) * (unat (SysTickCount s) + Suc n)"
    using assms mult_le_mono [of 1 "unat (dT_us s)" "unat (SysTickCount s) + 1" "unat (SysTickCount s) + Suc n"]
    by (simp add: loop_inv_def)
  then have "unat (SysTickCount s) + 1 < 2 ^ 64"
    using assms unfolding loop_inv_def by linarith
  then show c: "unat (SysTickCount s + 1) = unat (SysTickCount s) + 1"
    by (subst unat_add_lem [THEN iffD1]) simp_all
  show "loop_inv n (s\<lparr>SysTickCount := SysTickCount s + 1\<rparr>)"
    using assms c by (simp add: loop_inv_def)
qed

text \<open>Sending the head: the only thing that changes in the ring is its CRC.\<close>

lemma step_transmit:
  fixes s :: "'a rtc_scheme"
  assumes inv: "loop_inv n s"
  obtains m st m' s1 s2 where "head_message s = Some m" "i2cSend_master_modbus m (regs s) s = Some (st, m', s1)"
    "store_head m' s1 = Some s2" "own_message m'" "bus_only s s1" "step_ok n s s2"
proof -
  have wf: "wf_regs (regs s)" using inv by (simp add: loop_inv_def)
  obtain m where m: "head_message s = Some m" "own_message m" using head_own [OF inv] by blast
  obtain st m' s1 where send: "i2cSend_master_modbus m (regs s) s = Some (st, m', s1)"
    "m' = m \<or> (\<exists>c. m' = m\<lparr>crc := c\<rparr>)"
    using i2cSend_master_modbus_OK [of m "regs s" s] m(2) own_payload(1,2) [OF m(2) wf]
    unfolding own_message_def by blast
  have m': "own_message m'" using send(2) m(2) by auto
  note bus = send_modbus_only [OF send(1)]
  note s1 = step_bus [OF inv bus]
  obtain s2 where s2: "store_head m' s1 = Some s2" "step_ok n s1 s2"
    using step_store_head [OF step_inv [OF s1] m'] by blast
  show ?thesis using that [OF m(1) send(1) s2(1) m' bus step_trans [OF s1 s2(2)]] .
qed

section \<open>What interrupts may do during a delay\<close>

text \<open>
  The loop spends its delays polling the clock while interrupts run. All it needs of them: in a state
  with a frame they can handle, the count advances by one between two polls, and whatever else
  happens returns, only queues messages at the end and keeps the loop's invariant, the frame and the
  pause flag.
\<close>

locale delay_idle =
  fixes idle :: "'a rtc_scheme \<Rightarrow> 'a rtc_scheme option" and ready :: "frame \<Rightarrow> bool"
  assumes idle_step: "loop_inv (Suc n) s \<Longrightarrow> ready (frame s) \<Longrightarrow>
    \<exists>s'. idle s = Some s' \<and> loop_inv n s' \<and> appended s s' \<and> frame s' = frame s \<and> pause s' = pause s \<and>
      SysTickCount s' = SysTickCount s + 1"
begin

lemma wait_returns:
  assumes "loop_inv (n + k) s" "ready (frame s)" "unat T \<le> unat (dT_us s) * (unat (SysTickCount s) + k) div 1000"
  shows "\<exists>s'. wait_until idle (\<lambda>s. \<not> SysTickGetTime_ms s < T) s = Some s' \<and> loop_inv n s' \<and>
    appended s s' \<and> frame s' = frame s \<and> pause s' = pause s"
  using assms
proof (induction k arbitrary: s)
  case 0
  then have "unat (dT_us s) * unat (SysTickCount s) \<le> unat (dT_us s) * (unat (SysTickCount s) + n)"
    by (intro mult_le_mono2) simp
  moreover have "unat (dT_us s) * (unat (SysTickCount s) + n) < 2 ^ 64" using 0 by (simp add: loop_inv_def)
  ultimately have "unat (dT_us s) * unat (SysTickCount s) < 2 ^ 64" by linarith
  then have "\<not> SysTickGetTime_ms s < T" using 0 by (simp add: word_less_nat_alt time_ms_exact)
  then show ?case using 0 by (subst wait_until.simps) simp
next
  case (Suc k)
  show ?case
  proof (cases "SysTickGetTime_ms s < T")
    case False
    then show ?thesis using loop_inv_less [OF Suc.prems(1), of n] by (subst wait_until.simps) simp
  next
    case True
    obtain s1 where s1: "idle s = Some s1" "loop_inv (n + k) s1" "appended s s1" "pause s1 = pause s"
      "frame s1 = frame s" "SysTickCount s1 = SysTickCount s + 1"
      using idle_step [of "n + k" s] Suc.prems(1,2) by auto
    have "unat (SysTickCount s1) = unat (SysTickCount s) + 1"
      unfolding s1(6) using Suc.prems(1) by (intro loop_inv_tick(2) [of "n + k"]) simp
    then have "unat T \<le> unat (dT_us s1) * (unat (SysTickCount s1) + k) div 1000"
      using Suc.prems(3) s1(5) by (simp add: frame_def)
    moreover have "ready (frame s1)" using Suc.prems(2) s1(5) by simp
    ultimately obtain s' where
      "wait_until idle (\<lambda>s. \<not> SysTickGetTime_ms s < T) s1 = Some s'" "loop_inv n s'" "appended s1 s'"
      "frame s' = frame s1" "pause s' = pause s1"
      using Suc.IH [OF s1(2)] by blast
    then show ?thesis
      using True s1 appended_trans [OF s1(3)] by (subst wait_until.simps) auto
  qed
qed

lemma delay_returns:
  assumes "loop_inv (n + 1000 * unat ms) s" "ready (frame s)"
  shows "\<exists>s'. task_delay_ms idle ms s = Some s' \<and> loop_inv n s' \<and>
    appended s s' \<and> frame s' = frame s \<and> pause s' = pause s"
proof -
  define d c k where "d = unat (dT_us s)" and "c = unat (SysTickCount s)" and "k = 1000 * unat ms"
  have d: "1 \<le> d" "d * (c + (n + k)) < 2 ^ 64"
    using assms(1) by (simp_all add: loop_inv_def d_def c_def k_def)
  have "d * c + d * k \<le> d * (c + (n + k))" by (simp add: algebra_simps)
  moreover have "k \<le> d * k" using d(1) by simp
  ultimately have lt: "d * c < 2 ^ 64" "d * c + k < 2 ^ 64" "d * c + k \<le> d * (c + k)"
    using d(2) by (linarith, linarith, simp add: algebra_simps)
  then have now: "unat (SysTickGetTime_ms s) = d * c div 1000"
    using time_ms_exact [of s] by (simp add: d_def c_def)
  have "unat ms < 2 ^ 32" using unsigned_less [of ms] by simp
  then have ms: "unat (ucast ms :: u64) = unat ms" by (subst ucast_via_nat) (rule u64_of_nat, simp)
  have sum: "d * c div 1000 + unat ms = (d * c + k) div 1000" by (simp add: k_def)
  also have "\<dots> \<le> d * (c + k) div 1000" using lt(3) by (rule div_le_mono)
  finally have le: "d * c div 1000 + unat ms \<le> d * (c + k) div 1000" .
  have "d * c div 1000 + unat ms < 2 ^ 64" using lt(2) unfolding sum by linarith
  then have "unat (SysTickGetTime_ms s + ucast ms) = d * c div 1000 + unat ms"
    using now ms by (subst unat_add_lem [THEN iffD1]) simp_all
  then show ?thesis
    using wait_returns [OF assms] le by (simp add: task_delay_ms_def Let_def d_def c_def k_def)
qed

lemma step_delay:
  assumes "loop_inv (n + 5000) s" "ready (frame s)"
  shows "\<exists>s'. task_delay_ms idle Sys_Modbus_Time_Reply s = Some s' \<and> loop_inv n s' \<and>
    appended s s' \<and> frame s' = frame s \<and> pause s' = pause s"
  using delay_returns [of n Sys_Modbus_Time_Reply s] assms by (simp add: Sys_Modbus_Time_Reply_def)

lemma step_aux:
  assumes inv: "loop_inv (n + 5000) s" and rdy: "ready (frame s)"
  shows "\<exists>s'. message_loop_aux idle s = Some s' \<and> step_ok n s s' \<and> pause s' = 0"
proof -
  define k where "k = n + 5000"
  note p1 = step_pause(1) [OF inv, folded k_def]
  obtain m st m' s2 s3 where m: "head_message (task_scheduler_pause s) = Some m"
    and send: "i2cSend_master_modbus m (regs (task_scheduler_pause s)) (task_scheduler_pause s) = Some (st, m', s2)"
    and s3: "store_head m' s2 = Some s3" "step_ok k (task_scheduler_pause s) s3"
    using step_transmit [OF step_inv [OF p1]] by metis
  note p3 = step_trans [OF p1 step_trans [OF s3(2) step_pause(2) [OF step_inv [OF s3(2)]]]]
  obtain s4 where s4: "task_delay_ms idle Sys_Modbus_Time_Reply (task_scheduler_continue s3) = Some s4"
    "step_ok n (task_scheduler_continue s3) s4"
    using step_delay [OF step_inv [OF p3, unfolded k_def]] rdy step_frame [OF p3] appended_grown
    unfolding step_ok_def by metis
  note p4 = step_trans [OF p3 step_trans [OF s4(2) step_pause(1) [OF step_inv [OF s4(2)]]]]
  obtain m2 where m2: "head_message (task_scheduler_pause s4) = Some m2" "own_message m2"
    using head_own [OF step_inv [OF p4]] by blast
  obtain st' s5 where s5: "take_answer st m2 (task_scheduler_pause s4) = Some (st', s5)"
    "step_ok n (task_scheduler_pause s4) s5"
    using step_answer [OF step_inv [OF p4] m2(2)] by blast
  note p5 = step_trans [OF p4 s5(2)]
  obtain m3 where m3: "head_message s5 = Some m3" using head_own [OF step_inv [OF p5]] by blast
  define s6 where "s6 = (if st' = replyFail then snd (i2cReadClearBuffer_master (addr m3) s5) else s5)"
  have "bus_only s5 s6" by (simp add: s6_def clear_only)
  note p6 = step_trans [OF p5 step_bus [OF step_inv [OF p5] this]]
  have "message_loop_aux idle s = Some (task_scheduler_continue s6)"
    using m send s3(1) s4(1) m2(1) s5(1) m3 by (simp add: message_loop_aux_def Let_def s6_def)
  then show ?thesis
    using step_trans [OF p6 step_pause(2) [OF step_inv [OF p6]]] by (simp add: task_scheduler_continue_def)
qed

lemma step_all:
  assumes inv: "loop_inv (n + 10000) s" and rdy: "ready (frame s)"
  shows "\<exists>s'. do { m \<leftarrow> head_message s; s \<leftarrow> store_head (m\<lparr>addr := ad\<rparr>) s;
      s \<leftarrow> message_loop_aux idle s; task_delay_ms idle Sys_Modbus_Time_Reply s } = Some s' \<and>
    step_ok n s s' \<and> pause s' = 0"
proof -
  obtain m where m: "head_message s = Some m" "own_message m" using head_own [OF inv] by blast
  obtain s1 where s1: "store_head (m\<lparr>addr := ad\<rparr>) s = Some s1" "step_ok (n + 10000) s s1"
    using step_store_head [OF inv, of "m\<lparr>addr := ad\<rparr>"] m(2) by auto
  have "loop_inv (n + 5000 + 5000) s1" using step_inv [OF s1(2)] by (simp add: add.assoc)
  moreover have "ready (frame s1)" using rdy step_frame [OF s1(2)] by simp
  ultimately obtain s2 where s2: "message_loop_aux idle s1 = Some s2"
    "step_ok (n + 5000) s1 s2" "pause s2 = 0" using step_aux by blast
  obtain s3 where s3: "task_delay_ms idle Sys_Modbus_Time_Reply s2 = Some s3" "step_ok n s2 s3" "pause s3 = 0"
    using step_delay [OF step_inv [OF s2(2)]] s2(3) appended_grown rdy step_frame [OF s1(2)] step_frame [OF s2(2)]
    unfolding step_ok_def by metis
  show ?thesis
    using m(1) s1(1) s2(1) s3 step_trans [OF s1(2) step_trans [OF s2(2) s3(2)]] by auto
qed

text \<open>The part of a round before the pop.\<close>

lemma step_send:
  assumes inv: "loop_inv (n + 20000) s" and rdy: "ready (frame s)" and m: "head_message s = Some m"
  shows "\<exists>s'. (if addr m = SysI2C_ADDR_ALL
      then for_loop 0 (length SysI2C_ADDR_Slave_Vet) (\<lambda>i s. do {
             ad \<leftarrow> arr_get SysI2C_ADDR_Slave_Vet i; m \<leftarrow> head_message s;
             s \<leftarrow> store_head (m\<lparr>addr := ad\<rparr>) s; s \<leftarrow> message_loop_aux idle s;
             task_delay_ms idle Sys_Modbus_Time_Reply s }) s
      else message_loop_aux idle s) = Some s' \<and> step_ok n s s' \<and> pause s' = 0"
proof (cases "addr m = SysI2C_ADDR_ALL")
  case True
  have "loop_inv (n + 10000 + 10000) s" using inv by (simp add: add.assoc)
  from step_all [OF this rdy, of SysI2C_ADDR_WiFi] obtain s1 where s1:
    "do { m \<leftarrow> head_message s; s \<leftarrow> store_head (m\<lparr>addr := SysI2C_ADDR_WiFi\<rparr>) s;
      s \<leftarrow> message_loop_aux idle s; task_delay_ms idle Sys_Modbus_Time_Reply s } = Some s1"
    "step_ok (n + 10000) s s1" by blast
  have "ready (frame s1)" using rdy step_frame [OF s1(2)] by simp
  from step_all [OF step_inv [OF s1(2)] this, of SysI2C_ADDR_Rec_Display] obtain s2 where s2:
    "do { m \<leftarrow> head_message s1; s \<leftarrow> store_head (m\<lparr>addr := SysI2C_ADDR_Rec_Display\<rparr>) s1;
      s \<leftarrow> message_loop_aux idle s; task_delay_ms idle Sys_Modbus_Time_Reply s } = Some s2"
    "step_ok n s1 s2" "pause s2 = 0" by blast
  have two: "length SysI2C_ADDR_Slave_Vet = Suc (Suc 0)" "SysI2C_ADDR_Slave_Vet ! 0 = SysI2C_ADDR_WiFi"
    "SysI2C_ADDR_Slave_Vet ! Suc 0 = SysI2C_ADDR_Rec_Display"
    by (simp_all add: SysI2C_ADDR_Slave_Vet_def)
  show ?thesis
    using True s1(1) s2 step_trans [OF s1(2) s2(2)] by (simp add: two)
next
  case False
  have "loop_inv (n + 15000 + 5000) s" using inv by (simp add: add.assoc)
  from step_aux [OF this rdy] obtain s' where s': "message_loop_aux idle s = Some s'"
    "step_ok (n + 15000) s s'" "pause s' = 0" by blast
  have "step_ok n s s'" using s'(2) loop_inv_less [of "n + 15000" s' n] by (simp add: step_ok_def)
  then show ?thesis using False s' by simp
qed

text \<open>A round with a message waiting, and a round with an empty queue.\<close>

lemma round:
  assumes "loop_inv (n + 25000) s" "ready (frame s)" "0 < message_queue_lenght (mq s)"
  shows "\<exists>s' e. message_loop idle s = Some s' \<and> loop_inv n s' \<and> frame s' = frame s \<and>
    queue_content (mq s') = tl (queue_content (mq s)) @ e \<and> pause s' = 0"
proof -
  have inv: "loop_inv ((n + 5000) + 20000) s" using assms(1) by (simp add: add.assoc)
  obtain m where m: "head_message s = Some m" using head_own [OF inv] by blast
  obtain s1 where run: "(if addr m = SysI2C_ADDR_ALL
      then for_loop 0 (length SysI2C_ADDR_Slave_Vet) (\<lambda>i s. do {
             ad \<leftarrow> arr_get SysI2C_ADDR_Slave_Vet i; m \<leftarrow> head_message s;
             s \<leftarrow> store_head (m\<lparr>addr := ad\<rparr>) s; s \<leftarrow> message_loop_aux idle s;
             task_delay_ms idle Sys_Modbus_Time_Reply s }) s
      else message_loop_aux idle s) = Some s1" and s1: "step_ok (n + 5000) s s1" "pause s1 = 0"
    using step_send [OF inv assms(2) m] by blast
  obtain h e where he: "queue_content (mq s1) = h # tl (queue_content (mq s)) @ e"
    using s1(1) unfolding step_ok_def grown_def by blast
  note i1 = step_inv [OF s1(1), unfolded loop_inv_def]
  have "length (queue_content (mq s1)) \<ge> length (queue_content (mq s))"
    using he by simp
  then have pos: "message_queue_lenght (mq s1) \<noteq> 0" using assms(3) by simp
  obtain q where q: "message_pop (mq s1) = Some q" using message_pop_inv i1 by blast
  then have "queue_get (mq s1) = Some (slot (mq s1) 0, q)" using pos by (simp add: queue_get_def)
  from queue_get_some [OF _ this] i1 have q': "inv_queue q" "queue_content q = tl (queue_content (mq s)) @ e"
    using he by auto
  have own: "\<forall>m\<in>set (queue_content q). own_message m" using i1 he q'(2) by simp
  then have "loop_inv (n + 5000) (s1\<lparr>mq := q\<rparr>)" using i1 q' by (simp add: loop_inv_def)
  moreover have "ready (frame (s1\<lparr>mq := q\<rparr>))" using assms(2) step_frame [OF s1(1)] by simp
  ultimately obtain s2 e2 where s2:
    "task_delay_ms idle Sys_Modbus_Time_Reply (s1\<lparr>mq := q\<rparr>) = Some s2" "loop_inv n s2"
    "queue_content (mq s2) = queue_content q @ e2" "pause s2 = 0" "frame s2 = frame s1"
    using step_delay [of n "s1\<lparr>mq := q\<rparr>"] s1(2) by (auto simp: appended_def)
  have "message_loop idle s = Some s2"
    using assms m run q s2(1) by (simp add: message_loop_def loop_inv_def inv_queueD(6))
  then show ?thesis using s2 q' step_frame [OF s1(1)] by (intro exI [of _ s2] exI [of _ "e @ e2"]) simp
qed

lemma round_empty: "message_queue_lenght (mq s) = 0 \<Longrightarrow> message_loop idle s = Some s"
  by (simp add: message_loop_def)

end

section \<open>Without tasks\<close>

interpretation quiet: delay_idle idle_tick "\<lambda>_. True"
proof
  fix n and s :: "'a rtc_scheme"
  assume inv: "loop_inv (Suc n) s"
  let ?t = "s\<lparr>SysTickCount := SysTickCount s + 1\<rparr>"
  have "loop_inv n ?t"
    using inv loop_inv_tick [of n s] by simp
  then show "\<exists>s'. idle_tick s = Some s' \<and> loop_inv n s' \<and> appended s s' \<and> frame s' = frame s \<and>
      pause s' = pause s \<and> SysTickCount s' = SysTickCount s + 1"
    by (simp add: idle_tick_def)
qed

text \<open>
  C11: with a message waiting, when every message in the ring is one the program makes and the clock
  does not overflow, a round of the loop returns, however the slaves answer or fail to. It consumes
  exactly the message at the head, keeps the others in order and only adds such messages behind
  them, leaves the ring and the register banks well formed, and lets the scheduler run again.
\<close>

theorem round_consumes_the_head:
  fixes s :: "'a rtc_scheme"
  assumes "inv_queue (mq s)" "0 < message_queue_lenght (mq s)" "wf_regs (regs s)"
    and "\<forall>m\<in>set (queue_content (mq s)). own_message m"
    and "0 < unat (dT_us s)" "unat (dT_us s) * (unat (SysTickCount s) + 25000) < 2 ^ 64"
  shows "\<exists>s' e. message_loop idle_tick s = Some s' \<and>
    queue_content (mq s') = tl (queue_content (mq s)) @ e \<and> inv_queue (mq s') \<and>
    (\<forall>m\<in>set (queue_content (mq s')). own_message m) \<and> wf_regs (regs s') \<and> pause s' = 0"
  using quiet.round [of 0 s] assms by (auto simp: loop_inv_def)

theorem round_consumes_the_head_witness:
  "\<exists>q s' e. message_New sample_message (message_Init queue_zero) = Some (Message_Ok, q) \<and>
    message_loop idle_tick (rtc_zero\<lparr>mq := q, dT_us := 500\<rparr>) = Some s' \<and>
    queue_content (mq s') = [sample_message] @ e \<and> inv_queue (mq s') \<and>
    (\<forall>m\<in>set (queue_content (mq s')). own_message m) \<and> wf_regs (regs s') \<and> pause s' = 0"
proof -
  obtain q where q: "message_New sample_message (message_Init queue_zero) = Some (Message_Ok, q)"
    "message_queue_lenght q = 1"
    using message_New_inv [OF init_queue(1), of sample_message] by auto
  have "queue_put sample_message (message_Init queue_zero) = Some q" using q(1) by (simp add: queue_put_def)
  from queue_put_some [OF init_queue(1) this] have c: "inv_queue q" "queue_content q = [message_default, sample_message]"
    by simp_all
  have "own_message sample_message"
    by (simp add: sample_message_def own_message_def message_default_def Modbus_Report_Slave_ID_def)
  then show ?thesis
    using round_consumes_the_head [of "rtc_zero\<lparr>mq := q, dT_us := 500\<rparr>"] q c
    by (auto simp: wf_reg_zero)
qed

end
