(* ===== verification/Ntc_Thermistor.thy ===== *)
theory Ntc_Thermistor
  imports Board_Defs
begin

text \<open>
  \<open>services/ntc_thermistor/ntc_thermistor.c\<close> and the resistance table
  \<open>thermistor/NTC_10K_3380.h\<close>: from a reading in millivolts to hundredths of a degree. Sums and
  products are those of 32-bit \<open>int\<close>; the divisions are C's, undefined on zero.
\<close>

section \<open>The code\<close>

definition NTC_10K_3380_VET :: "i32 list" where
  "NTC_10K_3380_VET = [
    486088, 456961, 429745, 404308, 380522, 358274, 337457, 317970, 299723, 282630,
    266612, 251597, 237516, 224306, 211910, 200272, 189343, 179075, 169425, 160353,
    151820, 143793, 136238, 129125, 122426, 116115, 110166, 104558, 99269, 94279,
    89570, 85123, 80925, 76958, 73209, 69665, 66314, 63144, 60144, 57304,
    54615, 52069, 49656, 47369, 45201, 43144, 41194, 39343, 37586, 35917,
    34333, 32827, 31396, 30036, 28743, 27513, 26342, 25228, 24167, 23158,
    22196, 21279, 20406, 19573, 18779, 18016, 17299, 16610, 15952, 15323,
    14723, 14150, 13602, 13079, 12578, 12099, 11642, 11204, 10785, 10384,
    10000, 9632, 9280, 8942, 8619, 8309, 8012, 7727, 7453, 7191,
    6940, 6698, 6467, 6244, 6030, 5825, 5628, 5438, 5256, 5081,
    4829, 4751, 4595, 4445, 4301, 4168, 4029, 3900, 3776, 3657,
    3542, 3431, 3324, 3222, 3122, 3027, 2934, 2845, 2760, 2677,
    2597, 2520, 2445, 2373, 2304, 2237, 2172, 2109, 2049, 1990,
    1934, 1879, 1826, 1775, 1725, 1678, 1631, 1586, 1543, 1501,
    1461, 1421, 1383, 1346, 1310, 1276, 1242, 1210, 1178, 1147,
    1118, 1089, 1061, 1034, 1008, 983, 958, 934, 911, 888,
    866, 845, 824, 804, 785, 766, 747, 729, 712, 695,
    679, 663, 647, 632, 618, 603, 589, 576, 563, 550,
    538]"

record NTC_Thermistor =
  parallelResistance :: i32
  refResistance :: i32
  voltageRef :: i16
  NTC :: "i32 list"
  offset :: i32
  max_temp :: i32

definition thermistor_new :: "i32 \<Rightarrow> i32 \<Rightarrow> i16 \<Rightarrow> i32 \<Rightarrow> i32 \<Rightarrow> i32 list \<Rightarrow> NTC_Thermistor" where
  "thermistor_new Rp Rf vref off mx ntc =
     \<lparr>parallelResistance = Rp, refResistance = Rf, voltageRef = vref, NTC = ntc,
      offset = off, max_temp = mx\<rparr>"

text \<open>The search: \<open>n\<close> positions are left, starting at \<open>i\<close>. A \<open>short\<close> is returned.\<close>

primrec findTemp_loop :: "NTC_Thermistor \<Rightarrow> i32 \<Rightarrow> nat \<Rightarrow> nat \<Rightarrow> i16 option" where
  "findTemp_loop th resistance i 0 = Some (ucast (max_temp th * 100))"
| "findTemp_loop th resistance i (Suc n) = do {
     v \<leftarrow> arr_get (NTC th) i;
     if v = resistance then Some (ucast ((of_nat i + offset th) * 100))
     else if sint v < sint resistance
     then if i = 0 then Some (ucast (offset th * 100))
          else do {
            p \<leftarrow> arr_get (NTC th) (i - 1);
            let delta = p - v;
            q \<leftarrow> c_div ((resistance - v) * 1000) delta;
            d \<leftarrow> c_div q 10;
            Some (ucast (100 * (of_nat i + offset th) - d)) }
     else findTemp_loop th resistance (Suc i) n }"

definition findTemp :: "NTC_Thermistor \<Rightarrow> i32 \<Rightarrow> i16 option" where
  "findTemp th resistance =
     (if sint resistance < 0 then Some (ucast (offset th - 1))
      else findTemp_loop th resistance 0 (nat (sint (max_temp th - offset th))))"

definition convert_mV_to_celcius :: "NTC_Thermistor \<Rightarrow> i16 \<Rightarrow> i16 option" where
  "convert_mV_to_celcius th measuredValue = do {
     let mvTo_nv = 1000;
     let voltageValue = mvTo_nv * (scast (voltageRef th) - scast measuredValue);
     LongAux \<leftarrow> c_div voltageValue (refResistance th);
     LongAux \<leftarrow> c_div (mvTo_nv * scast measuredValue) LongAux;
     LongAux \<leftarrow> c_div (LongAux * parallelResistance th) (parallelResistance th - LongAux);
     findTemp th LongAux }"

text \<open>The two sensors of the board, as \<open>setup\<close> configures them.\<close>

definition board_thermistor :: NTC_Thermistor where
  "board_thermistor = thermistor_new 10000 3300 2500 (- 55) 125 NTC_10K_3380_VET"

section \<open>The table\<close>

definition ntc :: "nat \<Rightarrow> int" where "ntc i = sint (NTC_10K_3380_VET ! i)"

lemma length_NTC [simp]: "length NTC_10K_3380_VET = 181"
  by (simp add: NTC_10K_3380_VET_def)

lemma NTC_successively:
  "successively (\<lambda>a b. b < a \<and> sint b < sint a \<and> sint a - sint b \<le> 30000) NTC_10K_3380_VET"
  by (simp add: NTC_10K_3380_VET_def)

lemma NTC_bounds: "\<forall>w \<in> set NTC_10K_3380_VET. 538 \<le> sint w \<and> sint w \<le> 486088"
  by (simp add: NTC_10K_3380_VET_def)

lemma ntc_bounds: "i < 181 \<Longrightarrow> 538 \<le> ntc i \<and> ntc i \<le> 486088"
  using NTC_bounds by (simp add: ntc_def)

lemma ntc_step: "Suc i < 181 \<Longrightarrow> ntc (Suc i) < ntc i \<and> ntc i - ntc (Suc i) \<le> 30000"
  using NTC_successively by (simp add: successively_conv_nth ntc_def)

lemma NTC_nth: "i < 181 \<Longrightarrow> NTC_10K_3380_VET ! i = word_of_int (ntc i)"
  by (simp add: ntc_def)

section \<open>The search on the board's table\<close>

text \<open>The search stops at \<open>i\<close>: the first of the 180 scanned values not above the resistance.\<close>

definition stops :: "int \<Rightarrow> nat \<Rightarrow> bool" where
  "stops R i \<longleftrightarrow> i < 180 \<and> ntc i \<le> R \<and> (\<forall>j<i. R < ntc j)"

text \<open>Hundredths of a degree: linear interpolation between the neighbouring entries.\<close>

definition temp_at :: "nat \<Rightarrow> int \<Rightarrow> int" where
  "temp_at i R = (if i = 0 then - 5500
     else 100 * (int i - 55) - ((R - ntc i) * 1000 div (ntc (i - 1) - ntc i)) div 10)"

lemma board_thermistor_simps [simp]:
  "parallelResistance board_thermistor = 10000" "refResistance board_thermistor = 3300"
  "voltageRef board_thermistor = 2500" "offset board_thermistor = - 55"
  "max_temp board_thermistor = 125" "NTC board_thermistor = NTC_10K_3380_VET"
  by (simp_all add: board_thermistor_def thermistor_new_def)

lemma stops_exists: "(\<exists>i. stops R i) \<or> (\<forall>j<180. R < ntc j)"
proof (cases "\<exists>j<180. ntc j \<le> R")
  case True
  define i where "i = (LEAST j. j < 180 \<and> ntc j \<le> R)"
  from True have "i < 180 \<and> ntc i \<le> R"
    unfolding i_def by (metis (mono_tags, lifting) LeastI_ex)
  moreover have "R < ntc j" if "j < i" for j
    using that calculation not_less_Least [of j "\<lambda>j. j < 180 \<and> ntc j \<le> R"]
    by (force simp: i_def)
  ultimately show ?thesis by (auto simp: stops_def)
qed auto

lemma temp_at_bounds:
  assumes "stops R i"
  shows "100 * (int i - 55) - 99 \<le> temp_at i R \<and> temp_at i R \<le> 100 * (int i - 55)"
proof (cases i)
  case 0
  then show ?thesis by (simp add: temp_at_def)
next
  case (Suc k)
  have pos: "0 < ntc k - ntc i" using ntc_step [of k] assms by (simp add: stops_def Suc)
  have R: "0 \<le> R - ntc i" "R - ntc i < ntc k - ntc i" using assms by (auto simp: stops_def Suc)
  define q where "q = (R - ntc i) * 1000 div (ntc k - ntc i)"
  have "0 \<le> q"
    using R pos by (simp add: q_def pos_imp_zdiv_nonneg_iff)
  moreover have "q < 1000"
    unfolding q_def using R pos by (intro div_less_int) simp_all
  ultimately have "0 \<le> q div 10" "q div 10 \<le> 99" by linarith+
  moreover have "temp_at i R = 100 * (int i - 55) - q div 10"
    by (simp add: temp_at_def q_def Suc)
  ultimately show ?thesis by simp
qed

lemma temp_at_antitone:
  assumes "stops R i" "stops R' i'" "R \<le> R'"
  shows "temp_at i' R' \<le> temp_at i R"
proof (cases "i' = i")
  case True
  show ?thesis
  proof (cases i)
    case 0
    then show ?thesis by (simp add: temp_at_def True)
  next
    case (Suc k)
    then have "0 < ntc k - ntc i" using ntc_step [of k] assms by (simp add: stops_def)
    then have "(R - ntc i) * 1000 div (ntc k - ntc i) \<le> (R' - ntc i) * 1000 div (ntc k - ntc i)"
      using assms(3) by (intro zdiv_mono1 mult_right_mono) simp_all
    then have "((R - ntc i) * 1000 div (ntc k - ntc i)) div 10 \<le>
        ((R' - ntc i) * 1000 div (ntc k - ntc i)) div 10"
      by (rule zdiv_mono1) simp
    then show ?thesis by (simp add: temp_at_def True Suc)
  qed
next
  case False
  have "\<not> i < i'" using assms by (auto simp: stops_def)
  with False have "i' < i" by simp
  then show ?thesis
    using temp_at_bounds [OF assms(1)] temp_at_bounds [OF assms(2)] by simp
qed

lemma NTC_eq_word_of_int:
  "fits32 R \<Longrightarrow> i < 181 \<Longrightarrow> NTC_10K_3380_VET ! i = word_of_int R \<longleftrightarrow> ntc i = R"
  using sint_word_of_int_32 [of R] by (auto simp: ntc_def)

lemma ucast_word_of_int_16: "(ucast (word_of_int k :: i32) :: i16) = word_of_int k"
  by (rule bit_eqI) (auto simp: bit_simps)

lemma findTemp_loop_hit:
  assumes "0 \<le> R" "fits32 R" "stops R i"
  shows "findTemp_loop board_thermistor (word_of_int R) i (Suc n) = Some (word_of_int (temp_at i R))"
proof -
  have i: "i < 180" "ntc i \<le> R" using assms(3) by (auto simp: stops_def)
  have val: "(100 * (word_of_int (int i) + - 55) :: i32) = word_of_int (100 * (int i - 55))"
    by simp
  show ?thesis
  proof (cases i)
    case 0
    have "R \<noteq> ntc 0 \<or> R = ntc 0" by simp
    then show ?thesis
      using i assms(2) by (auto simp: 0 NTC_eq_word_of_int ntc_def [symmetric] temp_at_def
          ucast_word_of_int_16)
  next
    case (Suc k)
    then have d: "0 < ntc k - ntc i" "ntc k - ntc i \<le> 30000" using ntc_step [of k] i by auto
    have R: "R < ntc k" using assms(3) by (simp add: stops_def Suc)
    define q where "q = (R - ntc i) * 1000 div (ntc k - ntc i)"
    have q0: "0 \<le> q" using i d by (simp add: q_def pos_imp_zdiv_nonneg_iff)
    have q1: "q < 1000" unfolding q_def using R d by (intro div_less_int) simp_all
    have nk: "NTC_10K_3380_VET ! k = word_of_int (ntc k)" "NTC_10K_3380_VET ! i = word_of_int (ntc i)"
      using i by (simp_all add: NTC_nth Suc)
    have "c_div ((word_of_int R - NTC_10K_3380_VET ! i) * 1000)
        (NTC_10K_3380_VET ! k - NTC_10K_3380_VET ! i) = Some (word_of_int q)"
      unfolding nk q_def using c_div_word_pos [OF d(1), of "(R - ntc i) * 1000"] R i d
      by (simp add: fits32_def)
    moreover have "c_div (word_of_int q) 10 = Some (word_of_int (q div 10))"
      using c_div_word_pos [of 10 q] q0 q1 by (simp add: fits32_def)
    moreover have "100 * (of_nat i + - 55) - word_of_int (q div 10) =
        (word_of_int (temp_at i R) :: i32)"
      by (simp add: temp_at_def Suc q_def)
    moreover have "i \<noteq> 0" "i - 1 = k" "i < length NTC_10K_3380_VET" "k < length NTC_10K_3380_VET"
      using i by (simp_all add: Suc)
    moreover have "sint (NTC_10K_3380_VET ! i) < sint (word_of_int R :: i32) \<longleftrightarrow> ntc i < R"
      using assms(2) by (simp add: ntc_def)
    moreover have "(of_nat i + - 55) * 100 = (word_of_int (temp_at i R) :: i32)" if "ntc i = R"
      using that by (simp add: temp_at_def Suc)
    ultimately show ?thesis
      using i assms(2) by (simp only: findTemp_loop.simps board_thermistor_simps arr_get_some
          bind.bind_lunit Let_def NTC_eq_word_of_int ucast_word_of_int_16 if_False) (simp add: ucast_word_of_int_16)
  qed
qed

lemma findTemp_loop_skip:
  assumes "fits32 R" "\<forall>j<i. R < ntc j" "i \<le> 180"
  shows "k \<le> i \<Longrightarrow> findTemp_loop board_thermistor (word_of_int R) k (180 - k) =
    findTemp_loop board_thermistor (word_of_int R) i (180 - i)"
proof (induction "i - k" arbitrary: k)
  case 0
  then show ?case by simp
next
  case (Suc d)
  then have k: "k < i" "d = i - Suc k" by simp_all
  then have "R < ntc k" using assms(2) by simp
  then have "findTemp_loop board_thermistor (word_of_int R) k (Suc (180 - Suc k)) =
      findTemp_loop board_thermistor (word_of_int R) (Suc k) (180 - Suc k)"
    using assms(1,3) k by (simp add: NTC_eq_word_of_int flip: ntc_def)
  moreover have "180 - k = Suc (180 - Suc k)" using k assms(3) by simp
  ultimately show ?case using Suc.hyps(1) [OF k(2)] k by simp
qed

definition temp_rel :: "int \<Rightarrow> int \<Rightarrow> bool" where
  "temp_rel R t \<longleftrightarrow> (\<exists>i. stops R i \<and> t = temp_at i R) \<or> (\<forall>j<180. R < ntc j) \<and> t = 12500"

lemma findTemp_board:
  assumes "0 \<le> R" "fits32 R"
  shows "\<exists>t. findTemp board_thermistor (word_of_int R) = Some (word_of_int t) \<and> temp_rel R t"
proof -
  have start: "findTemp board_thermistor (word_of_int R) =
      findTemp_loop board_thermistor (word_of_int R) 0 180"
    using assms by (simp add: findTemp_def)
  from stops_exists [of R] show ?thesis
  proof
    assume "\<exists>i. stops R i"
    then obtain i where i: "stops R i" by blast
    then have "i < 180" "\<forall>j<i. R < ntc j" by (auto simp: stops_def)
    then have "findTemp_loop board_thermistor (word_of_int R) 0 180 =
        findTemp_loop board_thermistor (word_of_int R) i (Suc (180 - Suc i))"
      using findTemp_loop_skip [OF assms(2), of i 0]
      by (simp only: Suc_diff_Suc le_zero_eq zero_le less_imp_le diff_zero)
    also have "\<dots> = Some (word_of_int (temp_at i R))"
      by (rule findTemp_loop_hit [OF assms i])
    finally show ?thesis using i unfolding start temp_rel_def by blast
  next
    assume none: "\<forall>j<180. R < ntc j"
    then have "findTemp board_thermistor (word_of_int R) =
        findTemp_loop board_thermistor (word_of_int R) 180 (180 - 180)"
      unfolding start using findTemp_loop_skip [OF assms(2), of 180 0] by simp
    then show ?thesis using none by (intro exI [of _ 12500]) (simp add: temp_rel_def)
  qed
qed

lemma temp_rel_range: "temp_rel R t \<Longrightarrow> - 5500 \<le> t \<and> t \<le> 12500"
proof -
  have "- 5500 \<le> temp_at i R \<and> temp_at i R \<le> 12500" if "stops R i" for i
  proof (cases i)
    case (Suc k)
    then show ?thesis using temp_at_bounds [OF that] that by (auto simp: stops_def)
  qed (simp add: temp_at_def)
  then show "temp_rel R t \<Longrightarrow> - 5500 \<le> t \<and> t \<le> 12500" by (auto simp: temp_rel_def)
qed

lemma temp_rel_antitone:
  assumes "temp_rel R t" "temp_rel R' t'" "R \<le> R'"
  shows "t' \<le> t"
  using assms temp_rel_range [OF assms(2)] temp_at_antitone [of R _ R']
  by (auto simp: temp_rel_def stops_def)

section \<open>From millivolts to resistance\<close>

definition current_of :: "int \<Rightarrow> int" where "current_of m = 1000 * (2500 - m) div 3300"
definition parallel_of :: "int \<Rightarrow> int" where "parallel_of m = 1000 * m div current_of m"
definition ntc_of :: "int \<Rightarrow> int" where
  "ntc_of m = parallel_of m * 10000 div (10000 - parallel_of m)"

lemma current_div: "33 * current_of m + 10 * m \<le> 25000" "25000 < 33 * current_of m + 33 + 10 * m"
  using div_mult_mod_eq [of "1000 * (2500 - m)" 3300] pos_mod_bound [of 3300 "1000 * (2500 - m)"]
    pos_mod_sign [of 3300 "1000 * (2500 - m)"]
  unfolding current_of_def [symmetric] by simp_all

lemma current_bound: "0 \<le> m \<Longrightarrow> m \<le> 1879 \<Longrightarrow> m < 10 * current_of m \<and> 188 \<le> current_of m \<and> current_of m \<le> 757"
proof -
  assume m: "0 \<le> m" "m \<le> 1879"
  note d = current_div [of m]
  have "188 \<le> current_of m" "current_of m \<le> 757" using d m by linarith+
  then show ?thesis using m by linarith
qed

lemma parallel_bound: "0 \<le> m \<Longrightarrow> m \<le> 1879 \<Longrightarrow> 0 \<le> parallel_of m \<and> parallel_of m \<le> 9999"
proof -
  assume m: "0 \<le> m" "m \<le> 1879"
  with current_bound have c: "m < 10 * current_of m" "0 < current_of m" by force+
  then have "parallel_of m < 10000"
    unfolding parallel_of_def by (intro div_less_int) simp_all
  moreover have "0 \<le> parallel_of m"
    using m c by (simp add: parallel_of_def pos_imp_zdiv_nonneg_iff)
  ultimately show ?thesis by simp
qed

lemma parallel_mono: "0 \<le> m \<Longrightarrow> m \<le> m' \<Longrightarrow> m' \<le> 1879 \<Longrightarrow> parallel_of m \<le> parallel_of m'"
proof -
  assume m: "0 \<le> m" "m \<le> m'" "m' \<le> 1879"
  then have c: "0 < current_of m'" using current_bound [of m'] by simp
  have "current_of m' \<le> current_of m"
    unfolding current_of_def using m by (intro zdiv_mono1) simp_all
  then have "1000 * m div current_of m \<le> 1000 * m div current_of m'"
    using m c by (intro zdiv_mono2) simp_all
  also have "\<dots> \<le> 1000 * m' div current_of m'"
    using m c by (intro zdiv_mono1) simp_all
  finally show ?thesis by (simp add: parallel_of_def)
qed

lemma ntc_of_mono: "0 \<le> m \<Longrightarrow> m \<le> m' \<Longrightarrow> m' \<le> 1879 \<Longrightarrow> ntc_of m \<le> ntc_of m'"
proof -
  assume m: "0 \<le> m" "m \<le> m'" "m' \<le> 1879"
  define p p' where "p = parallel_of m" and "p' = parallel_of m'"
  have p: "0 \<le> p" "p \<le> p'" "p' \<le> 9999"
    using parallel_bound [of m] parallel_bound [of m'] parallel_mono m by (simp_all add: p_def p'_def)
  have "p * 10000 div (10000 - p) \<le> p * 10000 div (10000 - p')"
    using p by (intro zdiv_mono2) simp_all
  also have "\<dots> \<le> p' * 10000 div (10000 - p')"
    using p by (intro zdiv_mono1) simp_all
  finally show ?thesis by (simp add: ntc_of_def p_def p'_def)
qed

lemma ntc_of_bound: "0 \<le> m \<Longrightarrow> m \<le> 1879 \<Longrightarrow> 0 \<le> ntc_of m \<and> fits32 (ntc_of m)"
proof -
  assume m: "0 \<le> m" "m \<le> 1879"
  have p: "0 \<le> parallel_of m" "parallel_of m \<le> 9999" using parallel_bound [OF m] by simp_all
  have "ntc_of m < 100000000"
    unfolding ntc_of_def
  proof (rule div_less_int)
    have "parallel_of m * 10000 < 100000000 * 1" using p by simp
    also have "\<dots> \<le> 100000000 * (10000 - parallel_of m)"
      using p by (intro mult_left_mono) simp_all
    finally show "parallel_of m * 10000 < 100000000 * (10000 - parallel_of m)" .
  qed (use p in simp)
  moreover have "0 \<le> ntc_of m" using p by (simp add: ntc_of_def pos_imp_zdiv_nonneg_iff)
  ultimately show ?thesis by (simp add: fits32_def)
qed

lemma scast_i16_i32: "(scast (w :: i16) :: i32) = word_of_int (sint w)"
  by (rule scast_eq)

lemma convert_board:
  assumes "0 \<le> sint w" "sint w \<le> 1879"
  shows "convert_mV_to_celcius board_thermistor w =
    findTemp board_thermistor (word_of_int (ntc_of (sint w)))"
proof -
  define m where "m = sint w"
  have m: "0 \<le> m" "m \<le> 1879" using assms by (simp_all add: m_def)
  have c: "188 \<le> current_of m" "current_of m \<le> 757" using current_bound [OF m] by simp_all
  have p: "0 \<le> parallel_of m" "parallel_of m \<le> 9999" using parallel_bound [OF m] by simp_all
  have "c_div (word_of_int (1000 * (2500 - m))) (word_of_int 3300) = Some (word_of_int (current_of m))"
    unfolding current_of_def using m by (intro c_div_word_pos) (simp_all add: fits32_def)
  moreover have "c_div (word_of_int (1000 * m)) (word_of_int (current_of m)) =
      Some (word_of_int (parallel_of m))"
    unfolding parallel_of_def using m c by (intro c_div_word_pos) (simp_all add: fits32_def)
  moreover have "c_div (word_of_int (parallel_of m * 10000)) (word_of_int (10000 - parallel_of m)) =
      Some (word_of_int (ntc_of m))"
    unfolding ntc_of_def using p by (intro c_div_word_pos) (simp_all add: fits32_def)
  ultimately show ?thesis
    by (simp add: convert_mV_to_celcius_def Let_def scast_i16_i32 flip: m_def)
qed

lemma sint_word16: "- 5500 \<le> t \<Longrightarrow> t \<le> 12500 \<Longrightarrow> sint (word_of_int t :: i16) = t"
  by (rule sint_word_of_int_16) simp_all

text \<open>
  C17: for every reading from 0 to 1879 mV the conversion of the board's sensor is defined, its
  result lies in the table's range of -55.00 to 125.00 degrees, and a higher voltage never gives
  a higher temperature.
\<close>

theorem temperature_defined_antitone:
  assumes "0 \<le> sint a" "sint a \<le> sint b" "sint b \<le> 1879"
  shows "\<exists>ta tb. convert_mV_to_celcius board_thermistor a = Some ta \<and>
    convert_mV_to_celcius board_thermistor b = Some tb \<and>
    - 5500 \<le> sint tb \<and> sint tb \<le> sint ta \<and> sint ta \<le> 12500"
proof -
  have le: "ntc_of (sint a) \<le> ntc_of (sint b)" using assms by (rule ntc_of_mono)
  obtain ta where ta: "convert_mV_to_celcius board_thermistor a = Some (word_of_int ta)"
    "temp_rel (ntc_of (sint a)) ta"
    using findTemp_board [of "ntc_of (sint a)"] ntc_of_bound [of "sint a"] assms
    by (auto simp: convert_board)
  obtain tb where tb: "convert_mV_to_celcius board_thermistor b = Some (word_of_int tb)"
    "temp_rel (ntc_of (sint b)) tb"
    using findTemp_board [of "ntc_of (sint b)"] ntc_of_bound [of "sint b"] assms
    by (auto simp: convert_board)
  show ?thesis
    using ta tb temp_rel_range [OF ta(2)] temp_rel_range [OF tb(2)]
      temp_rel_antitone [OF ta(2) tb(2) le]
    by (simp add: sint_word16)
qed

theorem temperature_defined_antitone_witness:
  "\<exists>ta tb. convert_mV_to_celcius board_thermistor 1000 = Some ta \<and>
    convert_mV_to_celcius board_thermistor 1879 = Some tb \<and>
    - 5500 \<le> sint tb \<and> sint tb \<le> sint ta \<and> sint ta \<le> 12500"
  by (rule temperature_defined_antitone) simp_all

section \<open>Readings outside the sensor's range\<close>

lemma high_current: "1880 \<le> m \<Longrightarrow> m \<le> 2460 \<Longrightarrow>
    12 \<le> current_of m \<and> current_of m \<le> 187 \<and> 10001 * current_of m \<le> 1000 * m"
proof -
  assume m: "1880 \<le> m" "m \<le> 2460"
  note d = current_div [of m]
  then show ?thesis using m by linarith
qed

lemma high_parallel:
  assumes "1880 \<le> m" "m \<le> 2460"
  shows "10001 \<le> parallel_of m" "parallel_of m \<le> 205000"
proof -
  have c: "12 \<le> current_of m" "10001 * current_of m \<le> 1000 * m" using high_current [OF assms] by simp_all
  show "10001 \<le> parallel_of m"
    unfolding parallel_of_def using c by (intro le_div_int) simp_all
  have "parallel_of m \<le> 1000 * m div 12"
    unfolding parallel_of_def using assms c by (intro zdiv_mono2) simp_all
  then show "parallel_of m \<le> 205000" using assms by linarith
qed

text \<open>A parallel resistance above the one on the board makes the resistance of the sensor negative.\<close>

lemma negative_resistance:
  assumes p: "10001 \<le> p" "p \<le> 205000"
  shows "\<exists>q. c_div (word_of_int (p * 10000) :: i32) (word_of_int (10000 - p)) = Some (word_of_int (- q)) \<and>
    0 < q \<and> q \<le> 2050000000"
proof -
  define q where "q = p * 10000 div (p - 10000)"
  have "1 \<le> q" unfolding q_def using p by (intro le_div_int) simp_all
  moreover have "q \<le> p * 10000 div 1" unfolding q_def using p by (intro zdiv_mono2) simp_all
  moreover have "c_div (word_of_int (p * 10000) :: i32) (word_of_int (10000 - p)) = Some (word_of_int (- q))"
  proof -
    have f: "fits32 (p * 10000)" "fits32 (10000 - p)" using p by (simp_all add: fits32_def)
    have "(p * 10000) sdiv (10000 - p) = - q" using p by (simp add: signed_divide_int_def q_def sgn_if)
    moreover have "(word_of_int (10000 - p) :: i32) \<noteq> 0" using sint_word_of_int_32 [OF f(2)] p by auto
    ultimately show ?thesis
      unfolding c_div_def by (simp only: sint_word_of_int_32 [OF f(1)] sint_word_of_int_32 [OF f(2)] if_False)
  qed
  ultimately show ?thesis using p by auto
qed

lemma above_the_table:
  assumes "1880 \<le> sint w" "sint w \<le> 2460"
  shows "convert_mV_to_celcius board_thermistor w = Some (- 56)"
proof -
  define m where "m = sint w"
  have m: "1880 \<le> m" "m \<le> 2460" using assms by (simp_all add: m_def)
  have c: "12 \<le> current_of m" "current_of m \<le> 187" using high_current [OF m] by simp_all
  have "c_div (word_of_int (1000 * (2500 - m))) (word_of_int 3300) = Some (word_of_int (current_of m))"
    unfolding current_of_def using m by (intro c_div_word_pos) (simp_all add: fits32_def)
  moreover have "c_div (word_of_int (1000 * m)) (word_of_int (current_of m)) = Some (word_of_int (parallel_of m))"
    unfolding parallel_of_def using m c by (intro c_div_word_pos) (simp_all add: fits32_def)
  moreover obtain q where q: "c_div (word_of_int (parallel_of m * 10000) :: i32) (word_of_int (10000 - parallel_of m)) =
      Some (word_of_int (- q))" "0 < q" "q \<le> 2050000000"
    using negative_resistance [OF high_parallel [OF m]] by blast
  moreover have "findTemp board_thermistor (word_of_int (- q)) = Some (- 56)"
    using q(2,3) sint_word_of_int_32 [of "- q"] by (simp add: findTemp_def fits32_def)
  ultimately show ?thesis
    by (simp add: convert_mV_to_celcius_def Let_def scast_i16_i32 flip: m_def)
qed

lemma open_sensor:
  assumes "2497 \<le> sint w" "sint w \<le> 2503"
  shows "convert_mV_to_celcius board_thermistor w = None"
proof -
  define m v where "m = sint w" and "v = 1000 * (2500 - m)"
  have v: "fits32 v" "\<bar>v\<bar> < 3300" using assms by (simp_all add: v_def m_def fits32_def)
  then have "sint (word_of_int v :: i32) sdiv 3300 = 0"
    by (simp add: signed_divide_int_def div_pos_pos_trivial)
  then have "c_div (word_of_int v) (word_of_int 3300) = Some 0" by (simp add: c_div_def)
  then show ?thesis by (simp add: convert_mV_to_celcius_def Let_def scast_i16_i32 v_def flip: m_def)
qed



end
