(* ===== verification/Recirculador.thy ===== *)
theory Recirculador
  imports Message_Loop Ntc_Thermistor
begin

text \<open>
  \<open>app/recirculador.c\<close> as the target builds it (\<open>__LOW_MEMORY__\<close>): the measuring tasks, the button
  and flow interrupts, the control of the pump, the error task and the tasks that queue messages for
  the slaves. The state adds the module's variables and the objects of \<open>recirculador.h\<close>. Signed sums
  and products wrap as the target computes them; a division by zero is \<^term>\<open>None\<close>.
\<close>

section \<open>State\<close>

record rec_get_temp_s =
  measure_adc_vet :: "i32 list"
  measure_mv_vet :: "i32 list"
  measure_temp_vet :: "i32 list"
  counter :: i32

record isr_Botoeira_s =
  last_time_click :: u64
  pump_on :: bool
  debouce_time :: u32

record rec_create_messages_s =
  cm_S1 :: i32
  cm_S2 :: i32
  cm_Flux :: i32
  cm_Current :: i32
  cm_Timestamp :: i32
  Message_counter :: u8

record rec_change_s =
  last_update :: u64
  variation :: u64
  change_step :: u8

record reg_eeprom_test_s =
  test_counter :: i32
  test_flag :: i32

record recirc = rtc +
  adc_S1 :: adc_t
  adc_S2 :: adc_t
  adc_Vref :: adc_t
  adc_Current :: adc_t
  temp_S1 :: NTC_Thermistor
  temp_S2 :: NTC_Thermistor
  rec_get_temp1_var :: rec_get_temp_s
  rec_get_temp2_var :: rec_get_temp_s
  isr_botoeira_var :: isr_Botoeira_s
  isr_flow_var :: i32
  rec_current_var :: i32
  rec_create_messages_var :: rec_create_messages_s
  rec_change_var :: rec_change_s
  reg_eeprom_test_var :: reg_eeprom_test_s

section \<open>Useful functions\<close>

definition rec_variation_test :: "i32 \<Rightarrow> i32 \<Rightarrow> i32 \<Rightarrow> bool" where
  "rec_variation_test ref1 ref2 var = (
     let value = ref1 - ref2
     in \<not> (sint (- var) < sint value \<and> sint value < sint var))"

definition rec_average :: "i32 list \<Rightarrow> i32 \<Rightarrow> i32 option" where
  "rec_average vet sz = do {
     aux \<leftarrow> for_loop 0 (nat (sint sz)) (\<lambda>i aux. do { v \<leftarrow> arr_get vet i; Some (aux + v) }) 0;
     c_div aux sz }"

definition PUMP_ON :: "'a device_scheme \<Rightarrow> 'a device_scheme option" where
  "PUMP_ON s = do {
     s \<leftarrow> on_regs (reg_write_bool True Sys_RegMap_Pump) s; Some (gpio_ClearPin Syspin_Pump s) }"

definition PUMP_OFF :: "'a device_scheme \<Rightarrow> 'a device_scheme option" where
  "PUMP_OFF s = do {
     s \<leftarrow> on_regs (reg_write_bool False Sys_RegMap_Pump) s; Some (gpio_SetPin Syspin_Pump s) }"

text \<open>The tasks reach the ints through a pointer to the bank: \<open>ptrAux[Sys_RegMap_GetIndex(a)]\<close>.\<close>

definition int_at :: "u32 \<Rightarrow> 'a device_scheme \<Rightarrow> i32 option" where
  "int_at a s = arr_get (int_reg_vet (regs s)) (nat (Sys_RegMap_GetIndex a))"

definition put_int :: "u32 \<Rightarrow> i32 \<Rightarrow> 'a device_scheme \<Rightarrow> 'a device_scheme option" where
  "put_int a v s = do {
     vet \<leftarrow> arr_set (int_reg_vet (regs s)) (nat (Sys_RegMap_GetIndex a)) v;
     Some (s\<lparr>regs := (regs s)\<lparr>int_reg_vet := vet\<rparr>\<rparr>) }"

section \<open>The copy to the EEPROM\<close>

definition rec_eeprom_test :: "'a recirc_scheme \<Rightarrow> 'a recirc_scheme option" where
  "rec_eeprom_test s = (
     let t = reg_eeprom_test_var s;
         t = t\<lparr>test_counter := word_of_int (sint (test_counter t + 1) smod 10)\<rparr>;
         s = s\<lparr>reg_eeprom_test_var := t\<rparr>
     in if test_counter t = 0 \<or> test_flag t = 0 then Some s
        else do { (st, s) \<leftarrow> eeprom_WriteVet (reg_image (regs s)) (ucast reg_mem_size) 0 s; Some s })"

section \<open>Measurements\<close>

text \<open>One sensor: a reading, its millivolts and its temperature go to the next place of the rings.\<close>

definition get_temp ::
  "adc_t \<Rightarrow> NTC_Thermistor \<Rightarrow> rec_get_temp_s \<Rightarrow> 'a adc_scheme \<Rightarrow>
   (rec_get_temp_s \<times> 'a adc_scheme) option" where
  "get_temp adc th g s = do {
     let c = (counter g + 1) mod 3;
     (reading, s) \<leftarrow> adc_Read (Some adc) s;
     a \<leftarrow> arr_set (measure_adc_vet g) (unat c) reading;
     mv \<leftarrow> adc_ConvertToMiliVolts adc reading;
     m \<leftarrow> arr_set (measure_mv_vet g) (unat c) mv;
     temp \<leftarrow> convert_mV_to_celcius th (ucast mv);
     t \<leftarrow> arr_set (measure_temp_vet g) (unat c) (scast temp);
     Some (\<lparr>measure_adc_vet = a, measure_mv_vet = m, measure_temp_vet = t, counter = c\<rparr>, s) }"

definition rec_get_Temp :: "'a recirc_scheme \<Rightarrow> 'a recirc_scheme option" where
  "rec_get_Temp s = do {
     (g, s) \<leftarrow> get_temp (adc_S1 s) (temp_S1 s) (rec_get_temp1_var s) s;
     let s = s\<lparr>rec_get_temp1_var := g\<rparr>;
     (g, s) \<leftarrow> get_temp (adc_S2 s) (temp_S2 s) (rec_get_temp2_var s) s;
     Some (s\<lparr>rec_get_temp2_var := g\<rparr>) }"

definition rec_ref_measure :: "'a recirc_scheme \<Rightarrow> 'a recirc_scheme option" where
  "rec_ref_measure s = do {
     (reading, s) \<leftarrow> adc_Read (Some (adc_Vref s)) s;
     conv \<leftarrow> c_div 2500000 reading;
     Some (s\<lparr>adc_S1 := (adc_S1 s)\<lparr>convertTo_mv := conv\<rparr>, adc_S2 := (adc_S2 s)\<lparr>convertTo_mv := conv\<rparr>,
             adc_Current := (adc_Current s)\<lparr>convertTo_mv := conv\<rparr>\<rparr>) }"

definition rec_current_measure :: "'a recirc_scheme \<Rightarrow> 'a recirc_scheme option" where
  "rec_current_measure s = do {
     (reading, s) \<leftarrow> adc_Read (Some (adc_Current s)) s;
     s \<leftarrow> put_int Sys_RegMap_Current_Adc reading s;
     mv \<leftarrow> adc_ConvertToMiliVolts (adc_Current s) reading;
     s \<leftarrow> put_int Sys_RegMap_Current_mV mv s;
     mv \<leftarrow> int_at Sys_RegMap_Current_mV s;
     resistor \<leftarrow> int_at Sys_RegMap_Current_Resistor s;
     vAux \<leftarrow> c_div (1000 * mv) resistor;
     pump \<leftarrow> reg_read_bool Sys_RegMap_Pump (regs s);
     if pump then put_int Sys_RegMap_Current (vAux - rec_current_var s) s
     else put_int Sys_RegMap_Current 0 (s\<lparr>rec_current_var := vAux\<rparr>) }"

definition rec_measure :: "'a recirc_scheme \<Rightarrow> 'a recirc_scheme option" where
  "rec_measure s = do {
     temp_aux \<leftarrow> rec_average (measure_temp_vet (rec_get_temp1_var s)) 3;
     v \<leftarrow> rec_average (measure_adc_vet (rec_get_temp1_var s)) 3;
     s \<leftarrow> put_int Sys_RegMap_S1_Adc v s;
     v \<leftarrow> rec_average (measure_mv_vet (rec_get_temp1_var s)) 3;
     s \<leftarrow> put_int Sys_RegMap_S1_mV v s;
     s \<leftarrow> put_int Sys_RegMap_S1_Temp temp_aux s;
     temp_aux \<leftarrow> rec_average (measure_temp_vet (rec_get_temp2_var s)) 3;
     v \<leftarrow> rec_average (measure_adc_vet (rec_get_temp2_var s)) 3;
     s \<leftarrow> put_int Sys_RegMap_S2_Adc v s;
     v \<leftarrow> rec_average (measure_mv_vet (rec_get_temp2_var s)) 3;
     s \<leftarrow> put_int Sys_RegMap_S2_mV v s;
     s \<leftarrow> put_int Sys_RegMap_S2_Temp temp_aux s;
     s \<leftarrow> put_int Sys_RegMap_Flux_Counter (isr_flow_var s) s;
     let s = s\<lparr>isr_flow_var := 0\<rparr>;
     calib \<leftarrow> int_at Sys_RegMap_Flux_Calib s;
     count \<leftarrow> int_at Sys_RegMap_Flux_Counter s;
     let value_aux = calib * count;
     total \<leftarrow> int_at Sys_RegMap_Flux_Total_Liters s;
     s \<leftarrow> put_int Sys_RegMap_Flux_Total_Liters (total + value_aux) s;
     put_int Sys_RegMap_Flux_Liters (60 * value_aux) s }"

section \<open>Interrupts of the pins\<close>

definition rec_isr_Botoeira :: "'a recirc_scheme \<Rightarrow> 'a recirc_scheme option" where
  "rec_isr_Botoeira s = (
     let v = isr_botoeira_var s in
     if SysTickGetTime_ms s < last_time_click v + ucast (debouce_time v) then Some s
     else case gpio_ReadPin Syspin_Botoeira s of (pin, s) \<Rightarrow>
       if pin then Some s
       else let v = v\<lparr>last_time_click := SysTickGetTime_ms s, pump_on := \<not> pump_on v\<rparr>;
                s = s\<lparr>isr_botoeira_var := v\<rparr>
            in if pump_on v then PUMP_ON s else PUMP_OFF s)"

definition rec_isr_Flow :: "'a recirc_scheme \<Rightarrow> 'a recirc_scheme option" where
  "rec_isr_Flow s = Some (s\<lparr>isr_flow_var := isr_flow_var s + 1\<rparr>)"

section \<open>Messages to the slaves\<close>

definition rec_get_status :: "'a device_scheme \<Rightarrow> 'a device_scheme option" where
  "rec_get_status s = post (message_default\<lparr>code := Sys_Modbus_Report_Slave_ID,
     addr := SysI2C_ADDR_ALL, size_head := 1, size_message := 0\<rparr>) s"

definition rec_create_messages :: "'a recirc_scheme \<Rightarrow> 'a recirc_scheme option" where
  "rec_create_messages s = do {
     s \<leftarrow> rec_get_status s;
     let v = rec_create_messages_var s;
     S1 \<leftarrow> int_at Sys_RegMap_S1_Temp s;
     S2 \<leftarrow> int_at Sys_RegMap_S2_Temp s;
     Flux \<leftarrow> int_at Sys_RegMap_Flux_Liters s;
     Current \<leftarrow> int_at Sys_RegMap_Current s;
     Timestamp \<leftarrow> int_at Sys_RegMap_Timestamp s;
     let message_flag = (if rec_variation_test S1 (cm_S1 v) 20 then 0b0001 else 0 :: u8);
     let message_flag = message_flag OR (if rec_variation_test S2 (cm_S2 v) 20 then 0b0010 else 0);
     let message_flag = message_flag OR (if rec_variation_test Flux (cm_Flux v) 50 then 0b0100 else 0);
     let message_flag = message_flag OR (if rec_variation_test Current (cm_Current v) 100 then 0b1000 else 0);
     let message_flag = message_flag OR (if Timestamp \<noteq> cm_Timestamp v then 0b1000 else 0);
     if message_flag = 0 then Some s
     else do {
       let s = s\<lparr>rec_create_messages_var := v\<lparr>cm_S1 := S1, cm_S2 := S2, cm_Flux := Flux,
                  cm_Current := Current, cm_Timestamp := Timestamp\<rparr>\<rparr>;
       p \<leftarrow> reg_ptr_int 0;
       post (set_message_of SysI2C_ADDR_ALL Sys_RegMap_Offset_Int (Sys_RegMap_Errors - Sys_RegMap_Timestamp)
         ((Sys_RegMap_Errors - Sys_RegMap_Timestamp) * 4) p) s } }"

text \<open>Every ten seconds one of the three banks, in turn, is marked as changed.\<close>

definition rec_change :: "'a recirc_scheme \<Rightarrow> 'a recirc_scheme" where
  "rec_change s = (
     let v = rec_change_var s;
         v = v\<lparr>variation := SysTickGetTime_ms s - last_update v\<rparr>;
         v = (if 10000 < variation v
              then v\<lparr>last_update := SysTickGetTime_ms s, variation := 0, change_step := push_bit 1 (change_step v)\<rparr>
              else v)
     in if change_step v AND 0b10 \<noteq> 0
        then s\<lparr>regs := reg_set_change_flag Reg_Change_Bool_Register (regs s),
               rec_change_var := v\<lparr>change_step := push_bit 1 (change_step v)\<rparr>\<rparr>
        else if change_step v AND 0b1000 \<noteq> 0
        then s\<lparr>regs := reg_set_change_flag Reg_Change_Short_Register (regs s),
               rec_change_var := v\<lparr>change_step := push_bit 1 (change_step v)\<rparr>\<rparr>
        else if change_step v AND 0b100000 \<noteq> 0
        then s\<lparr>regs := reg_set_change_flag Reg_Change_Int_Register (regs s),
               rec_change_var := v\<lparr>change_step := 0b1\<rparr>\<rparr>
        else s\<lparr>rec_change_var := v\<rparr>)"

definition rec_change_verify :: "'a recirc_scheme \<Rightarrow> 'a recirc_scheme option" where
  "rec_change_verify s = (
     let s = rec_change s;
         flag_change = reg_return_change_flag (regs s)
     in if flag_change AND Reg_Change_Bool_Register \<noteq> 0
        then do {
          s \<leftarrow> post (set_message_of SysI2C_ADDR_ALL Sys_RegMap_Offset_Bool Sys_RegMap_Nreg_Bool
                 (Sys_RegMap_Nreg_Bool div 8 + 1) reg_ptr_bool) s;
          Some (s\<lparr>regs := reg_clear_change_flag Reg_Change_Bool_Register (regs s)\<rparr>) }
        else if flag_change AND Reg_Change_Short_Register \<noteq> 0
        then do {
          p \<leftarrow> reg_ptr_short 0;
          s \<leftarrow> post (set_message_of SysI2C_ADDR_ALL Sys_RegMap_Offset_Short Sys_RegMap_Nreg_Short
                 (Sys_RegMap_Nreg_Short * 2) p) s;
          Some (s\<lparr>regs := reg_clear_change_flag Reg_Change_Short_Register (regs s)\<rparr>) }
        else if flag_change AND Reg_Change_Int_Register \<noteq> 0
        then do {
          p \<leftarrow> reg_ptr_int Sys_RegMap_Flux_Calib;
          let n = Sys_RegMap_Schedules_9 - Sys_RegMap_Flux_Calib + 1;
          s \<leftarrow> post (set_message_of SysI2C_ADDR_ALL Sys_RegMap_Flux_Calib n (n * 4) p) s;
          Some (s\<lparr>regs := reg_clear_change_flag Reg_Change_Int_Register (regs s)\<rparr>) }
        else Some s)"

section \<open>The pump\<close>

definition rec_pump_control :: "'a recirc_scheme \<Rightarrow> 'a recirc_scheme option" where
  "rec_pump_control s = do {
     errors \<leftarrow> reg_read_int Sys_RegMap_Errors (regs s);
     if errors \<noteq> 0 then PUMP_OFF s
     else do {
       requested \<leftarrow> reg_read_bool Sys_RegMap_Pump (regs s);
       s \<leftarrow> (if requested
            then (case gpio_ReadPin Syspin_Pump s of (pin, s) \<Rightarrow> if pin then PUMP_ON s else Some s)
            else Some s);
       sel \<leftarrow> reg_read_int Sys_RegMap_Temp_Ref_Recirculation (regs s);
       temp_measure \<leftarrow> reg_read_int (if sel = 0 then Sys_RegMap_S1_Temp else Sys_RegMap_S2_Temp) (regs s);
       temp_ref_sup \<leftarrow> reg_read_int (if sel = 0 then Sys_RegMap_S1_Temp_Ref else Sys_RegMap_S2_Temp_Ref) (regs s);
       let temp_ref_inf = temp_ref_sup;
       hyst \<leftarrow> reg_read_int (if sel = 0 then Sys_RegMap_S1_Temp_Hysteresis else Sys_RegMap_S2_Temp_Hysteresis) (regs s);
       let temp_ref_sup = temp_ref_sup + hyst;
       if sint temp_ref_sup < sint temp_measure
       then do {
         s \<leftarrow> PUMP_OFF s;
         Some (if pump_on (isr_botoeira_var s)
               then s\<lparr>isr_botoeira_var := (isr_botoeira_var s)\<lparr>pump_on := False\<rparr>\<rparr> else s) }
       else do {
         s \<leftarrow> (if pump_on (isr_botoeira_var s)
              then do {
                let dt_botoeira = SysTickGetTime_ms s - last_time_click (isr_botoeira_var s);
                time \<leftarrow> reg_read_int Sys_RegMap_Time_Recirculation (regs s);
                if scast time < dt_botoeira
                then do {
                  s \<leftarrow> PUMP_OFF s;
                  Some (s\<lparr>isr_botoeira_var := (isr_botoeira_var s)\<lparr>pump_on := False\<rparr>\<rparr>) }
                else Some s }
              else Some s);
         let temp_ref_inf = temp_ref_inf - hyst;
         ptrTimestamp \<leftarrow> reg_ptr_int Sys_RegMap_Timestamp;
         timestamp \<leftarrow> load_int ptrTimestamp (regs s);
         scheduled \<leftarrow> schedulingTest timestamp (regs s);
         if scheduled
         then if sint temp_measure < sint temp_ref_inf then PUMP_ON s
              else if sint temp_ref_sup < sint temp_measure then PUMP_OFF s
              else Some s
         else Some s } } }"

definition rec_system :: "'a recirc_scheme \<Rightarrow> 'a recirc_scheme option" where
  "rec_system s =
     (case gpio_ReadPin Syspin_Botoeira s of (pin, s) \<Rightarrow> do {
        s \<leftarrow> on_regs (reg_write_bool (\<not> pin) Sys_RegMap_Button) s;
        rec_pump_control s })"

section \<open>Errors\<close>

definition rec_S1_error_test :: "reg_state \<Rightarrow> i32 option" where
  "rec_S1_error_test r = do {
     m \<leftarrow> reg_read_int Sys_RegMap_S1_Temp r;
     open_circuit \<leftarrow> reg_read_int Sys_RegMap_S1_Error_Desconnect r;
     if sint open_circuit < sint m then Some Sys_ERROR_S1_OPEN_CIRCUIT
     else do {
       short_circuit \<leftarrow> reg_read_int Sys_RegMap_S1_Error_Short_Circuit r;
       if sint m < sint short_circuit then Some Sys_ERROR_S1_SHORT_CIRCUIT
       else do {
         high \<leftarrow> reg_read_int Sys_RegMap_S1_Error_High r;
         if sint high < sint m then Some Sys_ERROR_S1_HIGH
         else do {
           low \<leftarrow> reg_read_int Sys_RegMap_S1_Error_Low r;
           Some (if sint m < sint low then Sys_ERROR_S1_LOW else Sys_ERROR_NO) } } } }"

text \<open>The second sensor reports with the codes of the first.\<close>

definition rec_S2_error_test :: "reg_state \<Rightarrow> i32 option" where
  "rec_S2_error_test r = do {
     m \<leftarrow> reg_read_int Sys_RegMap_S2_Temp r;
     open_circuit \<leftarrow> reg_read_int Sys_RegMap_S2_Error_Desconnect r;
     if sint open_circuit < sint m then Some Sys_ERROR_S1_OPEN_CIRCUIT
     else do {
       short_circuit \<leftarrow> reg_read_int Sys_RegMap_S2_Error_Short_Circuit r;
       if sint m < sint short_circuit then Some Sys_ERROR_S1_SHORT_CIRCUIT
       else do {
         high \<leftarrow> reg_read_int Sys_RegMap_S2_Error_High r;
         if sint high < sint m then Some Sys_ERROR_S1_HIGH
         else do {
           low \<leftarrow> reg_read_int Sys_RegMap_S2_Error_Low r;
           Some (if sint m < sint low then Sys_ERROR_S1_LOW else Sys_ERROR_NO) } } } }"

definition rec_Current_error_test :: "i32" where
  "rec_Current_error_test = Sys_ERROR_NO"

definition rec_error_process :: "'a device_scheme \<Rightarrow> 'a device_scheme option" where
  "rec_error_process s = do {
     e1 \<leftarrow> rec_S1_error_test (regs s);
     e2 \<leftarrow> rec_S2_error_test (regs s);
     on_regs (reg_write_int (((Sys_ERROR_NO OR e1) OR e2) OR rec_Current_error_test) Sys_RegMap_Errors) s }"

section \<open>What the pump's driver promises\<close>

definition drive :: "bool \<Rightarrow> 'a device_scheme \<Rightarrow> 'a device_scheme option" where
  "drive b s = (if b then PUMP_ON s else PUMP_OFF s)"

lemma pump_addr [simp]: "bool_addr Sys_RegMap_Pump" "bool_addr Sys_RegMap_Button"
  by (simp_all add: bool_addr_def regmap)

lemma pump_pin: "unat Syspin_Pump = 17" by (simp add: Syspin_Pump_def)

text \<open>The states the control of the pump starts from: set-up made the pump's pin an output.\<close>

definition pump_ready :: "'a device_scheme \<Rightarrow> bool" where
  "pump_ready s \<longleftrightarrow> wf_regs (regs s) \<and> wf_gpio s \<and> is_output Syspin_Pump s"

text \<open>The pump runs, or is stopped: the register for the slaves says so and the pin, active low, too.\<close>

definition pump_is :: "bool \<Rightarrow> 'a device_scheme \<Rightarrow> bool" where
  "pump_is b s \<longleftrightarrow> reg_read_bool Sys_RegMap_Pump (regs s) = Some b \<and>
     pin_level (unat Syspin_Pump) (trace s) = Some (\<not> b)"

lemma drive_pump:
  fixes s :: "'a recirc_scheme"
  assumes "pump_ready s"
  shows "\<exists>s'. drive b s = Some s' \<and> pump_ready s' \<and> pump_is b s' \<and>
    int_reg_vet (regs s') = int_reg_vet (regs s) \<and> isr_botoeira_var s' = isr_botoeira_var s \<and>
    SysTickGetTime_ms s' = SysTickGetTime_ms s"
proof -
  have wf: "wf_regs (regs s)" using assms by (simp add: pump_ready_def)
  obtain r where r: "reg_write_bool b Sys_RegMap_Pump (regs s) = Some r"
    using bools.wr_total [OF wf pump_addr(1)] by blast
  have rd: "wf_regs r" "reg_read_bool Sys_RegMap_Pump r = Some b" "int_reg_vet r = int_reg_vet (regs s)"
    using bools.wr_wf [OF wf pump_addr(1) r] bools.rd_wr [OF wf pump_addr(1) pump_addr(1) r]
      reg_write_bool_frame(2) [OF r] by simp_all
  define t where "t = s\<lparr>regs := r\<rparr>"
  define s' where "s' = (if b then gpio_ClearPin Syspin_Pump t else gpio_SetPin Syspin_Pump t)"
  have t: "is_output Syspin_Pump t" "wf_gpio t"
    using assms by (simp_all add: t_def pump_ready_def is_output_def wf_gpio_def)
  have run: "drive b s = Some s'"
    using r by (cases b) (simp_all add: drive_def PUMP_ON_def PUMP_OFF_def on_regs_def s'_def t_def)
  have lev: "pin_level (unat Syspin_Pump) (trace s') = Some (\<not> b)"
    using t(1) by (simp add: s'_def ClearPin_level SetPin_level)
  have same: "regs s' = r" "isr_botoeira_var s' = isr_botoeira_var s" "SysTickGetTime_ms s' = SysTickGetTime_ms s"
    "inputRefPin s' = inputRefPin t" "outputRefPin s' = outputRefPin t"
    by (simp_all add: s'_def t_def gpio_ClearPin_def gpio_SetPin_def hw_write_def SysTickGetTime_ms_def)
  then have "pump_ready s'" using t rd(1) by (simp add: pump_ready_def is_output_def wf_gpio_def)
  then show ?thesis using run lev same rd by (auto simp: pump_is_def)
qed

section \<open>The control of the pump against its plan\<close>

definition ireg :: "u32 \<Rightarrow> reg_state \<Rightarrow> i32" where
  "ireg a r = int_reg_vet r ! nat (uint a - 5000)"

text \<open>
  What is to be done, from the registers, the flag of the button and the time since its last press:
  a command to the pump or none, and the new flag. The temperatures are integers here; a register
  chooses the sensor.
\<close>

definition chosen_reg :: "u32 \<Rightarrow> u32 \<Rightarrow> reg_state \<Rightarrow> i32" where
  "chosen_reg a b r = ireg (if ireg Sys_RegMap_Temp_Ref_Recirculation r = 0 then a else b) r"

abbreviation "pump_T \<equiv> chosen_reg Sys_RegMap_S1_Temp Sys_RegMap_S2_Temp"
abbreviation "pump_ref \<equiv> chosen_reg Sys_RegMap_S1_Temp_Ref Sys_RegMap_S2_Temp_Ref"
abbreviation "pump_h \<equiv> chosen_reg Sys_RegMap_S1_Temp_Hysteresis Sys_RegMap_S2_Temp_Hysteresis"

definition scheduled_now :: "reg_state \<Rightarrow> bool" where
  "scheduled_now r \<longleftrightarrow>
     (\<exists>i<10. sched_spec (int_reg_vet r ! (41 + i)) (unat (ireg Sys_RegMap_Timestamp r)))"

definition pump_plan :: "reg_state \<Rightarrow> bool \<Rightarrow> u64 \<Rightarrow> bool option \<times> bool" where
  "pump_plan r button dt = (
     let T = sint (pump_T r); ref = sint (pump_ref r); h = sint (pump_h r);
         expired = button \<and> scast (ireg Sys_RegMap_Time_Recirculation r) < dt
     in if ireg Sys_RegMap_Errors r \<noteq> 0 then (Some False, button)
        else if ref + h < T then (Some False, False)
        else (if scheduled_now r \<and> T < ref - h then Some True else if expired then Some False else None,
              button \<and> \<not> expired))"

definition refs_fit :: "reg_state \<Rightarrow> bool" where
  "refs_fit r \<longleftrightarrow> (\<forall>(ra, ha) \<in> {(Sys_RegMap_S1_Temp_Ref, Sys_RegMap_S1_Temp_Hysteresis),
       (Sys_RegMap_S2_Temp_Ref, Sys_RegMap_S2_Temp_Hysteresis)}.
     fits32 (sint (ireg ra r) + sint (ireg ha r)) \<and> fits32 (sint (ireg ra r) - sint (ireg ha r)))"

lemma int_addrs [simp]:
  "int_addr Sys_RegMap_Errors" "int_addr Sys_RegMap_Temp_Ref_Recirculation" "int_addr Sys_RegMap_S1_Temp"
  "int_addr Sys_RegMap_S2_Temp" "int_addr Sys_RegMap_S1_Temp_Ref" "int_addr Sys_RegMap_S2_Temp_Ref"
  "int_addr Sys_RegMap_S1_Temp_Hysteresis" "int_addr Sys_RegMap_S2_Temp_Hysteresis"
  "int_addr Sys_RegMap_Time_Recirculation" "int_addr Sys_RegMap_Timestamp"
  "int_addr Sys_RegMap_S1_Error_Desconnect" "int_addr Sys_RegMap_S1_Error_Short_Circuit"
  "int_addr Sys_RegMap_S1_Error_High" "int_addr Sys_RegMap_S1_Error_Low"
  "int_addr Sys_RegMap_S2_Error_Desconnect" "int_addr Sys_RegMap_S2_Error_Short_Circuit"
  "int_addr Sys_RegMap_S2_Error_High" "int_addr Sys_RegMap_S2_Error_Low"
  by (simp_all add: int_addr_def regmap)

lemma read_ireg [simp]: "wf_regs r \<Longrightarrow> int_addr a \<Longrightarrow> reg_read_int a r = Some (ireg a r)"
  by (simp add: reg_read_int_ok ireg_def)

lemma load_timestamp [simp]: "wf_regs r \<Longrightarrow> load_int (Reg_Vet 272) r = Some (ireg Sys_RegMap_Timestamp r)"
  by (simp add: load_int_def int_slot_def wf_regs_def ireg_def regmap)

lemma sint_sum: "fits32 (sint a + sint b) \<Longrightarrow> sint (a + b) = sint a + sint b"
  and sint_diff: "fits32 (sint a - sint b) \<Longrightarrow> sint (a - b) = sint a - sint b" for a b :: i32
  using sint_word_of_int_32 [of "sint a + sint b"] sint_word_of_int_32 [of "sint a - sint b"] by simp_all

lemma schedules_read:
  assumes "wf_regs r" "Sys_timestamp_min \<le> unat t"
  shows "schedulingTest t r = Some (\<exists>i<10. sched_spec (int_reg_vet r ! (41 + i)) (unat t))"
  using schedulingTest_loop_spec [OF assms(2), of 0 10 r] assms(1)
  by (simp add: schedulingTest_def Sys_schedulers_total_def Schedules_0_index wf_regs_def)

text \<open>The command of the plan was carried out.\<close>

definition carried_out :: "bool option \<Rightarrow> 'a device_scheme \<Rightarrow> 'a device_scheme \<Rightarrow> bool" where
  "carried_out cmd s s' \<longleftrightarrow>
     (case cmd of None \<Rightarrow> regs s' = regs s \<and> trace s' = trace s | Some b \<Rightarrow> pump_is b s')"

definition clear_button :: "'a recirc_scheme \<Rightarrow> 'a recirc_scheme" where
  "clear_button s = s\<lparr>isr_botoeira_var := (isr_botoeira_var s)\<lparr>pump_on := False\<rparr>\<rparr>"

lemma clear_button [simp]:
  "pump_ready (clear_button s) = pump_ready s" "regs (clear_button s) = regs s"
  "pump_is b (clear_button s) = pump_is b s" "\<not> pump_on (isr_botoeira_var (clear_button s))"
  by (simp_all add: clear_button_def pump_ready_def pump_is_def wf_gpio_def is_output_def)

text \<open>The code with its readings of the registers resolved.\<close>

lemma pump_control_code:
  fixes s :: "'a recirc_scheme"
  assumes ready: "pump_ready s"
  defines "r \<equiv> regs s"
  shows "rec_pump_control s =
     (if ireg Sys_RegMap_Errors r \<noteq> 0 then drive False s
      else if sint (pump_ref r + pump_h r) < sint (pump_T r)
      then do { s1 \<leftarrow> drive False s; Some (if pump_on (isr_botoeira_var s1) then clear_button s1 else s1) }
      else do {
        s1 \<leftarrow> (if pump_on (isr_botoeira_var s) then
               if scast (ireg Sys_RegMap_Time_Recirculation r) <
                    SysTickGetTime_ms s - last_time_click (isr_botoeira_var s)
               then do { s1 \<leftarrow> drive False s; Some (clear_button s1) } else Some s else Some s);
        ts \<leftarrow> load_int (Reg_Vet 272) (regs s1);
        sched \<leftarrow> schedulingTest ts (regs s1);
        if sched then if sint (pump_T r) < sint (pump_ref r - pump_h r) then drive True s1
                      else if sint (pump_ref r + pump_h r) < sint (pump_T r) then drive False s1 else Some s1
        else Some s1 })"
proof -
  have wf: "wf_regs r" using ready by (simp add: r_def pump_ready_def)
  have pin: "gpio_ReadPin Syspin_Pump s = (False, s)"
    using ready by (simp add: pump_ready_def ReadPin_output)
  have reads: "reg_read_int (if ireg Sys_RegMap_Temp_Ref_Recirculation r = 0 then a else b) r = Some (chosen_reg a b r)"
    if "int_addr a" "int_addr b" for a b
    using wf that by (simp add: chosen_reg_def)
  note reads' = reads [OF int_addrs(3,4)] reads [OF int_addrs(5,6)] reads [OF int_addrs(7,8)]
  obtain req where req: "reg_read_bool Sys_RegMap_Pump r = Some req"
    using bools.rd_total [OF wf pump_addr(1)] by blast
  show ?thesis
    unfolding rec_pump_control_def Let_def clear_button_def drive_def
    by (simp only: if_False if_True if_cancel r_def [symmetric] read_ireg [OF wf int_addrs(1)]
        read_ireg [OF wf int_addrs(2)] read_ireg [OF wf int_addrs(9)] reads' req pin
        prod.case Option.bind.simps pointers)
qed

lemma refs_sums:
  assumes "refs_fit r"
  shows "sint (pump_ref r + pump_h r) = sint (pump_ref r) + sint (pump_h r)"
    "sint (pump_ref r - pump_h r) = sint (pump_ref r) - sint (pump_h r)"
  using assms by (auto simp: refs_fit_def chosen_reg_def intro!: sint_sum sint_diff)

text \<open>Without an error and below the upper reference: first the button, then the schedules.\<close>

lemma pump_control_schedules:
  fixes s s0 :: "'a recirc_scheme"
  defines "r \<equiv> regs s"
  assumes ready: "pump_ready s" "Sys_timestamp_min \<le> unat (ireg Sys_RegMap_Timestamp r)"
    and calm: "refs_fit r" "ireg Sys_RegMap_Errors r = 0"
      "\<not> sint (pump_ref r) + sint (pump_h r) < sint (pump_T r)"
    and s0: "drive False s = Some s0" "pump_ready s0" "int_reg_vet (regs s0) = int_reg_vet r"
  defines "late \<equiv> scast (ireg Sys_RegMap_Time_Recirculation r) <
    SysTickGetTime_ms s - last_time_click (isr_botoeira_var s)"
  defines "s1 \<equiv> if pump_on (isr_botoeira_var s) \<and> late then clear_button s0 else s"
  shows "rec_pump_control s = (if scheduled_now r \<and> sint (pump_T r) < sint (pump_ref r) - sint (pump_h r)
      then drive True s1 else Some s1)"
    and "pump_ready s1" "int_reg_vet (regs s1) = int_reg_vet r"
proof -
  show s1: "pump_ready s1" "int_reg_vet (regs s1) = int_reg_vet r"
    using s0 ready by (simp_all add: s1_def r_def)
  then have same: "wf_regs (regs s1)" "ireg Sys_RegMap_Timestamp (regs s1) = ireg Sys_RegMap_Timestamp r"
    by (simp_all add: pump_ready_def ireg_def)
  have sched: "schedulingTest (ireg Sys_RegMap_Timestamp r) (regs s1) = Some (scheduled_now r)"
    using schedules_read [OF same(1), of "ireg Sys_RegMap_Timestamp r"] ready(2) s1(2)
    by (simp add: scheduled_now_def)
  have start: "(if pump_on (isr_botoeira_var s)
      then if late then do { s1 \<leftarrow> drive False s; Some (clear_button s1) } else Some s
      else Some s) = Some s1" using s0(1) by (simp add: s1_def)
  note code = pump_control_code [OF ready(1), folded r_def, folded late_def, unfolded refs_sums [OF calm(1)]]
  show "rec_pump_control s = (if scheduled_now r \<and> sint (pump_T r) < sint (pump_ref r) - sint (pump_h r)
      then drive True s1 else Some s1)"
    using calm(2,3) unfolding code start
    by (simp only: load_timestamp [OF same(1)] same(2) sched Option.bind.simps if_False) simp
qed

text \<open>
  C1: the control of the pump always returns and carries out its plan: with an error recorded the
  pump stops; above reference plus hysteresis it stops and the button's flag is cleared; in an
  active schedule and below reference minus hysteresis it runs; a press of the button older than
  the recirculation time stops it. In every other case it does nothing at all, also when a slave
  has set the pump's register: the pin it then reads is an output.
\<close>

theorem pump_control_follows_the_plan:
  fixes s :: "'a recirc_scheme"
  assumes "pump_ready s" "refs_fit (regs s)" "Sys_timestamp_min \<le> unat (ireg Sys_RegMap_Timestamp (regs s))"
    and "pump_plan (regs s) (pump_on (isr_botoeira_var s))
      (SysTickGetTime_ms s - last_time_click (isr_botoeira_var s)) = (cmd, button)"
  shows "\<exists>s'. rec_pump_control s = Some s' \<and> pump_ready s' \<and> carried_out cmd s s' \<and>
    pump_on (isr_botoeira_var s') = button \<and> int_reg_vet (regs s') = int_reg_vet (regs s)"
proof -
  define r where "r = regs s"
  note code = pump_control_code [OF assms(1), folded r_def, unfolded refs_sums [OF assms(2), folded r_def]]
  note plan = assms(4) [unfolded pump_plan_def Let_def, folded r_def]
  obtain s0 where s0: "drive False s = Some s0" "pump_ready s0" "pump_is False s0"
    "int_reg_vet (regs s0) = int_reg_vet r" "isr_botoeira_var s0 = isr_botoeira_var s"
    using drive_pump [OF assms(1), of False] by (auto simp: r_def)
  consider "ireg Sys_RegMap_Errors r \<noteq> 0"
    | "ireg Sys_RegMap_Errors r = 0" "sint (pump_ref r) + sint (pump_h r) < sint (pump_T r)"
    | "ireg Sys_RegMap_Errors r = 0" "\<not> sint (pump_ref r) + sint (pump_h r) < sint (pump_T r)" by blast
  then show ?thesis
  proof cases
    case 1
    then show ?thesis using code plan s0 by (auto simp: carried_out_def r_def)
  next
    case 2
    then have "rec_pump_control s = Some (if pump_on (isr_botoeira_var s0) then clear_button s0 else s0)"
      using code s0(1) by simp
    then show ?thesis using 2 plan s0 by (auto simp: carried_out_def r_def)
  next
    case 3
    note run = pump_control_schedules [OF assms(1,3,2) 3 [unfolded r_def] s0(1,2) s0(4) [unfolded r_def], folded r_def]
    define s1 where "s1 = (if pump_on (isr_botoeira_var s) \<and> scast (ireg Sys_RegMap_Time_Recirculation r) <
      SysTickGetTime_ms s - last_time_click (isr_botoeira_var s) then clear_button s0 else s)"
    obtain s2 where "drive True s1 = Some s2" "pump_ready s2" "pump_is True s2"
      "int_reg_vet (regs s2) = int_reg_vet (regs s1)" "isr_botoeira_var s2 = isr_botoeira_var s1"
      using drive_pump [OF run(2), of True] by (auto simp: s1_def)
    moreover have "pump_on (isr_botoeira_var s1) = button" using plan 3 by (auto simp: s1_def)
    ultimately show ?thesis
      using run [folded s1_def] plan 3 s0(3) by (auto simp: carried_out_def s1_def r_def split: if_splits)
  qed
qed

section \<open>The state before set-up\<close>

definition recirc_zero :: recirc where
  "recirc_zero = rtc.extend rtc_zero (
     let adc0 = \<lparr>channel = 0, measureLength = 0, convertTo_mv = 0\<rparr>;
         th0 = \<lparr>parallelResistance = 0, refResistance = 0, voltageRef = 0, NTC = [], offset = 0, max_temp = 0\<rparr>;
         g0 = \<lparr>measure_adc_vet = [0, 0, 0], measure_mv_vet = [0, 0, 0], measure_temp_vet = [0, 0, 0], counter = 0\<rparr>
     in \<lparr>adc_S1 = adc0, adc_S2 = adc0, adc_Vref = adc0, adc_Current = adc0, temp_S1 = th0, temp_S2 = th0,
         rec_get_temp1_var = g0, rec_get_temp2_var = g0,
         isr_botoeira_var = \<lparr>last_time_click = 0, pump_on = False, debouce_time = 20 * SysTicksButtonDebounce\<rparr>,
         isr_flow_var = 0, rec_current_var = 0,
         rec_create_messages_var = \<lparr>cm_S1 = 0, cm_S2 = 0, cm_Flux = 0, cm_Current = 0, cm_Timestamp = 0, Message_counter = 0\<rparr>,
         rec_change_var = \<lparr>last_update = 0, variation = 0, change_step = 0b1\<rparr>,
         reg_eeprom_test_var = \<lparr>test_counter = 0, test_flag = 0\<rparr>\<rparr>)"

lemma recirc_zero_fields [simp]:
  "isr_botoeira_var recirc_zero = \<lparr>last_time_click = 0, pump_on = False, debouce_time = 100\<rparr>"
  "isr_flow_var recirc_zero = 0" "rec_current_var recirc_zero = 0"
  "rec_create_messages_var recirc_zero =
     \<lparr>cm_S1 = 0, cm_S2 = 0, cm_Flux = 0, cm_Current = 0, cm_Timestamp = 0, Message_counter = 0\<rparr>"
  "rec_change_var recirc_zero = \<lparr>last_update = 0, variation = 0, change_step = 1\<rparr>"
  "SysTickCount recirc_zero = 0" "regs recirc_zero = reg_zero" "mq recirc_zero = queue_zero"
  "inputRefPin recirc_zero = 0" "outputRefPin recirc_zero = 0" "dT_us recirc_zero = 0"
  "task_vet recirc_zero = replicate Sys_task_max task_s_default" "tasks_on recirc_zero = 0"
  "scheduler_on recirc_zero = 0" "pause recirc_zero = 0"
  by (simp_all add: recirc_zero_def rtc.defs rtc_zero_def flash.defs flash_zero_def iap.defs device.defs
      device_zero_def tasks.defs task_zero_def i2c.defs i2c_zero_def interrupt.defs int_zero_def adc.defs
      adc_zero_def gpio.defs gpio_zero_def SysTicksButtonDebounce_def Let_def)

text \<open>A state after set-up in which the first sensor is hot.\<close>

definition hot_state :: recirc where
  "hot_state = recirc_zero\<lparr>outputRefPin := 0x20000,
     regs := reg_zero\<lparr>int_reg_vet := (replicate 128 0)[0 := 1775055600, 6 := 5000]\<rparr>\<rparr>"

lemma hot_state [simp]:
  "pump_ready hot_state" "isr_botoeira_var hot_state = \<lparr>last_time_click = 0, pump_on = False, debouce_time = 100\<rparr>"
  "regs hot_state = reg_zero\<lparr>int_reg_vet := (replicate 128 0)[0 := 1775055600, 6 := 5000]\<rparr>"
  by (simp_all add: hot_state_def pump_ready_def wf_regs_def reg_zero_def wf_gpio_def is_output_def
      Syspin_Pump_def bit_simps)

theorem pump_control_follows_the_plan_witness:
  "\<exists>s'. rec_pump_control hot_state = Some s' \<and> pump_ready s' \<and> carried_out (Some False) hot_state s' \<and>
    pump_on (isr_botoeira_var s') = False \<and> int_reg_vet (regs s') = int_reg_vet (regs hot_state)"
  by (rule pump_control_follows_the_plan)
    (simp_all add: refs_fit_def ireg_def regmap pump_plan_def chosen_reg_def Sys_timestamp_min_def fits32_def)

section \<open>Faults\<close>

text \<open>What a sensor's test reports for a temperature and its four limits.\<close>

definition fault_of :: "int \<Rightarrow> int \<Rightarrow> int \<Rightarrow> int \<Rightarrow> int \<Rightarrow> i32" where
  "fault_of T open_c short_c high low =
     (if open_c < T then Sys_ERROR_S1_OPEN_CIRCUIT else if T < short_c then Sys_ERROR_S1_SHORT_CIRCUIT
      else if high < T then Sys_ERROR_S1_HIGH else if T < low then Sys_ERROR_S1_LOW else Sys_ERROR_NO)"

definition fault_S1 :: "reg_state \<Rightarrow> i32" where
  "fault_S1 r = fault_of (sint (ireg Sys_RegMap_S1_Temp r)) (sint (ireg Sys_RegMap_S1_Error_Desconnect r))
     (sint (ireg Sys_RegMap_S1_Error_Short_Circuit r)) (sint (ireg Sys_RegMap_S1_Error_High r))
     (sint (ireg Sys_RegMap_S1_Error_Low r))"

definition fault_S2 :: "reg_state \<Rightarrow> i32" where
  "fault_S2 r = fault_of (sint (ireg Sys_RegMap_S2_Temp r)) (sint (ireg Sys_RegMap_S2_Error_Desconnect r))
     (sint (ireg Sys_RegMap_S2_Error_Short_Circuit r)) (sint (ireg Sys_RegMap_S2_Error_High r))
     (sint (ireg Sys_RegMap_S2_Error_Low r))"

definition in_limits :: "int \<Rightarrow> int \<Rightarrow> int \<Rightarrow> int \<Rightarrow> int \<Rightarrow> bool" where
  "in_limits T open_c short_c high low \<longleftrightarrow> max short_c low \<le> T \<and> T \<le> min open_c high"

lemma fault_of_zero: "fault_of T oc sc h l = 0 \<longleftrightarrow> in_limits T oc sc h l"
  by (auto simp: fault_of_def in_limits_def regmap)

lemma fault_of_codes: "fault_of T oc sc h l \<in> {0, 1, 2, 4, 8}"
  by (simp add: fault_of_def regmap)

lemma codes_or: "x \<in> {0, 1, 2, 4, 8} \<Longrightarrow> y \<in> {0, 1, 2, 4, 8} \<Longrightarrow> (x OR y) AND NOT 0xF = 0" for x y :: i32
  by (elim insertE; simp)

lemma error_tests:
  assumes "wf_regs r"
  shows "rec_S1_error_test r = Some (fault_S1 r)" "rec_S2_error_test r = Some (fault_S2 r)"
  using assms by (simp_all add: rec_S1_error_test_def rec_S2_error_test_def fault_S1_def fault_S2_def fault_of_def)

lemma error_process_run:
  assumes "wf_regs (regs s)"
  shows "\<exists>r'. rec_error_process s = Some (s\<lparr>regs := r'\<rparr>) \<and> wf_regs r' \<and> bool_reg_vet r' = bool_reg_vet (regs s) \<and>
    (\<forall>a. int_addr a \<longrightarrow> ireg a r' = (if a = Sys_RegMap_Errors then fault_S1 (regs s) OR fault_S2 (regs s)
                                     else ireg a (regs s)))"
proof -
  note a = int_addrs(1)
  obtain r' where r': "reg_write_int (fault_S1 (regs s) OR fault_S2 (regs s)) Sys_RegMap_Errors (regs s) = Some r'"
    using ints.wr_total [OF assms a] by blast
  have wf: "wf_regs r'" by (rule ints.wr_wf [OF assms a r'])
  have "ireg b r' = (if b = Sys_RegMap_Errors then fault_S1 (regs s) OR fault_S2 (regs s) else ireg b (regs s))"
    if "int_addr b" for b
    using ints.rd_wr [OF assms a that r'] read_ireg [OF wf that] read_ireg [OF assms that] by (simp split: if_splits)
  moreover have "rec_error_process s = Some (s\<lparr>regs := r'\<rparr>)"
    using assms r' by (simp add: rec_error_process_def error_tests on_regs_def rec_Current_error_test_def regmap)
  ultimately show ?thesis using wf reg_write_int_frame(1) [OF r'] by blast
qed

text \<open>
  C19: the error task always returns and leaves in the error register the codes of the faults of the
  two sensors: it is zero exactly when both temperatures lie between their limits. The codes of the
  second sensor are those of the first, so only the four lowest bits are ever set and the register
  does not tell which sensor failed.
\<close>

theorem error_register:
  assumes "wf_regs (regs s)"
  shows "\<exists>s'. rec_error_process s = Some s' \<and> wf_regs (regs s') \<and>
    ireg Sys_RegMap_Errors (regs s') = fault_S1 (regs s) OR fault_S2 (regs s) \<and>
    (ireg Sys_RegMap_Errors (regs s') = 0 \<longleftrightarrow> fault_S1 (regs s) = 0 \<and> fault_S2 (regs s) = 0) \<and>
    ireg Sys_RegMap_Errors (regs s') AND NOT 0xF = 0"
proof -
  obtain r' where r': "rec_error_process s = Some (s\<lparr>regs := r'\<rparr>)" "wf_regs r'"
    "ireg Sys_RegMap_Errors r' = fault_S1 (regs s) OR fault_S2 (regs s)"
    using error_process_run [OF assms] int_addrs(1) by auto
  have "(fault_S1 (regs s) OR fault_S2 (regs s)) AND NOT 0xF = 0"
    unfolding fault_S1_def fault_S2_def by (rule codes_or [OF fault_of_codes fault_of_codes])
  then show ?thesis using r' by (intro exI [of _ "s\<lparr>regs := r'\<rparr>"]) (simp add: or_eq_0_iff)
qed

theorem error_register_witness:
  "\<exists>s'. rec_error_process hot_state = Some s' \<and> ireg Sys_RegMap_Errors (regs s') = Sys_ERROR_S1_OPEN_CIRCUIT"
proof -
  have wf: "wf_regs (regs hot_state)" by (simp add: wf_regs_def reg_zero_def)
  have "fault_S1 (regs hot_state) = 8" "fault_S2 (regs hot_state) = 0"
    by (simp_all add: fault_S1_def fault_S2_def fault_of_def ireg_def regmap)
  then show ?thesis using error_register [OF wf] by (auto simp: regmap)
qed

lemma ReadPin_only:
  fixes s :: "'a device_scheme"
  assumes "gpio_ReadPin p s = (b, s')"
  shows "regs s' = regs s" "inputRefPin s' = inputRefPin s" "outputRefPin s' = outputRefPin s"
    "hw.more s' = hw.more s"
  using assms by (auto simp: gpio_ReadPin_def hw_read_def Let_def split: if_splits)

text \<open>
  C2: the two tasks together: when a sensor is outside its limits, the next run of the error task
  followed by a run of the system task stops the pump, whatever the button, the schedules, the
  clock and the other registers say.
\<close>

theorem fault_stops_the_pump:
  fixes s :: "'a recirc_scheme"
  assumes "pump_ready s" "fault_S1 (regs s) \<noteq> 0 \<or> fault_S2 (regs s) \<noteq> 0"
  shows "\<exists>s1 s2. rec_error_process s = Some s1 \<and> rec_system s1 = Some s2 \<and> pump_is False s2"
proof -
  have wf: "wf_regs (regs s)" using assms(1) by (simp add: pump_ready_def)
  obtain r' where r': "rec_error_process s = Some (s\<lparr>regs := r'\<rparr>)" "wf_regs r'"
    "ireg Sys_RegMap_Errors r' \<noteq> 0"
    using error_process_run [OF wf] int_addrs(1) assms(2) by (auto simp: or_eq_0_iff)
  define s1 where "s1 = s\<lparr>regs := r'\<rparr>"
  obtain pin t where t: "gpio_ReadPin Syspin_Botoeira s1 = (pin, t)" by fastforce
  note o = ReadPin_only [OF t]
  obtain r2 where r2: "reg_write_bool (\<not> pin) Sys_RegMap_Button (regs t) = Some r2"
    using bools.wr_total [OF _ pump_addr(2)] r'(2) o(1) by (fastforce simp: s1_def)
  define u where "u = t\<lparr>regs := r2\<rparr>"
  have "wf_regs r2" using bools.wr_wf [OF _ pump_addr(2) r2] r'(2) o(1) by (simp add: s1_def)
  moreover have "ireg Sys_RegMap_Errors r2 \<noteq> 0"
    using reg_write_bool_frame(2) [OF r2] r'(3) o(1) by (simp add: s1_def ireg_def)
  ultimately have u: "pump_ready u" "ireg Sys_RegMap_Errors (regs u) \<noteq> 0"
    using assms(1) o by (simp_all add: u_def s1_def pump_ready_def wf_gpio_def is_output_def)
  obtain s2 where "drive False u = Some s2" "pump_is False s2" using drive_pump [OF u(1)] by blast
  then have "rec_pump_control u = Some s2" "pump_is False s2" using pump_control_code [OF u(1)] u(2) by simp_all
  then have "rec_system s1 = Some s2" "pump_is False s2"
    using t r2 by (simp_all add: rec_system_def on_regs_def u_def)
  then show ?thesis using r'(1) by (auto simp: s1_def)
qed

theorem fault_stops_the_pump_witness:
  "\<exists>s1 s2. rec_error_process hot_state = Some s1 \<and> rec_system s1 = Some s2 \<and> pump_is False s2"
  by (rule fault_stops_the_pump) (simp_all add: fault_S1_def fault_of_def ireg_def regmap)

section \<open>The button\<close>

text \<open>
  C23: a press within the debounce time of the last accepted one changes nothing at all. Later, the
  interrupt reads the pin: high is noise and only the reading is left; low toggles the flag, stores
  the present time and drives the pump by the new flag.
\<close>

theorem button_debounced:
  fixes s :: "'a recirc_scheme"
  assumes "pump_ready s"
    and "unat (last_time_click (isr_botoeira_var s)) + unat (debouce_time (isr_botoeira_var s)) < 2 ^ 64"
  shows "\<exists>s'. rec_isr_Botoeira s = Some s' \<and> pump_ready s' \<and>
    (if unat (SysTickGetTime_ms s) < unat (last_time_click (isr_botoeira_var s)) + unat (debouce_time (isr_botoeira_var s))
     then s' = s
     else if fst (gpio_ReadPin Syspin_Botoeira s) then s' = snd (gpio_ReadPin Syspin_Botoeira s)
     else pump_is (\<not> pump_on (isr_botoeira_var s)) s' \<and>
       isr_botoeira_var s' = (isr_botoeira_var s)\<lparr>last_time_click := SysTickGetTime_ms s,
         pump_on := \<not> pump_on (isr_botoeira_var s)\<rparr>)"
proof -
  define v where "v = isr_botoeira_var s"
  have "unat (debouce_time v) < 2 ^ 32" using unsigned_less [of "debouce_time v"] by simp
  then have "unat (ucast (debouce_time v) :: u64) = unat (debouce_time v)"
    by (subst ucast_via_nat) (rule u64_of_nat, simp)
  then have lt: "SysTickGetTime_ms s < last_time_click v + ucast (debouce_time v) \<longleftrightarrow>
      unat (SysTickGetTime_ms s) < unat (last_time_click v) + unat (debouce_time v)"
    using assms(2) by (simp add: word_less_nat_alt v_def unat_add_lem [THEN iffD1])
  show ?thesis
  proof (cases "SysTickGetTime_ms s < last_time_click v + ucast (debouce_time v)")
    case True
    then show ?thesis using lt assms(1) by (simp add: rec_isr_Botoeira_def v_def Let_def)
  next
    case False
    obtain pin t where t: "gpio_ReadPin Syspin_Botoeira s = (pin, t)" by fastforce
    note o = ReadPin_only [OF t]
    have now: "SysTickGetTime_ms t = SysTickGetTime_ms s" "isr_botoeira_var t = v"
      using o(4) by (cases s; cases t; simp add: SysTickGetTime_ms_def v_def)+
    have ready: "pump_ready t" using assms(1) o by (simp add: pump_ready_def wf_gpio_def is_output_def)
    show ?thesis
    proof (cases pin)
      case True
      then show ?thesis using False lt t ready by (simp add: rec_isr_Botoeira_def v_def Let_def)
    next
      case low: False
      define u where "u = t\<lparr>isr_botoeira_var := v\<lparr>last_time_click := SysTickGetTime_ms s, pump_on := \<not> pump_on v\<rparr>\<rparr>"
      have "pump_ready u" using ready by (simp add: u_def pump_ready_def wf_gpio_def is_output_def)
      from drive_pump [OF this] obtain s' where s': "drive (\<not> pump_on v) u = Some s'" "pump_ready s'"
        "pump_is (\<not> pump_on v) s'" "isr_botoeira_var s' = isr_botoeira_var u" by blast
      have "rec_isr_Botoeira s = Some s'"
        using s'(1) False t low now(1)
        by (cases "pump_on v") (simp_all add: rec_isr_Botoeira_def drive_def u_def v_def Let_def)
      then show ?thesis using s' False lt t low by (simp add: u_def v_def)
    qed
  qed
qed

theorem button_debounced_witness:
  "\<exists>s'. rec_isr_Botoeira (hot_state\<lparr>dT_us := 500, SysTickCount := 1000\<rparr>) = Some s' \<and> pump_is True s' \<and>
    last_time_click (isr_botoeira_var s') = 500"
proof -
  let ?s = "hot_state\<lparr>dT_us := 500, SysTickCount := 1000\<rparr>"
  have ready: "pump_ready ?s" using hot_state(1) by (simp add: pump_ready_def wf_gpio_def is_output_def)
  have now: "SysTickGetTime_ms ?s = 500" by (simp add: SysTickGetTime_ms_def)
  have pin: "fst (gpio_ReadPin Syspin_Botoeira ?s) = False"
    by (simp add: gpio_ReadPin_def hot_state_def)
  show ?thesis
    using button_debounced [OF ready] by (simp add: now pin) auto
qed

section \<open>Announcements\<close>

text \<open>
  C30: the ten-second rounds: from the initial step on, only the steps 1, 4 and 16 occur between
  calls. When more than ten seconds have passed since the last update, exactly one bank is marked as
  changed, the banks taking turns; marking replaces whatever changes were pending. Otherwise only
  the elapsed time is stored.
\<close>

theorem announcement_rounds:
  assumes "change_step (rec_change_var s) \<in> {1, 4, 16}"
  shows "change_step (rec_change_var (rec_change s)) \<in> {1, 4, 16} \<and>
    (let v = rec_change_var s; elapsed = SysTickGetTime_ms s - last_update v;
         bank = (if change_step v = 1 then Reg_Change_Bool_Register
                 else if change_step v = 4 then Reg_Change_Short_Register else Reg_Change_Int_Register)
     in rec_change s =
       (if 10000 < elapsed
        then s\<lparr>regs := (regs s)\<lparr>change_flag := bank\<rparr>,
               rec_change_var := \<lparr>last_update = SysTickGetTime_ms s, variation = 0,
                 change_step = (if change_step v = 16 then 1 else 4 * change_step v)\<rparr>\<rparr>
        else s\<lparr>rec_change_var := v\<lparr>variation := elapsed\<rparr>\<rparr>))"
proof -
  consider "change_step (rec_change_var s) = 1" | "change_step (rec_change_var s) = 4"
    | "change_step (rec_change_var s) = 16" using assms by blast
  then show ?thesis
    by cases (simp_all add: rec_change_def reg_set_change_flag_def Let_def push_bit_eq_mult)
qed

theorem announcement_rounds_witness:
  "change_flag (regs (rec_change (recirc_zero\<lparr>dT_us := 1000, SysTickCount := 20000\<rparr>))) = 1"
  using announcement_rounds [of "recirc_zero\<lparr>dT_us := 1000, SysTickCount := 20000\<rparr>"]
  by (simp add: SysTickGetTime_ms_def Reg_Change_Bool_Register_def Let_def)

text \<open>What the change task announces for the pending bits: the lowest bank, and its bit is cleared.\<close>

definition announced :: "u8 \<Rightarrow> i2c_modbus_s list" where
  "announced flag = (if bit flag 0 then [bool_message SysI2C_ADDR_ALL]
     else if bit flag 1 then [short_message SysI2C_ADDR_ALL]
     else if bit flag 2 then [int_message SysI2C_ADDR_ALL 37] else [])"

definition lowest :: "u8 \<Rightarrow> u8" where
  "lowest flag = (if bit flag 0 then 1 else if bit flag 1 then 2 else if bit flag 2 then 4 else 0)"

lemma change_regs [simp]: "mq (rec_change s) = mq s" "wf_regs (regs (rec_change s)) = wf_regs (regs s)"
  by (simp_all add: rec_change_def Let_def reg_set_change_flag_def wf_regs_def)

lemma change_ptrs: "reg_ptr_short 0 = Some (Reg_Vet 16)" "reg_ptr_int 0 = Some (Reg_Vet 272)"
  "Sys_RegMap_Schedules_9 - Sys_RegMap_Flux_Calib + 1 = 37"
  by (simp_all add: reg_ptr_short_def reg_ptr_int_def regmap)

lemma change_verify_code:
  "rec_change_verify s = (
     let s = rec_change s; f = change_flag (regs s) in
     case announced f of
       [] \<Rightarrow> Some s
     | m # _ \<Rightarrow> do { s \<leftarrow> post m s; Some (s\<lparr>regs := reg_clear_change_flag (lowest f) (regs s)\<rparr>) })"
  unfolding rec_change_verify_def Let_def announced_def lowest_def reg_return_change_flag_def
    Reg_Change_Bool_Register_def Reg_Change_Short_Register_def Reg_Change_Int_Register_def change_ptrs
    Option.bind.simps reg_ptr_bool_def flag_bits bool_message_def short_message_def int_message_def
  by (simp add: flag_bits del: One_nat_def)

text \<open>
  C26: with room in the queue, a run of the change task queues at most one message, the write of the
  lowest bank whose change is pending after the ten-second round, and clears exactly that bit; the
  other pending banks are announced by the next runs.
\<close>

theorem one_bank_per_run:
  assumes "inv_queue (mq s)" "message_queue_lenght (mq s) \<le> 13"
  shows "\<exists>s'. rec_change_verify s = Some s' \<and> inv_queue (mq s') \<and>
    queue_content (mq s') = queue_content (mq s) @ announced (change_flag (regs (rec_change s))) \<and>
    change_flag (regs s') = change_flag (regs (rec_change s)) AND NOT (lowest (change_flag (regs (rec_change s))))"
proof -
  define t f where "t = rec_change s" and "f = change_flag (regs t)"
  have t: "mq t = mq s" by (simp add: t_def)
  show ?thesis
  proof (cases "announced f")
    case Nil
    then have "lowest f = 0" by (simp add: announced_def lowest_def split: if_splits)
    then show ?thesis
      using Nil assms t by (simp add: change_verify_code t_def [symmetric] f_def [symmetric] Let_def)
  next
    case (Cons m ms)
    have "ms = []" "lowest f \<noteq> 0" using Cons by (auto simp: announced_def lowest_def split: if_splits)
    obtain q where q: "post m t = Some (t\<lparr>mq := q\<rparr>)" "inv_queue q" "queue_content q = queue_content (mq s) @ [m]"
      using post_room [of t True m] assms t by auto
    then show ?thesis
      using Cons \<open>ms = []\<close> \<open>lowest f \<noteq> 0\<close>
      by (simp add: change_verify_code t_def [symmetric] f_def [symmetric] Let_def reg_clear_change_flag_def)
  qed
qed

theorem one_bank_per_run_witness:
  "\<exists>s'. rec_change_verify (recirc_zero\<lparr>mq := message_Init queue_zero, regs := reg_zero\<lparr>change_flag := 6\<rparr>\<rparr>) = Some s' \<and>
     queue_content (mq s') = [message_default, short_message SysI2C_ADDR_ALL] \<and> change_flag (regs s') = 4"
proof -
  let ?s = "recirc_zero\<lparr>mq := message_Init queue_zero, regs := reg_zero\<lparr>change_flag := 6\<rparr>\<rparr>"
  have f: "change_flag (regs (rec_change ?s)) = 6"
    by (simp add: rec_change_def Let_def SysTickGetTime_ms_def)
  have bits: "\<not> bit (6 :: u8) 0" "bit (6 :: u8) 1" by simp_all
  have a: "announced 6 = [short_message SysI2C_ADDR_ALL]" "lowest 6 = 2"
    using bits by (simp_all add: announced_def lowest_def)
  show ?thesis
    using one_bank_per_run [of ?s, unfolded f a] by auto
qed

section \<open>Reports of measurements\<close>

definition status_message :: i2c_modbus_s where
  "status_message = message_default\<lparr>code := Sys_Modbus_Report_Slave_ID, addr := SysI2C_ADDR_ALL, size_head := 1\<rparr>"

definition measures_message :: i2c_modbus_s where
  "measures_message = set_message_of SysI2C_ADDR_ALL Sys_RegMap_Offset_Int 13 52 (Reg_Vet 272)"

lemma own_reports [simp]: "own_message status_message" "own_message measures_message"
  by (simp_all add: own_message_def status_message_def measures_message_def set_message_of_def message_default_def
      regmap Modbus_Set_Mult_Num_Reg_def Modbus_Report_Slave_ID_def)

text \<open>Whether a value reported last has changed enough: any change of the timestamp counts.\<close>

definition varied :: "rec_create_messages_s \<Rightarrow> reg_state \<Rightarrow> bool" where
  "varied v r \<longleftrightarrow> rec_variation_test (ireg Sys_RegMap_S1_Temp r) (cm_S1 v) 20 \<or>
     rec_variation_test (ireg Sys_RegMap_S2_Temp r) (cm_S2 v) 20 \<or>
     rec_variation_test (ireg Sys_RegMap_Flux_Liters r) (cm_Flux v) 50 \<or>
     rec_variation_test (ireg Sys_RegMap_Current r) (cm_Current v) 100 \<or>
     ireg Sys_RegMap_Timestamp r \<noteq> cm_Timestamp v"

definition snapshot :: "reg_state \<Rightarrow> rec_create_messages_s \<Rightarrow> rec_create_messages_s" where
  "snapshot r v = v\<lparr>cm_S1 := ireg Sys_RegMap_S1_Temp r, cm_S2 := ireg Sys_RegMap_S2_Temp r,
     cm_Flux := ireg Sys_RegMap_Flux_Liters r, cm_Current := ireg Sys_RegMap_Current r,
     cm_Timestamp := ireg Sys_RegMap_Timestamp r\<rparr>"

lemma variation_test_iff:
  assumes "fits32 (sint a - sint b)" "0 < sint v"
  shows "rec_variation_test a b v \<longleftrightarrow> sint v \<le> \<bar>sint a - sint b\<bar>"
proof -
  have "fits32 (- sint v)" using assms(2) sint_less [of v] by (simp add: fits32_def)
  then have "sint (- v) = - sint v" using sint_word_of_int_32 [of "- sint v"] by simp
  then show ?thesis using sint_diff [OF assms(1)] by (auto simp: rec_variation_test_def Let_def)
qed

lemma int_at_ireg:
  "wf_regs (regs s) \<Longrightarrow> int_addr a \<Longrightarrow> int_at a s = Some (ireg a (regs s))"
  by (simp add: int_at_def ireg_def wf_regs_def GetIndex_int(1) int_ix)

lemma measured_addrs [simp]: "int_addr Sys_RegMap_Flux_Liters" "int_addr Sys_RegMap_Current"
  by (simp_all add: int_addr_def regmap)

lemma create_messages_code:
  fixes s :: "'a recirc_scheme"
  assumes "wf_regs (regs s)" "post status_message s = Some (s\<lparr>mq := q\<rparr>)"
  shows "rec_create_messages s =
    (if varied (rec_create_messages_var s) (regs s)
     then post measures_message (s\<lparr>mq := q, rec_create_messages_var := snapshot (regs s) (rec_create_messages_var s)\<rparr>)
     else Some (s\<lparr>mq := q\<rparr>))"
proof -
  have n: "Sys_RegMap_Errors - Sys_RegMap_Timestamp = 13" by (simp add: regmap)
  have st: "rec_get_status s = Some (s\<lparr>mq := q\<rparr>)"
    using assms(2) by (simp add: rec_get_status_def status_message_def message_default_def)
  have flag: "(((((if a then 1 else 0) OR (if b then 2 else 0)) OR (if c then 4 else 0)) OR (if d then 8 else 0)) OR
      (if e then 8 else 0) :: u8) = 0 \<longleftrightarrow> \<not> (a \<or> b \<or> c \<or> d \<or> e)" for a b c d e
    by simp
  show ?thesis
    unfolding rec_create_messages_def st Option.bind.simps Let_def n change_ptrs
    using assms(1) by (simp add: int_at_ireg flag varied_def snapshot_def measures_message_def)
qed



section \<open>The measurements\<close>

lemma average3:
  assumes "length xs = 3"
  shows "rec_average xs 3 = c_div (xs ! 0 + xs ! 1 + xs ! 2) 3"
  using assms by (simp add: rec_average_def numeral_3_eq_3 eval_nat_numeral)

definition set_ireg :: "u32 \<Rightarrow> i32 \<Rightarrow> reg_state \<Rightarrow> reg_state" where
  "set_ireg a v r = r\<lparr>int_reg_vet := (int_reg_vet r)[nat (uint a - 5000) := v]\<rparr>"

lemma put_int_ok:
  "wf_regs (regs s) \<Longrightarrow> int_addr a \<Longrightarrow> put_int a v s = Some (s\<lparr>regs := set_ireg a v (regs s)\<rparr>)"
  by (simp add: put_int_def set_ireg_def wf_regs_def GetIndex_int(1) int_ix)

lemma set_ireg [simp]:
  "wf_regs (set_ireg a v r) = wf_regs r" "change_flag (set_ireg a v r) = change_flag r"
  "bool_reg_vet (set_ireg a v r) = bool_reg_vet r" "short_reg_vet (set_ireg a v r) = short_reg_vet r"
  by (simp_all add: set_ireg_def wf_regs_def)

lemma ireg_set_ireg:
  "wf_regs r \<Longrightarrow> int_addr a \<Longrightarrow> int_addr b \<Longrightarrow> ireg b (set_ireg a v r) = (if b = a then v else ireg b r)"
  using ix_eq_iff [of 5000 b a] int_ix [of a]
  by (auto simp: ireg_def set_ireg_def wf_regs_def int_addr_def nth_list_update)

lemma measure_addrs [simp]:
  "int_addr Sys_RegMap_S1_Adc" "int_addr Sys_RegMap_S1_mV" "int_addr Sys_RegMap_S2_Adc" "int_addr Sys_RegMap_S2_mV"
  "int_addr Sys_RegMap_Flux_Counter" "int_addr Sys_RegMap_Flux_Calib" "int_addr Sys_RegMap_Flux_Total_Liters"
  by (simp_all add: int_addr_def regmap)

definition avg3 :: "i32 list \<Rightarrow> i32" where
  "avg3 xs = word_of_int (sint (xs ! 0 + xs ! 1 + xs ! 2) sdiv 3)"

lemma average_ok: "length xs = 3 \<Longrightarrow> rec_average xs 3 = Some (avg3 xs)"
  by (simp add: average3 avg3_def c_div_def)


lemma recirc_zero_rings [simp]:
  "measure_temp_vet (rec_get_temp1_var recirc_zero) = [0, 0, 0]" "measure_adc_vet (rec_get_temp1_var recirc_zero) = [0, 0, 0]"
  "measure_mv_vet (rec_get_temp1_var recirc_zero) = [0, 0, 0]" "measure_temp_vet (rec_get_temp2_var recirc_zero) = [0, 0, 0]"
  "measure_adc_vet (rec_get_temp2_var recirc_zero) = [0, 0, 0]" "measure_mv_vet (rec_get_temp2_var recirc_zero) = [0, 0, 0]"
  by (simp_all add: recirc_zero_def rtc.defs Let_def)


section \<open>The tasks and the loop share the ring\<close>

definition ring_ok :: "'a device_scheme \<Rightarrow> bool" where
  "ring_ok s \<longleftrightarrow> inv_queue (mq s) \<and> wf_regs (regs s) \<and> (\<forall>m\<in>set (queue_content (mq s)). own_message m)"

lemma post_ring:
  assumes "ring_ok s" "own_message m"
  shows "\<exists>q. post m s = Some (s\<lparr>mq := q\<rparr>) \<and> ring_ok (s\<lparr>mq := q\<rparr>) \<and> appended s (s\<lparr>mq := q\<rparr>)"
proof -
  obtain q where "post m s = Some (s\<lparr>mq := q\<rparr>)" "inv_queue q"
    "queue_content q = queue_content (mq s) \<or> queue_content q = queue_content (mq s) @ [m]"
    using post_any [of s m] assms(1) unfolding ring_ok_def by metis
  then show ?thesis using assms by (intro exI [of _ q]) (auto simp: ring_ok_def appended_def)
qed

lemma announced_own: "announced f = m # ms \<Longrightarrow> own_message m"
  by (auto simp: announced_def split: if_splits)

text \<open>The two tasks that queue messages keep the ring and what is in it, also when it is full.\<close>

lemma create_messages_ring:
  fixes s :: "'a recirc_scheme"
  assumes ok: "ring_ok s"
  shows "\<exists>s'. rec_create_messages s = Some s' \<and> ring_ok s' \<and> appended s s'"
proof -
  have wf: "wf_regs (regs s)" using ok by (simp add: ring_ok_def)
  obtain q where q: "post status_message s = Some (s\<lparr>mq := q\<rparr>)" "ring_ok (s\<lparr>mq := q\<rparr>)" "appended s (s\<lparr>mq := q\<rparr>)"
    using post_ring [OF ok own_reports(1)] by blast
  define t where "t = s\<lparr>mq := q, rec_create_messages_var := snapshot (regs s) (rec_create_messages_var s)\<rparr>"
  have t: "ring_ok t" "appended s t" using q(2,3) by (simp_all add: t_def ring_ok_def appended_def)
  from post_ring [OF t(1) own_reports(2)] show ?thesis
    using create_messages_code [OF wf q(1)] q(2,3) appended_trans [OF t(2)] by (auto simp: t_def)
qed

lemma change_verify_ring:
  fixes s :: "'a recirc_scheme"
  assumes ok: "ring_ok s"
  shows "\<exists>s'. rec_change_verify s = Some s' \<and> ring_ok s' \<and> appended s s'"
proof -
  have t: "ring_ok (rec_change s)" "appended s (rec_change s)" using ok by (simp_all add: ring_ok_def)
  show ?thesis
  proof (cases "announced (change_flag (regs (rec_change s)))")
    case Nil
    then show ?thesis using t by (simp add: change_verify_code Let_def)
  next
    case (Cons m ms)
    then show ?thesis
      using post_ring [OF t(1) announced_own [OF Cons]]
      by (auto simp: change_verify_code Let_def ring_ok_def reg_clear_change_flag_def wf_regs_def appended_def)
  qed
qed

text \<open>
  From set-up on the ring holds only messages the loop can handle: the default it starts with
  is one, and the report task and the change task always return and only add such messages, also
  when the ring is full. With the round of the loop this is an invariant of the whole program.
\<close>

theorem ring_invariant:
  fixes s :: "'a recirc_scheme"
  shows "(wf_regs (regs s) \<longrightarrow> ring_ok (s\<lparr>mq := message_Init queue_zero\<rparr>)) \<and>
    (ring_ok s \<longrightarrow> (\<exists>s'. rec_create_messages s = Some s' \<and> ring_ok s') \<and>
      (\<exists>s'. rec_change_verify s = Some s' \<and> ring_ok s'))"
  using create_messages_ring [of s] change_verify_ring [of s] by (auto simp: ring_ok_def)

theorem ring_invariant_witness:
  "(\<exists>s'. rec_create_messages (recirc_zero\<lparr>mq := message_Init queue_zero\<rparr>) = Some s' \<and> ring_ok s') \<and>
   (\<exists>s'. rec_change_verify (recirc_zero\<lparr>mq := message_Init queue_zero\<rparr>) = Some s' \<and> ring_ok s')"
proof -
  have "ring_ok (recirc_zero\<lparr>mq := message_Init queue_zero\<rparr>)"
    using ring_invariant [of recirc_zero] by (simp add: wf_reg_zero)
  then show ?thesis using ring_invariant by blast
qed

end
