(* ===== verification/Main_App.thy ===== *)
theory Main_App
  imports Recirculador System Log_Lpc804
begin

text \<open>
  \<open>app/main.c\<close>: the start of the firmware, its table of tasks and the loop that sends messages. The
  routine of the boot ROM that sets the oscillator, the IAP routine of the ROM and what interrupts do
  while a delay polls the clock are parameters.
\<close>

section \<open>The code\<close>

definition tickTimestamp :: "'a device_scheme \<Rightarrow> 'a device_scheme option" where
  "tickTimestamp s = do {
     ptrTimestamp \<leftarrow> reg_ptr_int Sys_RegMap_Timestamp;
     t \<leftarrow> load_int ptrTimestamp (regs s);
     on_regs (store_int ptrTimestamp (t + 1)) s }"

text \<open>A constant string of C.\<close>

definition c_str :: "string \<Rightarrow> u8 list" where
  "c_str str = map of_char str @ [0]"

text \<open>The functions behind the pointers. The scheduler itself is never a task.\<close>

definition task_body :: "c_func \<Rightarrow> u32 \<Rightarrow> 'a recirc_scheme \<Rightarrow> 'a recirc_scheme option" where
  "task_body f arg s =
     (case f of
        Rec_isr_Botoeira \<Rightarrow> rec_isr_Botoeira s | Rec_isr_Flow \<Rightarrow> rec_isr_Flow s | IsrScheduler \<Rightarrow> None
      | Rec_get_Temp \<Rightarrow> rec_get_Temp s | Rec_measure \<Rightarrow> rec_measure s
      | Rec_current_measure \<Rightarrow> rec_current_measure s | Rec_ref_measure \<Rightarrow> rec_ref_measure s
      | Rec_system \<Rightarrow> rec_system s | Rec_error_process \<Rightarrow> rec_error_process s
      | TickTimestamp \<Rightarrow> tickTimestamp s | Rec_change_verify \<Rightarrow> rec_change_verify s
      | Rec_create_messages \<Rightarrow> rec_create_messages s | RTC_Loop \<Rightarrow> RTC_loop s)"

definition setup_pins :: "'a device_scheme \<Rightarrow> 'a device_scheme option" where
  "setup_pins s = do {
     let s = gpio_ClearPin Syspin_nReload (gpio_ConfigPinOutput Syspin_nReload s);
     let s = gpio_ClearPin Syspin_RESET (gpio_ConfigPinOutput Syspin_RESET s);
     let s = gpio_ConfigPinInput Syspin_nReady s;
     let s = gpio_ConfigPinInput Syspin_nLink s;
     let s = gpio_ConfigPinOutput Syspin_Pump s;
     s \<leftarrow> on_regs (reg_write_bool False Sys_RegMap_Pump) s;
     let s = gpio_SetPin Syspin_Pump s;
     let s = gpio_ConfigPinInput Syspin_Botoeira s;
     Some (gpio_ConfigPinInput Syspin_SensorDeFluxo s) }"

definition setup_adc :: "'a recirc_scheme \<Rightarrow> 'a recirc_scheme" where
  "setup_adc s = (
     let (a, s) = adc_Config SysADC_TempS1 SysADCMeasureLenght s; s = s\<lparr>adc_S1 := a\<rparr>;
         (a, s) = adc_Config SysADC_TempS2 SysADCMeasureLenght s; s = s\<lparr>adc_S2 := a\<rparr>;
         (a, s) = adc_Config SysADC_VRef SysADCMeasureLenght s; s = s\<lparr>adc_Vref := a\<rparr>;
         (a, s) = adc_Config SysADC_Current SysADCMeasureLenght s
     in s\<lparr>adc_Current := a\<rparr>)"

definition setup_tasks :: "'a tasks_scheme \<Rightarrow> 'a tasks_scheme option" where
  "setup_tasks s = do {
     s \<leftarrow> task_new (Some Rec_get_Temp) (c_str ''Rec_Get_Temp'') 3 0 0 s;
     s \<leftarrow> task_new (Some Rec_measure) (c_str ''measure_Process'') 1 0 0 s;
     s \<leftarrow> task_new (Some Rec_current_measure) (c_str ''current_measure'') 5 0 0 s;
     s \<leftarrow> task_new (Some Rec_ref_measure) (c_str ''ref_measure'') 1 0 0 s;
     s \<leftarrow> task_new (Some Rec_system) (c_str ''System'') 20 0 0 s;
     s \<leftarrow> task_new (Some Rec_error_process) (c_str ''Error_Process'') 1 0 0 s;
     task_new (Some TickTimestamp) (c_str ''tickTimestamp'') 1 0 0 s }"

definition setup_late_tasks :: "'a tasks_scheme \<Rightarrow> 'a tasks_scheme option" where
  "setup_late_tasks s = do {
     s \<leftarrow> task_new (Some Rec_change_verify) (c_str ''reg_change'') 5 0 0 s;
     task_new (Some Rec_create_messages) (c_str ''create_messages'') 4 0 0 s }"

definition SysI2CBaudRate :: u32 where "SysI2CBaudRate = 400000"

text \<open>The start up to the last delay, then the clock chip, its task and the watchdog.\<close>

definition setup_equipment ::
  "(u32 \<Rightarrow> 'a recirc_scheme \<Rightarrow> 'a recirc_scheme) \<Rightarrow> iap_rom \<Rightarrow>
   ('a recirc_scheme \<Rightarrow> 'a recirc_scheme option) \<Rightarrow> 'a recirc_scheme \<Rightarrow> 'a recirc_scheme option" where
  "setup_equipment rom_set_fro_frequency rom idle s = do {
     let s = SysConfigClock30M rom_set_fro_frequency s;
     s \<leftarrow> setup_pins s;
     let s = setup_adc s;
     s \<leftarrow> reg_Begin rom s;
     let s = s\<lparr>temp_S1 := thermistor_new 10000 3300 2500 (- 55) 125 NTC_10K_3380_VET,
               temp_S2 := thermistor_new 10000 3300 2500 (- 55) 125 NTC_10K_3380_VET\<rparr>;
     s \<leftarrow> newExternInterrupt Syspin_Botoeira (Some Rec_isr_Botoeira) FALLING s;
     s \<leftarrow> newExternInterrupt Syspin_SensorDeFluxo (Some Rec_isr_Flow) FALLING s;
     let s = s\<lparr>mq := message_Init (mq s)\<rparr>;
     s \<leftarrow> i2cBegin SysI2C_ADDR_Recirculador Syspin_SDA Syspin_SCL SysI2CBaudRate i2cModeMaster s;
     s \<leftarrow> setup_tasks s;
     s \<leftarrow> task_delay_ms idle 4000 s;
     s \<leftarrow> setup_late_tasks s;
     task_delay_ms idle 1000 s }"

definition setup_board ::
  "(u32 \<Rightarrow> 'a recirc_scheme \<Rightarrow> 'a recirc_scheme) \<Rightarrow> iap_rom \<Rightarrow>
   ('a recirc_scheme \<Rightarrow> 'a recirc_scheme option) \<Rightarrow> 'a recirc_scheme \<Rightarrow> 'a recirc_scheme option" where
  "setup_board rom_set_fro_frequency rom idle s = do {
     s \<leftarrow> setup_equipment rom_set_fro_frequency rom idle s;
     p \<leftarrow> reg_ptr_int Sys_RegMap_Timestamp;
     s \<leftarrow> RTC_begin (Ts_Reg p) s;
     s \<leftarrow> task_new (Some RTC_Loop) (c_str ''RTC_loops'') 1 0 0 s;
     Some (watchdog_init 5000 s) }"

text \<open>One pass of the endless loop of \<open>main\<close>, and a number of them.\<close>

definition main_round :: "('a rtc_scheme \<Rightarrow> 'a rtc_scheme option) \<Rightarrow> 'a rtc_scheme \<Rightarrow> 'a rtc_scheme option" where
  "main_round idle s = message_loop idle (watchdog_feed s)"

primrec main_rounds ::
  "('a rtc_scheme \<Rightarrow> 'a rtc_scheme option) \<Rightarrow> nat \<Rightarrow> 'a rtc_scheme \<Rightarrow> 'a rtc_scheme option" where
  "main_rounds idle 0 s = Some s"
| "main_rounds idle (Suc n) s = do { s \<leftarrow> main_round idle s; main_rounds idle n s }"

end
