(* ===== verification/Task_Runs.thy ===== *)
theory Task_Runs
  imports Main_App
begin

text \<open>
  The firmware's tasks under the scheduler: every function a task can have leaves the scheduler's
  table, its clock and its pause flag alone, so the scheduler's contract holds for the program, and
  each due task gets its turn.
\<close>

section \<open>What the tasks leave to the scheduler\<close>

lemma sched_view_device [simp]:
  fixes s :: "'a device_scheme"
  shows "sched_view (s\<lparr>regs := r\<rparr>) = sched_view s" "sched_view (s\<lparr>mq := q\<rparr>) = sched_view s"
  by (simp_all add: sched_view_def)

lemma sched_view_rtc [simp]:
  fixes s :: "'a rtc_scheme"
  shows "sched_view (s\<lparr>timestamp_own := t\<rparr>) = sched_view s"
    "sched_view (s\<lparr>last_time_resynchronization := l\<rparr>) = sched_view s"
  by (simp_all add: sched_view_def)

lemma sched_view_recirc [simp]:
  fixes s :: "'a recirc_scheme"
  shows "sched_view (s\<lparr>adc_S1 := a\<rparr>) = sched_view s" "sched_view (s\<lparr>adc_S2 := a\<rparr>) = sched_view s"
    "sched_view (s\<lparr>adc_Current := a\<rparr>) = sched_view s"
    "sched_view (s\<lparr>rec_get_temp1_var := g\<rparr>) = sched_view s" "sched_view (s\<lparr>rec_get_temp2_var := g\<rparr>) = sched_view s"
    "sched_view (s\<lparr>isr_botoeira_var := b\<rparr>) = sched_view s" "sched_view (s\<lparr>isr_flow_var := f\<rparr>) = sched_view s"
    "sched_view (s\<lparr>rec_current_var := f\<rparr>) = sched_view s"
    "sched_view (s\<lparr>rec_create_messages_var := cm\<rparr>) = sched_view s" "sched_view (s\<lparr>rec_change_var := ch\<rparr>) = sched_view s"
  by (simp_all add: sched_view_def)

lemma bus_only_sched:
  fixes s s' :: "'a tasks_scheme"
  assumes "bus_only s s'"
  shows "sched_view s' = sched_view s"
proof -
  have "hw.more s' = hw.more s" using assms by (simp add: bus_only_def)
  then show ?thesis by (cases s; cases s') (simp add: sched_view_def)
qed

lemma gpio_sched [simp]:
  fixes s :: "'a tasks_scheme"
  shows "sched_view (gpio_SetPin p s) = sched_view s" "sched_view (gpio_ClearPin p s) = sched_view s"
    "sched_view (snd (gpio_ReadPin p s)) = sched_view s"
  by (simp_all add: gpio_SetPin_def gpio_ClearPin_def gpio_ReadPin_def hw_write_def hw_read_def Let_def sched_view_def)

lemma ReadPin_sched:
  fixes s s' :: "'a tasks_scheme"
  assumes "gpio_ReadPin p s = (b, s')"
  shows "sched_view s' = sched_view s"
  using assms gpio_sched(3) [of p s] by simp

lemma adc_samples_sched:
  fixes s s' :: "'a tasks_scheme"
  assumes "adc_samples n a v s = (w, s')"
  shows "sched_view s' = sched_view s"
  using assms
proof (induction n arbitrary: v s)
  case (Suc n)
  obtain x s1 where x: "adc_sample a s = (x, s1)" by (cases "adc_sample a s")
  then have "sched_view s1 = sched_view s"
    by (auto simp: adc_sample_def hw_and_def hw_or_def hw_read_def hw_write_def Let_def sched_view_def)
  moreover have "adc_samples n a (v + x) s1 = (w, s')" using Suc.prems x by simp
  ultimately show ?case using Suc.IH by metis
qed simp

lemma adc_Read_sched:
  fixes s s' :: "'a tasks_scheme"
  assumes "adc_Read p s = Some (v, s')"
  shows "sched_view s' = sched_view s"
  using assms by (auto simp: adc_Read_def split: if_splits option.splits prod.splits dest: adc_samples_sched)

lemma get_temp_sched:
  fixes s s' :: "'a tasks_scheme"
  assumes "get_temp a th g s = Some (g', s')"
  shows "sched_view s' = sched_view s"
  using assms by (auto simp: get_temp_def Let_def Option.bind_eq_Some_conv dest: adc_Read_sched)

lemma on_regs_sched:
  fixes s s' :: "'a device_scheme"
  shows "on_regs f s = Some s' \<Longrightarrow> sched_view s' = sched_view s"
  by (auto simp: on_regs_eq_Some)

lemma pump_sched:
  fixes s s' :: "'a device_scheme"
  shows "PUMP_ON s = Some s' \<Longrightarrow> sched_view s' = sched_view s"
    and "PUMP_OFF s = Some s' \<Longrightarrow> sched_view s' = sched_view s"
  by (auto simp: PUMP_ON_def PUMP_OFF_def Option.bind_eq_Some_conv dest: on_regs_sched)

lemma put_int_sched:
  fixes s s' :: "'a device_scheme"
  shows "put_int a v s = Some s' \<Longrightarrow> sched_view s' = sched_view s"
  by (auto simp: put_int_def Option.bind_eq_Some_conv)

lemma post_sched:
  fixes s s' :: "'a device_scheme"
  shows "post m s = Some s' \<Longrightarrow> sched_view s' = sched_view s"
  by (auto simp: post_def new_message_def Option.bind_eq_Some_conv)

lemma store_ts_sched:
  fixes s s' :: "'a rtc_scheme"
  shows "store_ts v s = Some s' \<Longrightarrow> sched_view s' = sched_view s"
  by (auto simp: store_ts_def split: ts_pointer.splits dest: on_regs_sched)

lemma resynchronization_sched:
  fixes s s' :: "'a rtc_scheme"
  assumes "RTC_resynchronization s = Some s'"
  shows "sched_view s' = sched_view s"
proof -
  obtain t s1 where chip: "RTC_read_chip s = Some (t, s1)"
    using assms by (auto simp: RTC_resynchronization_def Option.bind_eq_Some_conv)
  then obtain ts where "load_ts s = Some ts"
    by (auto simp: RTC_read_chip_def Option.bind_eq_Some_conv)
  then have "sched_view s1 = sched_view s"
    using read_chip_total [of s ts] chip by (auto dest: bus_only_sched)
  moreover have "sched_view s' = sched_view s1"
  proof -
    have "RTC_setValue v a = Some b \<Longrightarrow> sched_view b = sched_view a" for v and a b :: "'a rtc_scheme"
      using setValue_total [of v a] by (auto dest: bus_only_sched)
    then show ?thesis
      using assms chip
      by (auto simp: RTC_resynchronization_def Option.bind_eq_Some_conv split: if_splits dest!: store_ts_sched)
  qed
  ultimately show ?thesis by simp
qed

lemmas sched_steps = on_regs_sched pump_sched put_int_sched post_sched ReadPin_sched adc_Read_sched get_temp_sched
  resynchronization_sched

text \<open>
  A step that returns leaves the scheduler's view as it was. The rules follow the shape of a task: a
  read of a value, a step, a branch.
\<close>

definition keeps :: "sched_view \<Rightarrow> 'a tasks_scheme option \<Rightarrow> bool" where
  "keeps v r \<longleftrightarrow> (\<forall>s. r = Some s \<longrightarrow> sched_view s = v)"

lemma keeps_values:
  fixes f :: "i32 \<Rightarrow> 'a tasks_scheme option" and g :: "bool \<Rightarrow> 'a tasks_scheme option"
    and h :: "reg_pointer \<Rightarrow> 'a tasks_scheme option"
  shows "(\<And>a. keeps v (f a)) \<Longrightarrow> keeps v (x \<bind> f)" "(\<And>a. keeps v (g a)) \<Longrightarrow> keeps v (y \<bind> g)"
    "(\<And>a. keeps v (h a)) \<Longrightarrow> keeps v (z \<bind> h)"
  by (auto simp: keeps_def Option.bind_eq_Some_conv)

lemma keeps_step:
  fixes x :: "'a recirc_scheme option" and f :: "'a recirc_scheme \<Rightarrow> 'a recirc_scheme option"
  shows "keeps v x \<Longrightarrow> (\<And>a. sched_view a = v \<Longrightarrow> keeps v (f a)) \<Longrightarrow> keeps v (x \<bind> f)"
  by (auto simp: keeps_def Option.bind_eq_Some_conv)

lemma keeps_Some: "sched_view s = v \<Longrightarrow> keeps v (Some s)"
  by (simp add: keeps_def)

lemma keeps_ops:
  fixes s :: "'a device_scheme" 
  assumes "sched_view s = v"
  shows "keeps v (on_regs f s)" "keeps v (PUMP_ON s)" "keeps v (PUMP_OFF s)" "keeps v (put_int a i s)"
    "keeps v (post m s)"
  using assms by (auto simp: keeps_def dest: sched_steps)

lemma keeps_pin:
  fixes s :: "'a recirc_scheme" 
  assumes "sched_view s = v" "\<And>b s. sched_view s = v \<Longrightarrow> keeps v (f b s)"
  shows "keeps v (case gpio_ReadPin p s of (b, s) \<Rightarrow> f b s)"
  using assms by (auto split: prod.splits dest: ReadPin_sched)

lemma keeps_adc:
  fixes s :: "'a recirc_scheme" 
  assumes "sched_view s = v" "\<And>b s. sched_view s = v \<Longrightarrow> keeps v (f b s)"
  shows "keeps v (adc_Read p s \<bind> (\<lambda>(b, s). f b s))"
  using assms by (auto simp: keeps_def Option.bind_eq_Some_conv dest!: adc_Read_sched)

lemma keeps_temp:
  fixes s :: "'a recirc_scheme" 
  assumes "sched_view s = v" "\<And>b s. sched_view s = v \<Longrightarrow> keeps v (f b s)"
  shows "keeps v (get_temp a th g s \<bind> (\<lambda>(b, s). f b s))"
  using assms by (auto simp: keeps_def Option.bind_eq_Some_conv dest!: get_temp_sched)

lemma keeps_if: "(c \<Longrightarrow> keeps v x) \<Longrightarrow> (\<not> c \<Longrightarrow> keeps v y) \<Longrightarrow> keeps v (if c then x else y)"
  by simp

lemmas keeps_rules = keeps_step keeps_values keeps_Some keeps_ops keeps_pin keeps_adc keeps_temp keeps_if

lemma pump_control_keeps: "sched_view s = v \<Longrightarrow> keeps v (rec_pump_control (s :: 'a recirc_scheme))"
  unfolding rec_pump_control_def Let_def
  by (intro keeps_rules | simp)+

lemma measure_keeps: "sched_view s = v \<Longrightarrow> keeps v (rec_measure (s :: 'a recirc_scheme))"
  unfolding rec_measure_def Let_def
  by (intro keeps_rules | simp)+

lemma current_measure_keeps: "sched_view s = v \<Longrightarrow> keeps v (rec_current_measure (s :: 'a recirc_scheme))"
  unfolding rec_current_measure_def Let_def
  by (intro keeps_rules | simp)+

lemma ref_measure_keeps: "sched_view s = v \<Longrightarrow> keeps v (rec_ref_measure (s :: 'a recirc_scheme))"
  unfolding rec_ref_measure_def Let_def
  by (intro keeps_rules | simp)+

lemma get_Temp_keeps: "sched_view s = v \<Longrightarrow> keeps v (rec_get_Temp (s :: 'a recirc_scheme))"
  unfolding rec_get_Temp_def Let_def
  by (intro keeps_rules | simp)+

lemma change_verify_keeps: "sched_view s = v \<Longrightarrow> keeps v (rec_change_verify (s :: 'a recirc_scheme))"
  unfolding rec_change_verify_def rec_change_def Let_def
  by (intro keeps_rules | simp)+

lemma create_messages_keeps: "sched_view s = v \<Longrightarrow> keeps v (rec_create_messages (s :: 'a recirc_scheme))"
  unfolding rec_create_messages_def rec_get_status_def Let_def
  by (intro keeps_rules | simp)+

lemma button_keeps: "sched_view s = v \<Longrightarrow> keeps v (rec_isr_Botoeira (s :: 'a recirc_scheme))"
  unfolding rec_isr_Botoeira_def Let_def
  by (intro keeps_rules | simp)+


lemma task_body_keeps: "keeps (sched_view s) (task_body f arg (s :: 'a recirc_scheme))"
proof -
  have "keeps (sched_view s) (RTC_loop s)" "keeps (sched_view s) (rec_error_process s)"
    "keeps (sched_view s) (tickTimestamp s)" "keeps (sched_view s) (rec_isr_Flow s)"
    by (auto simp: keeps_def RTC_loop_def rec_error_process_def tickTimestamp_def rec_isr_Flow_def
        Let_def Option.bind_eq_Some_conv split: if_splits dest!: on_regs_sched resynchronization_sched)
  moreover have "keeps (sched_view s) (rec_system s)"
    unfolding rec_system_def by (intro keeps_rules pump_control_keeps | simp)+
  ultimately show ?thesis
    by (cases f) (simp_all add: task_body_def pump_control_keeps measure_keeps current_measure_keeps
        ref_measure_keeps get_Temp_keeps change_verify_keeps create_messages_keeps button_keeps,
        simp add: keeps_def)
qed

section \<open>Every due task gets its turn\<close>

lemma chosen_lower:
  assumes "due s i" "i < Sys_task_max"
  shows "\<exists>j\<le>i. chosen s = Some j"
proof -
  obtain j where j: "chosen s = Some j"
    using assms by (cases "chosen s") (auto simp: chosen_def find_None_iff)
  moreover have "j \<le> i"
    using j assms unfolding chosen_def find_Some_iff by (metis diff_zero length_upt nth_upt add_0 not_less)
  ultimately show ?thesis by blast
qed

lemma distinct_lower:
  assumes "set log \<subseteq> Some ` {..<i}" "distinct (filter (\<lambda>c. c \<noteq> None) log)"
  shows "length log \<le> i"
proof -
  have "filter (\<lambda>c. c \<noteq> None) log = log"
    using assms(1) by (intro filter_True) auto
  then have "length log = card (set log)" using assms(2) by (simp add: distinct_card)
  also have "\<dots> \<le> card (Some ` {..<i})" using assms(1) by (intro card_mono) simp_all
  finally show ?thesis by (simp add: card_image)
qed

text \<open>What a run of any length leaves: the table but for the starts, and a later clock.\<close>

definition later :: "nat \<Rightarrow> 'a tasks_scheme \<Rightarrow> 'a tasks_scheme \<Rightarrow> bool" where
  "later n s t \<longleftrightarrow> dT_us t = dT_us s \<and> unat (SysTickCount t) = unat (SysTickCount s) + n \<and>
     (\<forall>j<Sys_task_max. ptrFunc (task_vet t ! j) = ptrFunc (task_vet s ! j) \<and>
        dt_us (task_vet t ! j) = dt_us (task_vet s ! j))"

context task_bodies begin

lemma waiting_run:
  assumes "tick_run call s log t" "sched_ready n s" "long_periods n s" "length log \<le> n"
    and "i < Sys_task_max" "due (tick s) i" "Some i \<notin> set log"
  shows "set log \<subseteq> Some ` {..<i}"
  using assms
proof (induction rule: tick_run.induct)
  case tick_run_start
  then show ?case by simp
next
  case (tick_run_tick log t u)
  have inv: "run_inv s log t"
    using run_inv_reachable [OF tick_run_tick.hyps(1)] tick_run_tick.prems by simp
  have first: "run_inv s [] s" using run_inv_reachable [OF tick_run_start] tick_run_tick.prems by simp
  have len: "length log < n" using tick_run_tick.prems by simp
  have "ptrFunc (task_vet s ! i) \<noteq> None"
    "unat (dt_us (task_vet s ! i)) + unat (lastExecution (task_vet s ! i)) \<le>
       unat (dT_us s) * (unat (SysTickCount s) + 1)"
    using run_inv_due [OF tick_run_tick.prems(1) first _ tick_run_tick.prems(2,4)] tick_run_tick.prems(5) len
    by auto
  moreover have "unat (dT_us s) * (unat (SysTickCount s) + 1) \<le>
      unat (dT_us s) * (unat (SysTickCount s) + length log + 1)"
    by (intro mult_le_mono2) simp
  moreover have "Some i \<notin> set log" using tick_run_tick.prems(6) by simp
  ultimately have "due (tick t) i"
    unfolding run_inv_due [OF tick_run_tick.prems(1) inv len tick_run_tick.prems(2,4)]
    by (intro conjI) (assumption, assumption, rule order_trans)
  then obtain j where "j \<le> i" "chosen (tick t) = Some j"
    using chosen_lower tick_run_tick.prems(4) by blast
  then show ?case using tick_run_tick by auto
qed

text \<open>A slot that is due is started within as many ticks as there are slots up to it.\<close>

lemma due_gets_turn:
  assumes "tick_run call s log t" "sched_ready n s" "long_periods n s" "length log \<le> n"
    and "i < Sys_task_max" "due (tick s) i" "i < length log"
  shows "Some i \<in> set log"
proof (rule ccontr)
  assume "Some i \<notin> set log"
  then have "length log \<le> i"
    using waiting_run [OF assms(1-6)] started_once [OF assms(1-4)] by (intro distinct_lower)
  then show False using assms(7) by simp
qed

lemma run_later:
  assumes "tick_run call s log u" "sched_ready (length log + m) s"
  shows "later (length log) s u \<and> sched_ready m u"
  using assms
proof (induction arbitrary: m rule: tick_run.induct)
  case tick_run_start
  then show ?case by (simp add: later_def)
next
  case (tick_run_tick log t u)
  have t: "later (length log) s t" "sched_ready (Suc m) t"
    using tick_run_tick.IH [of "Suc m"] tick_run_tick.prems by simp_all
  have inv: "run_inv t [] t" using run_inv_reachable [OF tick_run_start t(2)] t(2)
    by (simp add: run_inv_def sched_ready_def)
  note T = run_inv_time [OF t(2) inv, simplified]
  have tab: "length (task_vet t) = Sys_task_max" "pause t = 0" "ptrSysTickISR t = Some IsrScheduler"
    using t(2) by (simp_all add: sched_ready_def)
  have u: "sched_view u = (case chosen (tick t) of
      None \<Rightarrow> sched_view (tick t) | Some j \<Rightarrow> sched_view (start_slot (tick t) j))"
    using tick_step [OF tick_run_tick.hyps(2) tab] .
  have D: "dT_us (tick t) = dT_us t" "task_vet (tick t) = task_vet t" by (simp_all add: tick_def)
  have le: "unat (dT_us t) * unat (SysTickCount t) \<le> unat (dT_us t) * Suc (unat (SysTickCount t))"
    by (intro mult_le_mono2) simp
  have old: "unat (lastExecution (task_vet t ! j)) \<le> unat (dT_us t) * Suc (unat (SysTickCount t))"
    if "j < Sys_task_max" for j
    using t(2) that le unfolding sched_ready_def by (meson order_trans)
  have cnt: "unat (SysTickCount u) = Suc (unat (SysTickCount t))"
    using u T(1) by (cases "chosen (tick t)") (auto simp: sched_view_def start_slot_def)
  have vet: "dT_us u = dT_us t" "pause u = 0" "ptrSysTickISR u = Some IsrScheduler"
    "length (task_vet u) = Sys_task_max"
    using u tab by (cases "chosen (tick t)"; auto simp: sched_view_def start_slot_def tick_def)+
  have slot: "ptrFunc (task_vet u ! j) = ptrFunc (task_vet t ! j) \<and> dt_us (task_vet u ! j) = dt_us (task_vet t ! j) \<and>
      unat (lastExecution (task_vet u ! j)) \<le> unat (dT_us t) * Suc (unat (SysTickCount t))"
    if "j < Sys_task_max" for j
  proof (cases "chosen (tick t)")
    case None
    then show ?thesis using u D old [OF that] by (simp add: sched_view_def)
  next
    case (Some a)
    then have "task_vet u = (task_vet t)[a := (task_vet t ! a)\<lparr>lastExecution := SysTickGetTime_us (tick t)\<rparr>]"
      using u D by (simp add: sched_view_def start_slot_def)
    then show ?thesis using tab(1) that old [OF that] T(3) by (cases "a = j") simp_all
  qed
  show ?case
    using t(1) t(2) cnt vet slot by (simp add: later_def sched_ready_def add.commute)
qed

end

interpretation firmware: task_bodies task_body
  by unfold_locales (use task_body_keeps in \<open>auto simp: keeps_def\<close>)

definition two_tasks :: recirc where
  "two_tasks = recirc_zero\<lparr>ptrSysTickISR := Some IsrScheduler, dT_us := 500, SysTickCount := 2000,
     task_vet := [task_s_default\<lparr>ptrFunc := Some RTC_Loop, dt_us := 1000000\<rparr>,
       task_s_default\<lparr>ptrFunc := Some TickTimestamp, dt_us := 1000000\<rparr>] @ replicate 10 task_s_default\<rparr>"

lemma two_tasks_ready: "sched_ready 2 two_tasks" "long_periods 2 two_tasks"
  by (simp_all add: two_tasks_def sched_ready_def long_periods_def Sys_task_max_def task_s_default_def
      nth_append nth_Cons split: nat.splits)

lemma two_tasks_due: "due (tick two_tasks) 0" "due (tick two_tasks) 1"
  by (simp_all add: due_def tick_def two_tasks_def task_s_default_def SysTickGetTime_us_def word_le_nat_alt)

lemma handler_runs_slot:
  assumes "length (task_vet t) = Sys_task_max" "pause t = 0" "ptrSysTickISR t = Some IsrScheduler"
  shows "SysTick_Handler (only_scheduler call) t =
    (case chosen (tick t) of None \<Rightarrow> Some (tick t) | Some j \<Rightarrow> run_slot call (tick t) j)"
  using scheduler_loop_find [of 0 Sys_task_max "tick t" call] assms
  by (simp add: SysTick_Handler_def only_scheduler_def isrScheduler_def chosen_def tick_def Let_def)

lemma tickTimestamp_total:
  assumes "wf_regs (regs s)"
  shows "\<exists>s'. tickTimestamp s = Some s'"
proof -
  have "int_slot (Reg_Vet 272) = Some 0" by (simp add: int_slot_def regmap)
  then show ?thesis
    using assms by (simp add: tickTimestamp_def on_regs_def store_int_def wf_regs_def)
qed

lemma two_tasks_run: "\<exists>v log. tick_run task_body two_tasks log v \<and> length log = 2"
proof -
  define u where "u = start_slot (tick two_tasks) 0"
  have off: "\<not> flagBegin u"
    by (simp add: u_def two_tasks_def start_slot_def tick_def recirc_zero_def rtc.defs rtc_zero_def flash.defs flash_zero_def iap.defs device.defs
        device_zero_def tasks.defs task_zero_def i2c.defs i2c_zero_def interrupt.defs int_zero_def adc.defs
        adc_zero_def gpio.defs gpio_zero_def)
  have "chosen (tick two_tasks) = Some 0"
    using chosen_lower [OF two_tasks_due(1)] by (simp add: Sys_task_max_def)
  then have first: "SysTick_Handler (only_scheduler task_body) two_tasks = Some u"
    using off by (subst handler_runs_slot) (simp_all add: two_tasks_def Sys_task_max_def run_slot_def
        task_body_def RTC_loop_def u_def tick_def)
  have vet: "length (task_vet u) = Sys_task_max" "pause u = 0" "ptrSysTickISR u = Some IsrScheduler"
    "regs u = reg_zero"
    by (simp_all add: u_def start_slot_def tick_def two_tasks_def Sys_task_max_def)
  have "due (tick u) 1" "\<not> due (tick u) 0"
    by (simp_all add: due_def u_def start_slot_def tick_def two_tasks_def task_s_default_def
        SysTickGetTime_us_def word_le_nat_alt)
  then have c: "chosen (tick u) = Some 1"
    using chosen_lower [of "tick u" 1] by (auto simp: chosen_def find_Some_iff Sys_task_max_def le_Suc_eq)
  have "ptrFunc (task_vet (tick u) ! 1) = Some TickTimestamp"
    by (simp add: u_def start_slot_def tick_def two_tasks_def)
  then have "SysTick_Handler (only_scheduler task_body) u = tickTimestamp (start_slot (tick u) 1)"
    using c by (simp add: handler_runs_slot [OF vet(1-3)] run_slot_def task_body_def)
  moreover have "wf_regs (regs (start_slot (tick u) 1))" using vet(4) wf_reg_zero by (simp add: start_slot_def tick_def)
  ultimately obtain v where "SysTick_Handler (only_scheduler task_body) u = Some v"
    using tickTimestamp_total by metis
  then show ?thesis
    using tick_run_tick [OF tick_run_tick [OF tick_run_start first]] by fastforce
qed

text \<open>
  C8: in every run of ticks of the firmware's tasks, and from every point of it: over a stretch not
  longer than the shortest period no task is started twice, and a task that is due at the first tick
  is started within as many ticks as there are slots up to its own. So no task starves, although the
  lowest due slot always wins. A run of that length from that point is the only one.
\<close>

theorem tasks_get_their_turn:
  assumes "tick_run task_body s log1 u" "tick_run task_body u log2 t"
    and "sched_ready (length log1 + length log2) s" "long_periods (length log2) s"
  shows "distinct (filter (\<lambda>c. c \<noteq> None) log2) \<and>
    (\<forall>i<Sys_task_max. due (tick u) i \<and> i < length log2 \<longrightarrow> Some i \<in> set log2) \<and>
    (\<forall>log v. tick_run task_body u log v \<and> length log = length log2 \<longrightarrow> log = log2 \<and> v = t)"
proof -
  have u: "later (length log1) s u" "sched_ready (length log2) u"
    using firmware.run_later [OF assms(1,3)] by simp_all
  then have u: "sched_ready (length log2) u" "long_periods (length log2) u"
    using assms(4) by (simp_all add: long_periods_def later_def)
  have "distinct (filter (\<lambda>c. c \<noteq> None) log2)"
    using firmware.started_once [OF assms(2) u] by simp
  moreover have "\<forall>i<Sys_task_max. due (tick u) i \<and> i < length log2 \<longrightarrow> Some i \<in> set log2"
    using firmware.due_gets_turn [OF assms(2) u] by simp
  moreover have "\<forall>log v. tick_run task_body u log v \<and> length log = length log2 \<longrightarrow> log = log2 \<and> v = t"
    using tick_run_det [OF assms(2)] by blast
  ultimately show ?thesis by blast
qed

theorem tasks_get_their_turn_witness:
  "\<exists>v log. tick_run task_body two_tasks log v \<and> length log = 2 \<and>
     due (tick two_tasks) 1 \<and> Some 1 \<in> set log \<and> distinct (filter (\<lambda>c. c \<noteq> None) log)"
proof -
  obtain v log where run: "tick_run task_body two_tasks log v" and len: "length log = 2"
    using two_tasks_run by blast
  have "distinct (filter (\<lambda>c. c \<noteq> None) log) \<and>
      (\<forall>i<Sys_task_max. due (tick two_tasks) i \<and> i < length log \<longrightarrow> Some i \<in> set log) \<and>
      (\<forall>l w. tick_run task_body two_tasks l w \<and> length l = length log \<longrightarrow> l = log \<and> w = v)"
    using len two_tasks_ready by (intro tasks_get_their_turn [OF tick_run_start run]) (simp_all add: numeral_2_eq_2)
  then have "distinct (filter (\<lambda>c. c \<noteq> None) log)" "Some 1 \<in> set log"
    using len two_tasks_due(2) by (simp_all add: Sys_task_max_def)
  then show ?thesis using run len two_tasks_due(2) by blast
qed

end
