(* ===== verification/Quiet_Tasks.thy ===== *)
theory Quiet_Tasks
  imports Task_Runs
begin

text \<open>
  What the functions behind the pointers do to the register banks and to the ring of messages. Seven
  of them always return; the measurements divide by a reading or by a register and the clock's
  task indexes a table with a number of the chip, so those are followed where they return. None does
  anything to the ring but append to it.
\<close>

section \<open>Functions that always return and leave the ring alone\<close>

text \<open>A step that returns, keeps the register banks well formed and does not touch the ring.\<close>

definition quiet_step :: "msg_queue \<Rightarrow> 'a device_scheme option \<Rightarrow> bool" where
  "quiet_step q r \<longleftrightarrow> (\<exists>s. r = Some s \<and> wf_regs (regs s) \<and> mq s = q)"

lemma quiet_Some: "wf_regs (regs s) \<Longrightarrow> mq s = q \<Longrightarrow> quiet_step q (Some s)"
  by (simp add: quiet_step_def)

lemma quiet_bind:
  fixes x :: "'a recirc_scheme option" and f :: "'a recirc_scheme \<Rightarrow> 'a recirc_scheme option"
  shows "quiet_step q x \<Longrightarrow> (\<And>s. wf_regs (regs s) \<Longrightarrow> mq s = q \<Longrightarrow> quiet_step q (f s)) \<Longrightarrow> quiet_step q (x \<bind> f)"
  by (auto simp: quiet_step_def)

lemma quiet_write:
  assumes "wf_regs (regs s)" "mq s = q" "bool_addr a"
  shows "quiet_step q (on_regs (reg_write_bool b a) s)"
proof -
  obtain r where "reg_write_bool b a (regs s) = Some r" using bools.wr_total [OF assms(1,3)] by blast
  then show ?thesis using assms(2) bools.wr_wf [OF assms(1,3)] by (simp add: quiet_step_def on_regs_def)
qed

lemma quiet_pump:
  fixes s :: "'a recirc_scheme"
  assumes "wf_regs (regs s)" "mq s = q"
  shows "quiet_step q (PUMP_ON s)" "quiet_step q (PUMP_OFF s)"
proof -
  obtain t u where "on_regs (reg_write_bool True Sys_RegMap_Pump) s = Some t" "wf_regs (regs t)" "mq t = q"
    "on_regs (reg_write_bool False Sys_RegMap_Pump) s = Some u" "wf_regs (regs u)" "mq u = q"
    using quiet_write [OF assms pump_addr(1)] unfolding quiet_step_def by metis
  then show "quiet_step q (PUMP_ON s)" "quiet_step q (PUMP_OFF s)"
    by (simp_all add: PUMP_ON_def PUMP_OFF_def quiet_step_def gpio_SetPin_def gpio_ClearPin_def hw_write_def)
qed

lemma quiet_pin:
  fixes s :: "'a recirc_scheme"
  assumes "wf_regs (regs s)" "mq s = q"
    and "\<And>b s. wf_regs (regs s) \<Longrightarrow> mq s = q \<Longrightarrow> quiet_step q (f b s)"
  shows "quiet_step q (case gpio_ReadPin p s of (b, s) \<Rightarrow> f b s)"
  using assms by (auto simp: gpio_ReadPin_def hw_read_def Let_def)

lemma quiet_reads:
  assumes "wf_regs (regs s)"
  shows "int_addr a \<Longrightarrow> (\<And>v. quiet_step q (f v)) \<Longrightarrow> quiet_step q (reg_read_int a (regs s) \<bind> f)"
    and "bool_addr a \<Longrightarrow> (\<And>v. quiet_step q (g v)) \<Longrightarrow> quiet_step q (reg_read_bool a (regs s) \<bind> g)"
    and "(\<And>v. quiet_step q (f v)) \<Longrightarrow> quiet_step q (load_int (Reg_Vet 272) (regs s) \<bind> f)"
  using assms bools.rd_total [of "regs s" a] by auto

lemma schedulingTest_total:
  assumes "wf_regs r"
  shows "\<exists>b. schedulingTest t r = Some b"
proof -
  have "i + n \<le> 10 \<Longrightarrow> \<exists>b. schedulingTest_loop t r i n = Some b" for i n
    using assms by (induction n arbitrary: i) (auto simp: Schedules_0_index wf_regs_def)
  then show ?thesis by (simp add: schedulingTest_def Sys_schedulers_total_def)
qed

lemma quiet_schedule:
  assumes "wf_regs (regs s)" "\<And>b. quiet_step q (f b)"
  shows "quiet_step q (schedulingTest t (regs s) \<bind> f)"
  using schedulingTest_total [OF assms(1), of t] assms(2) by auto

lemma quiet_if: "(c \<Longrightarrow> quiet_step q x) \<Longrightarrow> (\<not> c \<Longrightarrow> quiet_step q y) \<Longrightarrow> quiet_step q (if c then x else y)"
  by simp

lemmas quiet_rules = quiet_Some quiet_bind quiet_write quiet_pump quiet_pin quiet_reads quiet_schedule quiet_if

lemma quiet_control:
  "wf_regs (regs s) \<Longrightarrow> mq s = q \<Longrightarrow> quiet_step q (rec_pump_control (s :: 'a recirc_scheme))"
  unfolding rec_pump_control_def Let_def pointers Option.bind.simps
  by (intro quiet_rules | simp)+

lemma quiet_system:
  "wf_regs (regs s) \<Longrightarrow> mq s = q \<Longrightarrow> quiet_step q (rec_system (s :: 'a recirc_scheme))"
  unfolding rec_system_def by (intro quiet_rules quiet_control | simp)+

lemma quiet_button:
  "wf_regs (regs s) \<Longrightarrow> mq s = q \<Longrightarrow> quiet_step q (rec_isr_Botoeira (s :: 'a recirc_scheme))"
  unfolding rec_isr_Botoeira_def Let_def by (intro quiet_rules | simp)+

lemma quiet_error:
  "wf_regs (regs s) \<Longrightarrow> mq s = q \<Longrightarrow> quiet_step q (rec_error_process s)"
  using error_process_run [of s] by (auto simp: quiet_step_def)

lemma quiet_timestamp:
  "wf_regs (regs s) \<Longrightarrow> mq s = q \<Longrightarrow> quiet_step q (tickTimestamp s)"
proof -
  have "int_slot (Reg_Vet 272) = Some 0" by (simp add: int_slot_def regmap)
  then show "wf_regs (regs s) \<Longrightarrow> mq s = q \<Longrightarrow> quiet_step q (tickTimestamp s)"
    by (simp add: tickTimestamp_def on_regs_def store_int_def wf_regs_def quiet_step_def)
qed

section \<open>Functions that may fail\<close>

definition quietly :: "msg_queue \<Rightarrow> 'a device_scheme option \<Rightarrow> bool" where
  "quietly q r \<longleftrightarrow> (\<forall>s. r = Some s \<longrightarrow> wf_regs (regs s) \<and> mq s = q)"

lemma adc_Read_quiet:
  fixes s s' :: "'a device_scheme"
  assumes "adc_Read p s = Some (v, s')"
  shows "regs s' = regs s \<and> mq s' = mq s"
proof -
  have sample: "regs t = regs u \<and> mq t = mq u" if "adc_sample a u = (x, t)" for a x and t u :: "'a device_scheme"
    using that by (auto simp: adc_sample_def hw_and_def hw_or_def hw_read_def hw_write_def Let_def)
  have "adc_samples n a w u = (x, t) \<Longrightarrow> regs t = regs u \<and> mq t = mq u" for n a w x and t u :: "'a device_scheme"
    by (induction n arbitrary: w u) (auto split: prod.splits dest: sample)
  then show ?thesis using assms by (auto simp: adc_Read_def split: if_splits option.splits prod.splits)
qed

lemma get_temp_quiet:
  fixes s s' :: "'a device_scheme"
  assumes "get_temp a th g s = Some (g', s')"
  shows "regs s' = regs s \<and> mq s' = mq s"
  using assms by (auto simp: get_temp_def Let_def Option.bind_eq_Some_conv dest: adc_Read_quiet)

lemma quietly_Some: "wf_regs (regs s) \<Longrightarrow> mq s = q \<Longrightarrow> quietly q (Some s)"
  by (simp add: quietly_def)

lemma quietly_bind:
  fixes x :: "'a recirc_scheme option" and f :: "'a recirc_scheme \<Rightarrow> 'a recirc_scheme option"
  shows "quietly q x \<Longrightarrow> (\<And>s. wf_regs (regs s) \<Longrightarrow> mq s = q \<Longrightarrow> quietly q (f s)) \<Longrightarrow> quietly q (x \<bind> f)"
  by (auto simp: quietly_def Option.bind_eq_Some_conv)

lemma quietly_put:
  assumes "wf_regs (regs s)" "mq s = q"
  shows "quietly q (put_int a v s)"
  using assms by (auto simp: quietly_def put_int_def wf_regs_def arr_set_def Option.bind_eq_Some_conv split: if_splits)

lemma quietly_values:
  fixes f :: "i32 \<Rightarrow> 'a device_scheme option" and g :: "bool \<Rightarrow> 'a device_scheme option"
  shows "(\<And>a. quietly q (f a)) \<Longrightarrow> quietly q (x \<bind> f)" "(\<And>a. quietly q (g a)) \<Longrightarrow> quietly q (y \<bind> g)"
  by (auto simp: quietly_def Option.bind_eq_Some_conv)

lemma quietly_pair:
  fixes s :: "'a recirc_scheme"
  assumes "\<And>b t. x = Some (b, t) \<Longrightarrow> regs t = regs s \<and> mq t = mq s" "wf_regs (regs s)" "mq s = q"
    and "\<And>b t. wf_regs (regs t) \<Longrightarrow> mq t = q \<Longrightarrow> quietly q (f b t)"
  shows "quietly q (x \<bind> (\<lambda>(b, t). f b t))"
  unfolding quietly_def
proof (intro allI impI)
  fix u assume "x \<bind> (\<lambda>(b, t). f b t) = Some u"
  then obtain b t where t: "x = Some (b, t)" "f b t = Some u" by (auto simp: Option.bind_eq_Some_conv)
  then show "wf_regs (regs u) \<and> mq u = q"
    using assms(1) [OF t(1)] assms(2,3) assms(4) [of t b] by (simp add: quietly_def)
qed

lemmas quietly_adc = quietly_pair [OF adc_Read_quiet]
lemmas quietly_temp = quietly_pair [OF get_temp_quiet]

lemma quietly_if: "(c \<Longrightarrow> quietly q x) \<Longrightarrow> (\<not> c \<Longrightarrow> quietly q y) \<Longrightarrow> quietly q (if c then x else y)"
  by simp

lemmas quietly_rules = quietly_Some quietly_put quietly_bind quietly_values quietly_adc quietly_temp quietly_if

lemma quietly_measurements:
  fixes s :: "'a recirc_scheme"
  assumes "wf_regs (regs s)" "mq s = q"
  shows "quietly q (rec_get_Temp s)" "quietly q (rec_measure s)" "quietly q (rec_current_measure s)"
    "quietly q (rec_ref_measure s)"
  unfolding rec_get_Temp_def rec_measure_def rec_current_measure_def rec_ref_measure_def Let_def
  by (intro quietly_rules | simp add: assms)+

text \<open>The clock: the bus and the stores to the timestamp.\<close>

lemma store_int_wf: "wf_regs r \<Longrightarrow> store_int p v r = Some r' \<Longrightarrow> wf_regs r'"
  by (auto simp: store_int_def wf_regs_def arr_set_def Option.bind_eq_Some_conv split: if_splits)

lemma store_ts_quiet:
  "wf_regs (regs s) \<Longrightarrow> store_ts v s = Some t \<Longrightarrow> wf_regs (regs t) \<and> mq t = mq s"
  by (auto simp: store_ts_def on_regs_eq_Some split: ts_pointer.splits dest: store_int_wf)

lemma bus_only_quiet:
  fixes s t :: "'a rtc_scheme"
  assumes "bus_only s t"
  shows "regs t = regs s \<and> mq t = mq s"
proof -
  have "hw.more t = hw.more s" using assms by (simp add: bus_only_def)
  then show ?thesis by (cases s; cases t) simp
qed

lemma resynchronization_quiet:
  fixes s t :: "'a rtc_scheme"
  assumes "RTC_resynchronization s = Some t" "wf_regs (regs s)"
  shows "wf_regs (regs t) \<and> mq t = mq s"
proof -
  obtain tm s1 where chip: "RTC_read_chip s = Some (tm, s1)"
    using assms by (auto simp: RTC_resynchronization_def Option.bind_eq_Some_conv)
  then obtain ts where "load_ts s = Some ts"
    by (auto simp: RTC_read_chip_def Option.bind_eq_Some_conv)
  then have s1: "regs s1 = regs s \<and> mq s1 = mq s"
    using read_chip_total [of s ts] chip by (auto dest: bus_only_quiet)
  have set: "RTC_setValue v a = Some b \<Longrightarrow> regs b = regs a \<and> mq b = mq a" for v and a b :: "'a rtc_scheme"
    using setValue_total [of v a] by (auto dest: bus_only_quiet)
  have "\<exists>a b c d. (store_ts a s1 = Some d \<and> RTC_setValue b d = Some c \<or> c = s1) \<and> (\<exists>v. store_ts v c = Some t)"
    using assms(1) chip by (auto simp: RTC_resynchronization_def Option.bind_eq_Some_conv split: if_splits)
  then obtain a b c d v where run: "store_ts a s1 = Some d \<and> RTC_setValue b d = Some c \<or> c = s1"
    "store_ts v c = Some t" by blast
  have "wf_regs (regs c) \<and> mq c = mq s"
    using run(1)
  proof
    assume "store_ts a s1 = Some d \<and> RTC_setValue b d = Some c"
    then show ?thesis using store_ts_quiet [of s1 a d] set [of b d c] s1 assms(2) by simp
  qed (use s1 assms(2) in simp)
  then show ?thesis using store_ts_quiet [OF _ run(2)] by simp
qed

lemma RTC_loop_quietly: "wf_regs (regs s) \<Longrightarrow> mq s = q \<Longrightarrow> quietly q (RTC_loop (s :: 'a recirc_scheme))"
  by (auto simp: RTC_loop_def Let_def quietly_def Option.bind_eq_Some_conv dest: resynchronization_quiet)

section \<open>All functions\<close>

definition returning_tasks :: "c_func list" where
  "returning_tasks = [Rec_isr_Botoeira, Rec_isr_Flow, Rec_system, Rec_error_process, TickTimestamp,
     Rec_change_verify, Rec_create_messages]"

lemma returning_task:
  fixes s :: "'a recirc_scheme"
  assumes ok: "ring_ok s" and f: "f \<in> set returning_tasks"
  shows "\<exists>s'. task_body f arg s = Some s' \<and> ring_ok s' \<and> appended s s' \<and> sched_view s' = sched_view s"
proof -
  have wf: "wf_regs (regs s)" using ok by (simp add: ring_ok_def)
  have quiet: "\<exists>s'. r = Some s' \<and> ring_ok s' \<and> appended s s'" if "quiet_step (mq s) r" for r :: "'a recirc_scheme option"
    using that ok by (auto simp: quiet_step_def ring_ok_def)
  have "quiet_step (mq s) (rec_isr_Flow s)" using wf by (simp add: quiet_step_def rec_isr_Flow_def)
  then have "\<exists>s'. task_body f arg s = Some s' \<and> ring_ok s' \<and> appended s s'"
    using f quiet [OF quiet_control [OF wf refl]] quiet [OF quiet_system [OF wf refl]]
      quiet [OF quiet_button [OF wf refl]] quiet [OF quiet_error [OF wf refl]]
      quiet [OF quiet_timestamp [OF wf refl]] quiet create_messages_ring [OF ok] change_verify_ring [OF ok]
    by (auto simp: returning_tasks_def task_body_def)
  then show ?thesis using task_body_keeps [of s f arg] by (auto simp: keeps_def)
qed

text \<open>A function that returns, whichever it is, only appends to the ring.\<close>

lemma task_body_ring:
  fixes s s' :: "'a recirc_scheme"
  assumes ok: "ring_ok s" and run: "task_body f arg s = Some s'"
  shows "ring_ok s' \<and> appended s s' \<and> sched_view s' = sched_view s"
proof (cases "f \<in> set returning_tasks")
  case True
  then show ?thesis using returning_task [OF ok True, of arg] run by auto
next
  case False
  have wf: "wf_regs (regs s)" using ok by (simp add: ring_ok_def)
  have "quietly (mq s) (task_body f arg s)"
    using False quietly_measurements [OF wf refl] RTC_loop_quietly [OF wf refl]
    by (cases f) (simp_all add: task_body_def returning_tasks_def quietly_def)
  then have "wf_regs (regs s') \<and> mq s' = mq s" using run by (simp add: quietly_def)
  then show ?thesis using ok task_body_keeps [of s f arg] run by (simp add: ring_ok_def keeps_def)
qed

end
