(* ===== verification/Defined_Runs.thy ===== *)
theory Defined_Runs
  imports Task_Runs
begin

text \<open>
  A run with other interrupts: where one kind of interrupts is defined less often than another and
  agrees with it otherwise, so are the delays, the rounds of the loop and set-up. With it a fact
  about interrupts that skip a failing task says what the firmware does as long as no task fails.
\<close>

section \<open>Less defined, otherwise equal\<close>

definition below :: "'s option \<Rightarrow> 's option \<Rightarrow> bool" where
  "below x y \<longleftrightarrow> x = None \<or> x = y"

lemma below_refl: "below x x" and below_None: "below None y"
  by (simp_all add: below_def)

lemma below_bind: "below x y \<Longrightarrow> (\<And>s. below (f s) (g s)) \<Longrightarrow> below (x \<bind> f) (y \<bind> g)"
  unfolding below_def by (cases x) (auto, metis)

lemma below_if: "(c \<Longrightarrow> below x y) \<Longrightarrow> (\<not> c \<Longrightarrow> below u v) \<Longrightarrow> below (if c then x else u) (if c then y else v)"
  by simp

lemma below_pair: "(\<And>a b. below (f a b) (g a b)) \<Longrightarrow> below (case p of (a, b) \<Rightarrow> f a b) (case p of (a, b) \<Rightarrow> g a b)"
  by (cases p) simp

lemma below_option: "below a b \<Longrightarrow> (\<And>x. below (f x) (g x)) \<Longrightarrow>
    below (case p of None \<Rightarrow> a | Some x \<Rightarrow> f x) (case p of None \<Rightarrow> b | Some x \<Rightarrow> g x)"
  by (cases p) simp_all

lemma below_for_loop:
  assumes "\<And>i s. below (f i s) (g i s)"
  shows "below (for_loop i n f s) (for_loop i n g s)"
proof (induction n arbitrary: i s)
  case 0
  then show ?case by (simp add: below_refl)
next
  case (Suc n)
  show ?case unfolding for_loop.simps by (rule below_bind [OF assms Suc.IH])
qed

lemma wait_until_below:
  assumes "wait_until idle stop s = Some t" "\<And>s. below (idle s) (idle' s)"
  shows "wait_until idle' stop s = Some t"
proof -
  have "(\<forall>s. below (idle s) (idle' s)) \<longrightarrow> wait_until idle' stop s = Some t"
  proof (rule wait_until.raw_induct [where P = "\<lambda>i c s t. (\<forall>s. below (i s) (idle' s)) \<longrightarrow> wait_until idle' c s = Some t",
      OF _ assms(1)], intro impI)
    fix w i c s t
    assume IH: "\<And>i c s t. w i c s = Some t \<Longrightarrow> (\<forall>s. below (i s) (idle' s)) \<longrightarrow> wait_until idle' c s = Some t"
      and step: "(if c s then Some s else i s \<bind> w i c) = Some t" and le: "\<forall>s. below (i s) (idle' s)"
    show "wait_until idle' c s = Some t"
    proof (cases "c s")
      case True
      then show ?thesis using step by (subst wait_until.simps) simp
    next
      case False
      then obtain u where u: "i s = Some u" "w i c u = Some t" using step by (auto simp: Option.bind_eq_Some_conv)
      have "idle' s = Some u" using le [rule_format, of s] u(1) by (simp add: below_def)
      then show ?thesis using IH [OF u(2)] le False by (subst wait_until.simps) simp
    qed
  qed
  then show ?thesis using assms(2) by blast
qed

lemma below_wait:
  assumes "\<And>s. below (idle s) (idle' s)"
  shows "below (wait_until idle stop s) (wait_until idle' stop s)"
  unfolding below_def using wait_until_below [OF _ assms] by (cases "wait_until idle stop s") auto

lemma below_delay:
  assumes "\<And>s. below (idle s) (idle' s)"
  shows "below (task_delay_ms idle ms s) (task_delay_ms idle' ms s)"
  unfolding task_delay_ms_def Let_def by (rule below_wait [OF assms])

lemmas below_rules = below_refl below_bind below_if below_pair below_option below_for_loop

section \<open>The program\<close>

lemma below_round:
  assumes "\<And>s. below (idle s) (idle' s)"
  shows "below (message_loop_aux idle s) (message_loop_aux idle' s)"
    and "below (message_loop idle s) (message_loop idle' s)"
proof -
  show aux: "below (message_loop_aux idle s) (message_loop_aux idle' s)" for s
    unfolding message_loop_aux_def Let_def by (intro below_rules below_delay assms)
  show "below (message_loop idle s) (message_loop idle' s)"
    unfolding message_loop_def Let_def by (intro below_rules below_delay aux assms)
qed

lemma below_rounds:
  assumes "\<And>s. below (idle s) (idle' s)"
  shows "below (main_rounds idle n s) (main_rounds idle' n s)"
proof (induction n arbitrary: s)
  case 0
  then show ?case by (simp add: below_refl)
next
  case (Suc n)
  show ?case
    unfolding main_rounds.simps main_round_def by (intro below_bind below_round(2) assms Suc.IH)
qed

lemma below_setup:
  assumes "\<And>s. below (idle s) (idle' s)"
  shows "below (setup_board rom_fro rom idle s) (setup_board rom_fro rom idle' s)"
  unfolding setup_board_def setup_equipment_def Let_def by (intro below_rules below_delay assms)

text \<open>The scheduler and the handlers, over the bodies of the functions they call.\<close>

lemma below_scheduler:
  assumes "\<And>f a s. below (call f a s) (call' f a s)"
  shows "below (isrScheduler call s) (isrScheduler call' s)"
proof -
  have "below (scheduler_loop call n i s) (scheduler_loop call' n i s)" for n i
    by (induction n arbitrary: i) (auto simp: Let_def intro!: below_rules assms)
  then show ?thesis by (simp add: isrScheduler_def below_refl)
qed

end
