(* ===== verification/Main_Rounds.thy ===== *)
theory Main_Rounds
  imports Quiet_Tasks Defined_Runs
begin

text \<open>
  The endless loop of \<open>main\<close> with the interrupts that run during its delays: the tick's handler with
  the scheduler and the functions it starts, and the pins. Rounds return and keep the ring, unless a
  function fails, that is divides by zero or reads outside a table.
\<close>

section \<open>What interrupts do between two polls\<close>

text \<open>
  The tick counts and calls the scheduler, then a pin may interrupt. The functions behind the
  pointers are a parameter: the program's own, and the same with a failing one skipped.
\<close>

definition isr_call ::
  "(c_func \<Rightarrow> u32 \<Rightarrow> 'a recirc_scheme \<Rightarrow> 'a recirc_scheme option) \<Rightarrow> c_func \<Rightarrow>
   'a recirc_scheme \<Rightarrow> 'a recirc_scheme option" where
  "isr_call body f s = (if f = IsrScheduler then isrScheduler body s else body f 0 s)"

definition interrupts ::
  "(c_func \<Rightarrow> u32 \<Rightarrow> 'a recirc_scheme \<Rightarrow> 'a recirc_scheme option) \<Rightarrow> ('a recirc_scheme \<Rightarrow> c_func option) \<Rightarrow>
   'a recirc_scheme \<Rightarrow> 'a recirc_scheme option" where
  "interrupts body pin s = do {
     s \<leftarrow> SysTick_Handler (isr_call body) s;
     (case pin s of
        None \<Rightarrow> Some s
      | Some f \<Rightarrow> if f \<in> {Rec_isr_Botoeira, Rec_isr_Flow} then body f 0 s else Some s) }"

definition skip_failing :: "c_func \<Rightarrow> u32 \<Rightarrow> 'a recirc_scheme \<Rightarrow> 'a recirc_scheme option" where
  "skip_failing f arg s = (case task_body f arg s of None \<Rightarrow> Some s | Some s' \<Rightarrow> Some s')"

abbreviation "firmware_runs \<equiv> interrupts task_body"
abbreviation "background \<equiv> interrupts skip_failing"

lemma firmware_below: "below (firmware_runs pin s) (background pin s)"
proof -
  have body: "below (task_body f a s) (skip_failing f a s)" for f a and s :: "'a recirc_scheme"
    by (simp add: below_def skip_failing_def split: option.split)
  have isr: "below (isr_call task_body f s) (isr_call skip_failing f s)" for f and s :: "'a recirc_scheme"
    by (simp add: isr_call_def body below_scheduler)
  show ?thesis
    unfolding interrupts_def SysTick_Handler_def Let_def by (intro below_rules body isr)
qed

section \<open>Rounds\<close>

lemma loop_inv_ring:
  "loop_inv n s \<longleftrightarrow> ring_ok s \<and> 0 < unat (dT_us s) \<and> unat (dT_us s) * (unat (SysTickCount s) + n) < 2 ^ 64"
  by (auto simp: loop_inv_def ring_ok_def)

text \<open>A step of the interrupts: it returns and keeps what the loop relies on, here with the count.\<close>

definition calm :: "nat \<Rightarrow> 'a recirc_scheme \<Rightarrow> 'a recirc_scheme \<Rightarrow> bool" where
  "calm n s s' \<longleftrightarrow> loop_inv n s' \<and> appended s s' \<and> frame s' = frame s \<and> pause s' = pause s \<and>
     SysTickCount s' = SysTickCount s"

lemma calm_refl: "loop_inv n s \<Longrightarrow> calm n s s"
  by (simp add: calm_def)

lemma calm_trans: "calm n s t \<Longrightarrow> calm n t u \<Longrightarrow> calm n s u"
  by (auto simp: calm_def intro: appended_trans)

lemma skip_failing_calm:
  fixes s :: "'a recirc_scheme"
  assumes "loop_inv n s"
  shows "\<exists>s'. skip_failing f arg s = Some s' \<and> calm n s s'"
proof (cases "task_body f arg s")
  case None
  then show ?thesis using calm_refl [OF assms] by (simp add: skip_failing_def)
next
  case (Some u)
  have "ring_ok s" using assms by (simp add: loop_inv_ring)
  from task_body_ring [OF this Some] have "calm n s u"
    using assms by (simp add: calm_def loop_inv_ring sched_view_def frame_def)
  then show ?thesis using Some by (simp add: skip_failing_def)
qed

lemma start_slot_calm:
  assumes "loop_inv n s" "j < length (task_vet s)"
  shows "calm n s (start_slot s j)"
proof -
  have "(map f xs)[j := f (xs ! j)] = map f xs" for f :: "task_s \<Rightarrow> task_s" and xs
    by (metis list_update_id map_update)
  then have "frame (start_slot s j) = frame s" by (simp add: start_slot_def frame_def map_update)
  then show ?thesis using assms(1) by (simp add: calm_def start_slot_def loop_inv_def)
qed

lemma isr_call_calm:
  fixes s :: "'a recirc_scheme"
  assumes inv: "loop_inv n s" and len: "length (task_vet s) = Sys_task_max"
  shows "\<exists>s'. isr_call skip_failing f s = Some s' \<and> calm n s s'"
proof (cases "f = IsrScheduler \<and> pause s = 0")
  case False
  then show ?thesis
    using skip_failing_calm [OF inv] calm_refl [OF inv] by (auto simp: isr_call_def isrScheduler_def)
next
  case True
  then have run: "isr_call skip_failing f s = (case chosen s of None \<Rightarrow> Some s | Some j \<Rightarrow> run_slot skip_failing s j)"
    using scheduler_loop_find [of 0 Sys_task_max s skip_failing] len
    by (simp add: isr_call_def isrScheduler_def chosen_def)
  show ?thesis
  proof (cases "chosen s")
    case None
    then show ?thesis using run calm_refl [OF inv] by simp
  next
    case (Some j)
    then have "j < length (task_vet s)" using len find_chosen_bounds by (fastforce simp: chosen_def)
    note start = start_slot_calm [OF inv this]
    have "loop_inv n (start_slot s j)" using start by (simp add: calm_def)
    from skip_failing_calm [OF this] obtain u where
      "skip_failing (the (ptrFunc (task_vet s ! j))) (ptrData (task_vet s ! j)) (start_slot s j) = Some u"
      "calm n (start_slot s j) u" by blast
    then show ?thesis using run Some calm_trans [OF start] by (simp add: run_slot_def)
  qed
qed

lemma feed_keeps:
  "loop_inv n (watchdog_feed s) = loop_inv n s" "pause (watchdog_feed s) = pause s" "mq (watchdog_feed s) = mq s"
  "frame (watchdog_feed s) = frame s"
  by (simp_all add: watchdog_feed_def hw_write_def loop_inv_def frame_def)

context delay_idle
begin

lemma rounds:
  assumes "loop_inv (n * 25000) s" "ready (frame s)" "pause s = 0"
  shows "\<exists>s'. main_rounds idle n s = Some s' \<and> loop_inv 0 s' \<and> frame s' = frame s \<and> pause s' = 0"
  using assms
proof (induction n arbitrary: s)
  case 0
  then show ?case by simp
next
  case (Suc n)
  let ?s = "watchdog_feed s"
  have inv: "loop_inv (n * 25000 + 25000) ?s" using Suc.prems by (simp add: feed_keeps add.commute)
  have rdy: "ready (frame ?s)" using Suc.prems(2) by (simp add: feed_keeps)
  obtain s1 where s1: "message_loop idle ?s = Some s1" "loop_inv (n * 25000) s1" "frame s1 = frame s" "pause s1 = 0"
  proof (cases "message_queue_lenght (mq ?s) = 0")
    case True
    then show ?thesis
      using that round_empty [of ?s] loop_inv_less [OF inv, of "n * 25000"] Suc.prems(3)
      by (simp add: feed_keeps)
  next
    case False
    moreover have "0 \<le> message_queue_lenght (mq ?s)" using inv by (auto simp: loop_inv_def dest: inv_queueD(4))
    ultimately show ?thesis using that round [OF inv rdy] by (force simp: feed_keeps)
  qed
  then show ?case using Suc.IH [OF s1(2) _ s1(4)] Suc.prems(2) by (simp add: main_round_def)
qed

end

section \<open>The interrupts of the firmware\<close>

interpretation busy: delay_idle "background pin" "\<lambda>(vet, _). length vet = Sys_task_max"
  for pin :: "'a recirc_scheme \<Rightarrow> c_func option"
proof
  fix n and s :: "'a recirc_scheme"
  assume inv: "loop_inv (Suc n) s" and rdy: "(\<lambda>(vet, _). length vet = Sys_task_max) (frame s)"
  define t where "t = tick s"
  have t: "loop_inv n t" "appended s t" "pause t = pause s" "frame t = frame s" "SysTickCount t = SysTickCount s + 1"
    "length (task_vet t) = Sys_task_max"
    using loop_inv_tick(1) [OF inv] rdy by (simp_all add: t_def tick_def frame_def)
  have "SysTick_Handler (isr_call skip_failing) s = (case ptrSysTickISR t of None \<Rightarrow> Some t | Some f \<Rightarrow> isr_call skip_failing f t)"
    by (cases "ptrSysTickISR s") (simp_all add: SysTick_Handler_def t_def tick_def Let_def)
  then obtain u where u: "SysTick_Handler (isr_call skip_failing) s = Some u" "calm n t u"
    using isr_call_calm [OF t(1,6)] calm_refl [OF t(1)] by (cases "ptrSysTickISR t") auto
  have "loop_inv n u" using u(2) by (simp add: calm_def)
  then have "\<exists>v. (if f \<in> {Rec_isr_Botoeira, Rec_isr_Flow} then skip_failing f 0 u else Some u) = Some v \<and> calm n u v" for f
    using skip_failing_calm [of n u f 0] calm_refl [of n u] by simp
  then obtain v where v: "background pin s = Some v" "calm n u v"
    using u(1) calm_refl [OF \<open>loop_inv n u\<close>] by (cases "pin u") (fastforce simp: interrupts_def)+
  have "calm n t v" using calm_trans [OF u(2) v(2)] .
  then show "\<exists>s'. background pin s = Some s' \<and> loop_inv n s' \<and> appended s s' \<and> frame s' = frame s \<and>
      pause s' = pause s \<and> SysTickCount s' = SysTickCount s + 1"
    using v(1) t appended_trans [OF t(2)] by (auto simp: calm_def)
qed

text \<open>A table in which only functions that always return are tasks: no interrupt fails.\<close>

definition returning_table :: "frame \<Rightarrow> bool" where
  "returning_table = (\<lambda>(vet, isr, _). length vet = Sys_task_max \<and> isr \<in> {None, Some IsrScheduler} \<and>
     list_all (\<lambda>t. case ptrFunc t of None \<Rightarrow> True | Some f \<Rightarrow> f \<in> set returning_tasks) vet)"

lemma skip_returning:
  fixes s :: "'a recirc_scheme"
  shows "loop_inv n s \<Longrightarrow> f \<in> set returning_tasks \<Longrightarrow> task_body f arg s = skip_failing f arg s"
  using returning_task [of s f arg] by (auto simp: skip_failing_def loop_inv_ring)

lemma returning_slot:
  fixes s :: "'a recirc_scheme"
  assumes "returning_table (frame s)" "chosen s = Some j"
  shows "the (ptrFunc (task_vet s ! j)) \<in> set returning_tasks" "j < length (task_vet s)"
proof -
  have j: "j < Sys_task_max" "due s j" using find_chosen_bounds assms(2) by (auto simp: chosen_def)
  then show "j < length (task_vet s)" using assms(1) by (simp add: returning_table_def frame_def)
  then show "the (ptrFunc (task_vet s ! j)) \<in> set returning_tasks"
    using assms(1) j(2) by (auto simp: returning_table_def frame_def due_def list_all_length split: option.splits)
qed

lemma sure_interrupts:
  fixes s :: "'a recirc_scheme"
  assumes inv: "loop_inv (Suc n) s" and table: "returning_table (frame s)"
  shows "firmware_runs pin s = background pin s"
proof -
  have t: "loop_inv n (tick s)" "returning_table (frame (tick s))" "length (task_vet (tick s)) = Sys_task_max"
    using loop_inv_tick(1) [OF inv] table by (simp_all add: tick_def returning_table_def frame_def)
  have slot: "run_slot task_body (tick s) j = run_slot skip_failing (tick s) j" if "chosen (tick s) = Some j" for j
  proof -
    have "loop_inv n (start_slot (tick s) j)"
      using start_slot_calm [OF t(1) returning_slot(2) [OF t(2) that]] by (simp add: calm_def)
    from skip_returning [OF this returning_slot(1) [OF t(2) that]] show ?thesis by (simp add: run_slot_def)
  qed
  have "isr_call task_body IsrScheduler (tick s) = isr_call skip_failing IsrScheduler (tick s)"
    using slot scheduler_loop_find [of 0 Sys_task_max "tick s"] t(3)
    by (cases "chosen (tick s)") (simp_all add: isr_call_def isrScheduler_def chosen_def)
  moreover have "ptrSysTickISR s = None \<or> ptrSysTickISR s = Some IsrScheduler"
    using table by (auto simp: returning_table_def frame_def)
  ultimately have eq: "SysTick_Handler (isr_call task_body) s = SysTick_Handler (isr_call skip_failing) s"
    by (auto simp: SysTick_Handler_def tick_def Let_def)
  have "SysTick_Handler (isr_call skip_failing) s = Some u \<Longrightarrow> loop_inv n u" for u
    using isr_call_calm [OF t(1,3), of IsrScheduler] t(1) \<open>_ \<or> _\<close>
    by (auto simp: SysTick_Handler_def tick_def Let_def calm_def)
  then show ?thesis
    unfolding interrupts_def eq
    by (cases "SysTick_Handler (isr_call skip_failing) s")
      (auto simp: returning_tasks_def intro!: skip_returning split: option.split)
qed

interpretation sure: delay_idle "firmware_runs pin" returning_table for pin :: "'a recirc_scheme \<Rightarrow> c_func option"
proof
  fix n and s :: "'a recirc_scheme"
  assume inv: "loop_inv (Suc n) s" and table: "returning_table (frame s)"
  then have "(\<lambda>(vet, _). length vet = Sys_task_max) (frame s)" by (simp add: returning_table_def frame_def)
  from busy.idle_step [OF inv this, of pin]
  show "\<exists>s'. firmware_runs pin s = Some s' \<and> loop_inv n s' \<and> appended s s' \<and> frame s' = frame s \<and>
      pause s' = pause s \<and> SysTickCount s' = SysTickCount s + 1"
    using sure_interrupts [OF inv table, of pin] by simp
qed

text \<open>
  C3: the program's endless loop does not get stuck: from a well-formed ring, any number of rounds
  returns, however the slaves answer or fail to, whichever tasks the scheduler starts and whichever
  pins interrupt during the delays, as long as the clock has room for 25000 ticks a round. The ring
  and the register banks are well formed after it, the table of tasks is the same but for the starts,
  and the scheduler is not left paused. This is so with a task that fails skipped; the firmware
  itself, which does not skip it, does the same or fails, and with a table of tasks that always return
  it does the same. The button, the flow sensor, the control of the pump, the error task, the seconds
  and the two tasks that queue messages always return.
\<close>

theorem main_loop_runs:
  fixes s :: "'a recirc_scheme"
  assumes "ring_ok s" "length (task_vet s) = Sys_task_max" "pause s = 0" "0 < unat (dT_us s)"
    and "unat (dT_us s) * (unat (SysTickCount s) + n * 25000) < 2 ^ 64"
  shows "(\<exists>s'. main_rounds (background pin) n s = Some s' \<and> ring_ok s' \<and> frame s' = frame s \<and> pause s' = 0 \<and>
      main_rounds (firmware_runs pin) n s \<in> {None, Some s'} \<and>
      (returning_table (frame s) \<longrightarrow> main_rounds (firmware_runs pin) n s = Some s')) \<and>
    (\<forall>f. f \<in> set returning_tasks \<longrightarrow> task_body f 0 s \<noteq> None)"
proof -
  have inv: "loop_inv (n * 25000) s" using assms by (simp add: loop_inv_ring)
  obtain s' where s': "main_rounds (background pin) n s = Some s'" "ring_ok s'" "frame s' = frame s" "pause s' = 0"
    using busy.rounds [OF inv _ assms(3), of pin] assms(2) by (auto simp: loop_inv_ring frame_def)
  have "below (main_rounds (firmware_runs pin) n s) (main_rounds (background pin) n s)"
    by (intro below_rounds firmware_below)
  then have same: "main_rounds (firmware_runs pin) n s \<in> {None, Some s'}" using s'(1) by (auto simp: below_def)
  moreover have "returning_table (frame s) \<longrightarrow> main_rounds (firmware_runs pin) n s = Some s'"
    using sure.rounds [OF inv _ assms(3), of pin] same by auto
  ultimately show ?thesis using s' returning_task [OF assms(1)] by blast
qed

theorem main_loop_runs_witness:
  "\<exists>s'. main_rounds (background (\<lambda>s. Some Rec_isr_Flow)) 1000
      (two_tasks\<lparr>mq := message_Init queue_zero\<rparr>) = Some s' \<and> ring_ok s' \<and> pause s' = 0"
proof -
  have "ring_ok (two_tasks\<lparr>mq := message_Init queue_zero\<rparr>)" by (simp add: two_tasks_def ring_ok_def wf_reg_zero)
  then have "\<exists>s'. main_rounds (background (\<lambda>s. Some Rec_isr_Flow)) 1000
      (two_tasks\<lparr>mq := message_Init queue_zero\<rparr>) = Some s' \<and> ring_ok s' \<and>
      frame s' = frame (two_tasks\<lparr>mq := message_Init queue_zero\<rparr>) \<and> pause s' = 0"
    using main_loop_runs [of "two_tasks\<lparr>mq := message_Init queue_zero\<rparr>" 1000 "\<lambda>s. Some Rec_isr_Flow"]
    by (auto simp: two_tasks_def Sys_task_max_def)
  then show ?thesis by blast
qed

end
