(* ===== verification/Setup_Steps.thy ===== *)
theory Setup_Steps
  imports Main_Rounds
begin

text \<open>
  The steps of set-up, from the RAM as the C runtime leaves it: the table of tasks is the one
  \<open>main.c\<close> lists, and pins, converter and register banks are set up without touching the rest.
\<close>

section \<open>The table of tasks\<close>

text \<open>The functions and periods of the slots; the names are arrays of the length of the field.\<close>

definition slots :: "'a tasks_scheme \<Rightarrow> (c_func option \<times> u32) list" where
  "slots s = map (\<lambda>t. (ptrFunc t, dt_us t)) (task_vet s)"

definition table_ok :: "'a tasks_scheme \<Rightarrow> bool" where
  "table_ok s \<longleftrightarrow> length (task_vet s) = Sys_task_max \<and>
     (\<forall>t\<in>set (task_vet s). length (TaskName t) = Sys_task_name_length)"

lemma copy_name_total:
  assumes "0 \<in> set nm" "length dst = Sys_task_name_length"
  shows "\<exists>d. copy_name Sys_task_name_length 0 nm dst = Some d \<and> length d = Sys_task_name_length"
proof -
  have k: "length (takeWhile (\<lambda>c. c \<noteq> 0) nm) < length nm" using assms(1) by (induction nm) auto
  show ?thesis
    using copy_name_eq [OF refl k, of 0 Sys_task_name_length dst] assms(2) k by (auto simp: min_def)
qed

text \<open>A new task takes the first slot without a function.\<close>

lemma task_new_slot:
  assumes "table_ok s" "tasks_on s \<noteq> 0" "slots s = xs @ (None, d) # ys" "\<forall>x\<in>set xs. fst x \<noteq> None"
    and "0 \<in> set nm" "freq \<noteq> 0"
  shows "\<exists>vet. (let s' = s\<lparr>task_vet := vet, tasks_on := tasks_on s + 2\<rparr> in
    task_new (Some f) nm freq prio arg s = (if scheduler_on s = 0 then task_schedulerInit s' else Some s') \<and>
    table_ok s' \<and> slots s' = xs @ (Some f, 1000000 div freq) # ys)"
proof -
  define i t where "i = length xs" and "t = task_vet s ! i"
  have len: "length (task_vet s) = 12" using assms(1) by (simp add: table_ok_def Sys_task_max_def)
  have "length (slots s) = 12" using len by (simp add: slots_def)
  then have i: "i < 12" using assms(3) by (simp add: i_def)
  have at: "(ptrFunc (task_vet s ! j), dt_us (task_vet s ! j)) = slots s ! j" if "j < 12" for j
    using that len by (simp add: slots_def)
  have "ptrFunc t = None" using at [OF i] assms(3) by (simp add: t_def i_def nth_append)
  moreover have "ptrFunc (task_vet s ! j) \<noteq> None" if "j < i" for j
    using at [of j] that i assms(3,4) by (metis fst_conv i_def less_trans nth_append nth_mem)
  ultimately have find: "find (\<lambda>j. ptrFunc (task_vet s ! j) = None) [0..<Sys_task_max] = Some i"
    using i by (auto simp: find_Some_iff Sys_task_max_def t_def intro!: exI [of _ i])
  have "length (TaskName t) = Sys_task_name_length"
    using assms(1) i len by (simp add: table_ok_def t_def)
  from copy_name_total [OF assms(5) this] obtain nm' where nm': "copy_name Sys_task_name_length 0 nm (TaskName t) = Some nm'"
    "length nm' = Sys_task_name_length" by blast
  define t' where "t' = t\<lparr>ptrFunc := Some f, dt_us := 1000000 div freq, priority := prio, ptrData := arg, TaskName := nm'\<rparr>"
  define vet where "vet = (task_vet s)[i := t']"
  have "table_ok (s\<lparr>task_vet := vet, tasks_on := tasks_on s + 2\<rparr>)"
    using assms(1) nm'(2) set_update_subset_insert [of "task_vet s" i t'] by (auto simp: table_ok_def vet_def t'_def)
  moreover have "slots (s\<lparr>task_vet := vet, tasks_on := tasks_on s + 2\<rparr>) = (slots s)[i := (Some f, 1000000 div freq)]"
    by (simp add: slots_def vet_def map_update t'_def)
  moreover have "(slots s)[i := (Some f, 1000000 div freq)] = xs @ (Some f, 1000000 div freq) # ys"
    by (simp add: assms(3) i_def)
  moreover have "task_new (Some f) nm freq prio arg s =
      (let s' = s\<lparr>task_vet := vet, tasks_on := tasks_on s + 2\<rparr> in
       if scheduler_on s = 0 then task_schedulerInit s' else Some s')"
    using find assms(2,6) i len nm'(1) by (simp add: task_new_def t_def [symmetric] vet_def t'_def Let_def)
  ultimately show ?thesis by (intro exI [of _ vet]) (simp add: Let_def)
qed

lemma c_str_ends: "0 \<in> set (c_str n)"
  by (simp add: c_str_def)

section \<open>What the steps of set-up leave alone\<close>

definition kept :: "'a device_scheme \<Rightarrow> i32 \<times> u64 \<times> msg_queue \<times> reg_state \<times> u32 \<times> u32" where
  "kept s = (pause s, SysTickCount s, mq s, regs s, inputRefPin s, outputRefPin s)"

lemma kept_hw [simp]:
  fixes s :: "'a device_scheme"
  shows "kept (hw_write r v s) = kept s" "kept (hw_or r v s) = kept s" "kept (hw_and r v s) = kept s"
    "kept (disable_irq s) = kept s" "kept (enable_irq s) = kept s"
    "kept (NVIC_EnableIRQ n s) = kept s" "kept (NVIC_DisableIRQ n s) = kept s"
  by (simp_all add: kept_def hw_or_def hw_and_def hw_read_def hw_write_def disable_irq_def enable_irq_def
      NVIC_EnableIRQ_def NVIC_DisableIRQ_def Let_def)

lemma table_hw [simp]:
  fixes s :: "'a tasks_scheme"
  shows "task_vet (hw_write r v s) = task_vet s" "task_vet (hw_or r v s) = task_vet s"
    "task_vet (hw_and r v s) = task_vet s" "task_vet (disable_irq s) = task_vet s"
    "task_vet (enable_irq s) = task_vet s" "task_vet (NVIC_EnableIRQ n s) = task_vet s"
    "task_vet (NVIC_DisableIRQ n s) = task_vet s"
    "tasks_on (hw_write r v s) = tasks_on s" "tasks_on (hw_or r v s) = tasks_on s"
    "tasks_on (hw_and r v s) = tasks_on s" "tasks_on (disable_irq s) = tasks_on s"
    "tasks_on (enable_irq s) = tasks_on s" "tasks_on (NVIC_EnableIRQ n s) = tasks_on s"
    "tasks_on (NVIC_DisableIRQ n s) = tasks_on s"
    "scheduler_on (hw_write r v s) = scheduler_on s" "scheduler_on (hw_or r v s) = scheduler_on s"
    "scheduler_on (hw_and r v s) = scheduler_on s" "scheduler_on (disable_irq s) = scheduler_on s"
    "scheduler_on (enable_irq s) = scheduler_on s" "scheduler_on (NVIC_EnableIRQ n s) = scheduler_on s"
    "scheduler_on (NVIC_DisableIRQ n s) = scheduler_on s"
  by (simp_all add: hw_or_def hw_and_def hw_read_def hw_write_def disable_irq_def enable_irq_def
      NVIC_EnableIRQ_def NVIC_DisableIRQ_def Let_def)

lemma kept_nvic_all [simp]:
  fixes s :: "'a device_scheme"
  shows "kept (nvic_all NVIC_EnableIRQ n s) = kept s" "kept (nvic_all NVIC_DisableIRQ n s) = kept s"
  by (induction n) simp_all

lemma kept_fields [simp]:
  fixes s :: "'a device_scheme"
  shows "kept (s\<lparr>ptrIsrFunc := fs\<rparr>) = kept s" "kept (s\<lparr>intCount := c\<rparr>) = kept s"
    "kept (s\<lparr>ptrSysTickISR := isr\<rparr>) = kept s" "kept (s\<lparr>SysTickFreq := fr\<rparr>) = kept s"
    "kept (s\<lparr>dT_us := d\<rparr>) = kept s" "kept (s\<lparr>I2C_mode := m\<rparr>) = kept s"
    "kept (s\<lparr>task_vet := vet\<rparr>) = kept s" "kept (s\<lparr>tasks_on := o1\<rparr>) = kept s"
    "kept (s\<lparr>scheduler_on := o2\<rparr>) = kept s" "kept (s\<lparr>adcOn := a\<rparr>) = kept s"
    "kept (s\<lparr>SystemCoreClock := clk\<rparr>) = kept s"
  by (simp_all add: kept_def)

section \<open>Filling the table\<close>

text \<open>After some tasks were created: their slots, then the free ones.\<close>

definition stage :: "(c_func option \<times> u32) list \<Rightarrow> 'a tasks_scheme \<Rightarrow> bool" where
  "stage xs s \<longleftrightarrow> table_ok s \<and> tasks_on s = 1 + 2 * of_nat (length xs) \<and> scheduler_on s = 1 \<and>
     slots s = xs @ replicate (12 - length xs) (None, 0) \<and> (\<forall>x\<in>set xs. fst x \<noteq> None)"

lemma odd_nonzero: "1 + 2 * x \<noteq> (0 :: i32)"
proof
  assume "1 + 2 * x = (0 :: i32)"
  then have "even (1 + 2 * x)" by simp
  then show False by simp
qed

lemma free_slots: "k < n \<Longrightarrow> replicate (n - k) x = x # replicate (n - Suc k) x"
  by (metis Suc_diff_Suc replicate_Suc)

lemma stage_new:
  fixes s :: "'a device_scheme"
  assumes "stage xs s" "length xs < 12" "freq \<noteq> 0"
  shows "\<exists>s'. task_new (Some f) (c_str nm) freq 0 0 s = Some s' \<and> stage (xs @ [(Some f, 1000000 div freq)]) s' \<and>
    kept s' = kept s \<and> dT_us s' = dT_us s \<and> ptrSysTickISR s' = ptrSysTickISR s"
proof -
  have s: "table_ok s" "tasks_on s \<noteq> 0" "slots s = xs @ (None, 0) # replicate (12 - Suc (length xs)) (None, 0)"
    "\<forall>x\<in>set xs. fst x \<noteq> None" "scheduler_on s = 1"
    using assms(1,2) free_slots [of "length xs" 12] by (simp_all add: stage_def odd_nonzero)
  obtain vet where vet: "task_new (Some f) (c_str nm) freq 0 0 s = Some (s\<lparr>task_vet := vet, tasks_on := tasks_on s + 2\<rparr>)"
    "table_ok (s\<lparr>task_vet := vet, tasks_on := tasks_on s + 2\<rparr>)"
    "slots (s\<lparr>task_vet := vet, tasks_on := tasks_on s + 2\<rparr>) =
       xs @ (Some f, 1000000 div freq) # replicate (12 - Suc (length xs)) (None, 0)"
    using task_new_slot [OF s(1-4) c_str_ends assms(3), of f nm 0 0] s(5) by (auto simp: Let_def)
  have "stage (xs @ [(Some f, 1000000 div freq)]) (s\<lparr>task_vet := vet, tasks_on := tasks_on s + 2\<rparr>)"
    using vet(2,3) s(4,5) assms(1) by (simp add: stage_def)
  then show ?thesis using vet(1) by simp
qed

lemma stage_first:
  fixes s :: "'a device_scheme"
  assumes "tasks_on s = 0" "scheduler_on s = 0" "SystemCoreClock s = 15000000" "freq \<noteq> 0"
  shows "\<exists>s'. task_new (Some f) (c_str nm) freq 0 0 s = Some s' \<and> stage [(Some f, 1000000 div freq)] s' \<and>
    kept s' = kept s \<and> dT_us s' = 500 \<and> ptrSysTickISR s' = Some IsrScheduler"
proof -
  define t where "t = task_vet_init s"
  have t: "table_ok t" "tasks_on t \<noteq> 0" "slots t = [] @ (None, 0) # replicate 11 (None, 0)" "scheduler_on t = 0"
    "SystemCoreClock t = 15000000" "kept t = kept s" "tasks_on t = 1"
    using assms free_slots [of 0 12 "(None, 0)"]
    by (simp_all add: t_def task_vet_init_def table_ok_def slots_def task_s_default_def Sys_task_max_def)
  obtain vet where vet: "task_new (Some f) (c_str nm) freq 0 0 t =
      task_schedulerInit (t\<lparr>task_vet := vet, tasks_on := tasks_on t + 2\<rparr>)"
    "table_ok (t\<lparr>task_vet := vet, tasks_on := tasks_on t + 2\<rparr>)"
    "slots (t\<lparr>task_vet := vet, tasks_on := tasks_on t + 2\<rparr>) = [(Some f, 1000000 div freq)] @ replicate 11 (None, 0)"
    using task_new_slot [OF t(1-3) _ c_str_ends assms(4), of f nm 0 0] t(4) by (auto simp: Let_def)
  have "task_new (Some f) (c_str nm) freq 0 0 s = task_new (Some f) (c_str nm) freq 0 0 t"
    using assms(1) t(2) by (simp add: task_new_def t_def)
  moreover have "\<exists>u. task_schedulerInit (t\<lparr>task_vet := vet, tasks_on := tasks_on t + 2\<rparr>) = Some u \<and>
    dT_us u = 500 \<and> ptrSysTickISR u = Some IsrScheduler \<and> kept u = kept t \<and> task_vet u = vet \<and>
    tasks_on u = 3 \<and> scheduler_on u = 1"
    using t(4,5,7) by (simp add: task_schedulerInit_def SysTick_frequency_hz_def SysTickBeginISR_def SysTickBegin_def
        Let_def)
  then obtain u where u: "task_schedulerInit (t\<lparr>task_vet := vet, tasks_on := tasks_on t + 2\<rparr>) = Some u"
    "dT_us u = 500" "ptrSysTickISR u = Some IsrScheduler" "kept u = kept t" "task_vet u = vet" "tasks_on u = 3"
    "scheduler_on u = 1" by blast
  moreover have "stage [(Some f, 1000000 div freq)] u"
    using vet(2,3) u(5-7) by (simp add: stage_def table_ok_def slots_def)
  ultimately show ?thesis using vet(1) t(6) by simp
qed

text \<open>The tasks \<open>main.c\<close> creates, with their periods in microseconds.\<close>

definition first_tasks :: "(c_func option \<times> u32) list" where
  "first_tasks = [(Some Rec_get_Temp, 333333), (Some Rec_measure, 1000000), (Some Rec_current_measure, 200000),
     (Some Rec_ref_measure, 1000000), (Some Rec_system, 50000), (Some Rec_error_process, 1000000),
     (Some TickTimestamp, 1000000)]"

definition late_tasks :: "(c_func option \<times> u32) list" where
  "late_tasks = [(Some Rec_change_verify, 200000), (Some Rec_create_messages, 250000)]"

lemma setup_tasks_run:
  fixes s :: "'a device_scheme"
  assumes "tasks_on s = 0" "scheduler_on s = 0" "SystemCoreClock s = 15000000"
  shows "\<exists>t. setup_tasks s = Some t \<and> stage first_tasks t \<and> kept t = kept s \<and> dT_us t = 500 \<and>
    ptrSysTickISR t = Some IsrScheduler"
proof -
  let ?n = "\<lambda>f nm freq. task_new (Some f) (c_str nm) freq 0 0"
  obtain s1 where s1: "?n Rec_get_Temp ''Rec_Get_Temp'' 3 s = Some s1" "stage (take 1 first_tasks) s1"
    "kept s1 = kept s" "dT_us s1 = 500" "ptrSysTickISR s1 = Some IsrScheduler"
    using stage_first [OF assms, of 3 Rec_get_Temp "''Rec_Get_Temp''"] by (auto simp: first_tasks_def)
  obtain s2 where s2: "?n Rec_measure ''measure_Process'' 1 s1 = Some s2" "stage (take 2 first_tasks) s2"
    "kept s2 = kept s1" "dT_us s2 = dT_us s1" "ptrSysTickISR s2 = ptrSysTickISR s1"
    using stage_new [OF s1(2), of 1 Rec_measure "''measure_Process''"] by (auto simp: first_tasks_def)
  obtain s3 where s3: "?n Rec_current_measure ''current_measure'' 5 s2 = Some s3" "stage (take 3 first_tasks) s3"
    "kept s3 = kept s2" "dT_us s3 = dT_us s2" "ptrSysTickISR s3 = ptrSysTickISR s2"
    using stage_new [OF s2(2), of 5 Rec_current_measure "''current_measure''"] by (auto simp: first_tasks_def)
  obtain s4 where s4: "?n Rec_ref_measure ''ref_measure'' 1 s3 = Some s4" "stage (take 4 first_tasks) s4"
    "kept s4 = kept s3" "dT_us s4 = dT_us s3" "ptrSysTickISR s4 = ptrSysTickISR s3"
    using stage_new [OF s3(2), of 1 Rec_ref_measure "''ref_measure''"] by (auto simp: first_tasks_def)
  obtain s5 where s5: "?n Rec_system ''System'' 20 s4 = Some s5" "stage (take 5 first_tasks) s5"
    "kept s5 = kept s4" "dT_us s5 = dT_us s4" "ptrSysTickISR s5 = ptrSysTickISR s4"
    using stage_new [OF s4(2), of 20 Rec_system "''System''"] by (auto simp: first_tasks_def)
  obtain s6 where s6: "?n Rec_error_process ''Error_Process'' 1 s5 = Some s6" "stage (take 6 first_tasks) s6"
    "kept s6 = kept s5" "dT_us s6 = dT_us s5" "ptrSysTickISR s6 = ptrSysTickISR s5"
    using stage_new [OF s5(2), of 1 Rec_error_process "''Error_Process''"] by (auto simp: first_tasks_def)
  obtain s7 where s7: "?n TickTimestamp ''tickTimestamp'' 1 s6 = Some s7" "stage (take 7 first_tasks) s7"
    "kept s7 = kept s6" "dT_us s7 = dT_us s6" "ptrSysTickISR s7 = ptrSysTickISR s6"
    using stage_new [OF s6(2), of 1 TickTimestamp "''tickTimestamp''"] by (auto simp: first_tasks_def)
  have "take 7 first_tasks = first_tasks" by (simp add: first_tasks_def)
  then have "stage first_tasks s7" using s7(2) by (simp only:)
  moreover have "setup_tasks s = Some s7"
    unfolding setup_tasks_def by (simp only: s1(1) s2(1) s3(1) s4(1) s5(1) s6(1) s7(1) Option.bind.simps)
  moreover have "kept s7 = kept s" "dT_us s7 = 500" "ptrSysTickISR s7 = Some IsrScheduler"
    by (simp_all only: s1 s2 s3 s4 s5 s6 s7)
  ultimately show ?thesis by blast
qed

lemma setup_late_tasks_run:
  fixes s :: "'a device_scheme"
  assumes "stage first_tasks s"
  shows "\<exists>t. setup_late_tasks s = Some t \<and> stage (first_tasks @ late_tasks) t \<and> kept t = kept s \<and>
    dT_us t = dT_us s \<and> ptrSysTickISR t = ptrSysTickISR s"
proof -
  let ?n = "\<lambda>f nm freq. task_new (Some f) (c_str nm) freq 0 0"
  have len: "length first_tasks = 7" by (simp add: first_tasks_def)
  obtain s1 where s1: "?n Rec_change_verify ''reg_change'' 5 s = Some s1"
    "stage (first_tasks @ [(Some Rec_change_verify, 200000)]) s1"
    "kept s1 = kept s" "dT_us s1 = dT_us s" "ptrSysTickISR s1 = ptrSysTickISR s"
    using stage_new [OF assms, of 5 Rec_change_verify "''reg_change''"] by (auto simp: len)
  obtain s2 where s2: "?n Rec_create_messages ''create_messages'' 4 s1 = Some s2" "stage (first_tasks @ late_tasks) s2"
    "kept s2 = kept s1" "dT_us s2 = dT_us s1" "ptrSysTickISR s2 = ptrSysTickISR s1"
    using stage_new [OF s1(2), of 4 Rec_create_messages "''create_messages''"] by (auto simp: len late_tasks_def)
  have "setup_late_tasks s = Some s2"
    unfolding setup_late_tasks_def by (simp only: s1(1) s2(1) Option.bind.simps)
  then show ?thesis using s1(3-5) s2(2-5) by simp
qed

text \<open>The frame that delays and rounds keep determines the stage.\<close>

lemma slots_frame: "slots s = map (\<lambda>t. (ptrFunc t, dt_us t)) (fst (frame s))"
  by (simp add: slots_def frame_def)

lemma table_ok_frame: "table_ok s \<longleftrightarrow> length (fst (frame s)) = Sys_task_max \<and>
    (\<forall>t\<in>set (fst (frame s)). length (TaskName t) = Sys_task_name_length)"
  by (simp add: table_ok_def frame_def)

lemma stage_frame:
  fixes s s' :: "'a tasks_scheme"
  assumes "frame s' = frame s"
  shows "stage xs s' \<longleftrightarrow> stage xs s"
proof -
  have "tasks_on s' = tasks_on s" "scheduler_on s' = scheduler_on s"
    using assms by (simp_all add: frame_def)
  then show ?thesis by (simp add: stage_def slots_frame table_ok_frame assms)
qed

section \<open>Pins, converter, registers\<close>

text \<open>What set-up starts from: the RAM as the C runtime leaves it, with sizes as declared.\<close>

definition power_on :: "'a flash_scheme \<Rightarrow> bool" where
  "power_on s \<longleftrightarrow> inputRefPin s = 0 \<and> outputRefPin s = 0 \<and> wf_int s \<and> intCount s = 0 \<and> SysTickCount s = 0 \<and>
     tasks_on s = 0 \<and> scheduler_on s = 0 \<and> pause s = 0 \<and> message_queue_lenght (mq s) = 0 \<and>
     wf_regs (regs s) \<and> wf_flash s"

definition core :: "'a device_scheme \<Rightarrow> i32 \<times> u64 \<times> msg_queue \<times> i32 \<times> i32 \<times> u32 \<times> u8 \<times> c_func option list \<times> c_func option list" where
  "core s = (pause s, SysTickCount s, mq s, tasks_on s, scheduler_on s, SystemCoreClock s, intCount s,
     ptrIsrFunc s, ptrIsrTimer s)"

text \<open>The drivers of pins and converter touch neither the registers nor the flash's copy.\<close>

definition rest :: "'a flash_scheme \<Rightarrow> reg_state \<times> nvm \<times> u8 list" where
  "rest s = (regs s, nvm s, eeprom_flash_Vet s)"

lemmas gpio_defs = gpio_ConfigPinOutput_def gpio_ConfigPinInput_def gpio_SetPin_def gpio_ClearPin_def
  gpio_ensureOn_def gpio_enableClock_def hw_write_def hw_or_def hw_and_def hw_read_def Let_def

lemma gpio_core [simp]:
  fixes s :: "'a device_scheme"
  shows "core (gpio_ConfigPinOutput p s) = core s" "core (gpio_ConfigPinInput p s) = core s"
    "core (gpio_SetPin p s) = core s" "core (gpio_ClearPin p s) = core s"
  by (simp_all add: core_def gpio_defs)

lemma gpio_rest [simp]:
  fixes s :: "'a flash_scheme"
  shows "rest (gpio_ConfigPinOutput p s) = rest s" "rest (gpio_ConfigPinInput p s) = rest s"
    "rest (gpio_SetPin p s) = rest s" "rest (gpio_ClearPin p s) = rest s"
  by (simp_all add: rest_def gpio_defs)

lemma gpio_pins [simp]:
  "inputRefPin (gpio_ConfigPinOutput p s) = inputRefPin s AND NOT (pin_bit p)"
  "outputRefPin (gpio_ConfigPinOutput p s) = outputRefPin s OR pin_bit p"
  "inputRefPin (gpio_ConfigPinInput p s) = inputRefPin s OR pin_bit p"
  "outputRefPin (gpio_ConfigPinInput p s) = outputRefPin s AND NOT (pin_bit p)"
  "inputRefPin (gpio_SetPin p s) = inputRefPin s" "outputRefPin (gpio_SetPin p s) = outputRefPin s"
  "inputRefPin (gpio_ClearPin p s) = inputRefPin s" "outputRefPin (gpio_ClearPin p s) = outputRefPin s"
  by (simp_all add: gpio_defs)

lemma setup_pins_run:
  fixes s :: "'a flash_scheme"
  assumes "inputRefPin s = 0" "outputRefPin s = 0" "wf_regs (regs s)"
  shows "\<exists>t r. setup_pins s = Some t \<and> core t = core s \<and> rest t = (r, snd (rest s)) \<and> wf_regs r \<and>
    wf_gpio t \<and> is_output Syspin_Pump t"
proof -
  obtain r where r: "reg_write_bool False Sys_RegMap_Pump (regs s) = Some r" "wf_regs r"
    using bools.wr_total [OF assms(3) pump_addr(1)] bools.wr_wf [OF assms(3) pump_addr(1)] by blast
  define a where "a = gpio_ConfigPinOutput Syspin_Pump (gpio_ConfigPinInput Syspin_nLink (gpio_ConfigPinInput Syspin_nReady
    (gpio_ClearPin Syspin_RESET (gpio_ConfigPinOutput Syspin_RESET (gpio_ClearPin Syspin_nReload
      (gpio_ConfigPinOutput Syspin_nReload s))))))"
  have a: "core a = core s" "rest a = rest s" by (simp_all add: a_def)
  then have "regs a = regs s" by (simp add: rest_def)
  define b where "b = a\<lparr>regs := r\<rparr>"
  define t where "t = gpio_ConfigPinInput Syspin_SensorDeFluxo (gpio_ConfigPinInput Syspin_Botoeira (gpio_SetPin Syspin_Pump b))"
  have "on_regs (reg_write_bool False Sys_RegMap_Pump) a = Some b"
    using r(1) \<open>regs a = regs s\<close> by (simp add: on_regs_def b_def)
  then have "setup_pins s = Some t" by (simp add: setup_pins_def Let_def a_def [symmetric] t_def)
  moreover have "core b = core s" "rest b = (r, snd (rest s))" "inputRefPin b = inputRefPin a" "outputRefPin b = outputRefPin a"
    using a by (simp_all add: b_def core_def rest_def)
  moreover from this have "inputRefPin t AND outputRefPin t = 0" "bit (outputRefPin t) 17"
    using assms(1,2) by (simp_all add: t_def a_def pin_bit_def Syspin_Pump_def Syspin_nLink_def Syspin_nReady_def
        Syspin_RESET_def Syspin_nReload_def Syspin_SensorDeFluxo_def Syspin_Botoeira_def)
  ultimately show ?thesis
    using r(2) by (intro exI [of _ t] exI [of _ r]) (simp add: t_def wf_gpio_def is_output_def pump_pin)
qed

lemma clock_fields [simp]:
  fixes s :: "'a device_scheme"
  shows "core (hw_write r v s) = core s" "core (hw_or r v s) = core s" "core (hw_and r v s) = core s"
    "core (disable_irq s) = core s" "core (enable_irq s) = core s" "core (s\<lparr>adcOn := a\<rparr>) = core s"
  by (simp_all add: core_def hw_or_def hw_and_def hw_read_def hw_write_def disable_irq_def enable_irq_def Let_def)

lemma rest_hw [simp]:
  fixes s :: "'a flash_scheme"
  shows "rest (hw_write r v s) = rest s" "rest (hw_or r v s) = rest s" "rest (hw_and r v s) = rest s"
    "rest (s\<lparr>adcOn := a\<rparr>) = rest s"
  by (simp_all add: rest_def hw_or_def hw_and_def hw_read_def hw_write_def Let_def)

lemma masks_hw [simp]:
  "inputRefPin (hw_write r v s) = inputRefPin s" "inputRefPin (hw_or r v s) = inputRefPin s"
  "inputRefPin (hw_and r v s) = inputRefPin s" "outputRefPin (hw_write r v s) = outputRefPin s"
  "outputRefPin (hw_or r v s) = outputRefPin s" "outputRefPin (hw_and r v s) = outputRefPin s"
  by (simp_all add: hw_or_def hw_and_def hw_read_def hw_write_def Let_def)

definition masks :: "'a gpio_scheme \<Rightarrow> u32 \<times> u32" where
  "masks s = (inputRefPin s, outputRefPin s)"

lemma masks_ready: "masks t = masks s \<Longrightarrow> (wf_gpio t \<longleftrightarrow> wf_gpio s) \<and> (is_output p t \<longleftrightarrow> is_output p s)"
  by (simp add: masks_def wf_gpio_def is_output_def)

lemma adc_Config_keeps:
  fixes s t :: "'a flash_scheme"
  assumes "adc_Config ch len s = (a, t)"
  shows "core t = core s" "rest t = rest s" "masks t = masks s"
  using assms by (auto simp: adc_Config_def adc_Begin_def Let_def masks_def)

lemma setup_adc_keeps:
  fixes s :: "'a recirc_scheme"
  shows "core (setup_adc s) = core s \<and> rest (setup_adc s) = rest s \<and> masks (setup_adc s) = masks s"
proof -
  have upd: "core (s\<lparr>adc_S1 := a\<rparr>) = core s" "core (s\<lparr>adc_S2 := a\<rparr>) = core s" "core (s\<lparr>adc_Vref := a\<rparr>) = core s"
    "core (s\<lparr>adc_Current := a\<rparr>) = core s" "rest (s\<lparr>adc_S1 := a\<rparr>) = rest s" "rest (s\<lparr>adc_S2 := a\<rparr>) = rest s"
    "rest (s\<lparr>adc_Vref := a\<rparr>) = rest s" "rest (s\<lparr>adc_Current := a\<rparr>) = rest s"
    "masks (s\<lparr>adc_S1 := a\<rparr>) = masks s" "masks (s\<lparr>adc_S2 := a\<rparr>) = masks s" "masks (s\<lparr>adc_Vref := a\<rparr>) = masks s"
    "masks (s\<lparr>adc_Current := a\<rparr>) = masks s" for s :: "'a recirc_scheme" and a
    by (simp_all add: core_def rest_def masks_def)
  obtain a1 s1 where 1: "adc_Config SysADC_TempS1 SysADCMeasureLenght s = (a1, s1)" by fastforce
  obtain a2 s2 where 2: "adc_Config SysADC_TempS2 SysADCMeasureLenght (s1\<lparr>adc_S1 := a1\<rparr>) = (a2, s2)" by fastforce
  obtain a3 s3 where 3: "adc_Config SysADC_VRef SysADCMeasureLenght (s2\<lparr>adc_S2 := a2\<rparr>) = (a3, s3)" by fastforce
  obtain a4 s4 where 4: "adc_Config SysADC_Current SysADCMeasureLenght (s3\<lparr>adc_Vref := a3\<rparr>) = (a4, s4)" by fastforce
  have "setup_adc s = s4\<lparr>adc_Current := a4\<rparr>" using 1 2 3 4 by (simp add: setup_adc_def Let_def)
  then show ?thesis
    by (simp add: upd adc_Config_keeps [OF 4] adc_Config_keeps [OF 3] adc_Config_keeps [OF 2] adc_Config_keeps [OF 1])
qed

text \<open>The start of the register banks uses the flash driver and the ROM; neither reaches the core.\<close>

definition same_core :: "'a flash_scheme \<Rightarrow> 'a flash_scheme \<Rightarrow> bool" where
  "same_core s t \<longleftrightarrow> core t = core s \<and> masks t = masks s"

lemma same_core_refl: "same_core s s"
  by (simp add: same_core_def)

lemma same_core_trans: "same_core s t \<Longrightarrow> same_core t u \<Longrightarrow> same_core s u"
  by (simp add: same_core_def)

lemma same_core_updates:
  "same_core s t \<Longrightarrow> same_core s (t\<lparr>regs := r\<rparr>)" "same_core s t \<Longrightarrow> same_core s (t\<lparr>eeprom_flash_Vet := v\<rparr>)"
  "same_core s t \<Longrightarrow> same_core s (t\<lparr>eeprom_on := b\<rparr>)"
  by (simp_all add: same_core_def core_def masks_def)

lemma iap_status_core: "iap_status rom cmd src s = (st, t) \<Longrightarrow> same_core s t"
  by (auto simp: iap_status_def iap_entry_def iap_entry_no_disable_irq_def disable_irq_def enable_irq_def
      same_core_def core_def masks_def split: prod.splits)

lemma commit_page_core: "commit_page rom i s = Some t \<Longrightarrow> same_core s t"
  by (auto simp: commit_page_def Let_def IAP_PrepareSectorForWrite_def IAP_CopyRamToFlash_def split: prod.splits
      dest!: iap_status_core intro: same_core_trans)

lemma eeprom_Commit_core:
  assumes "eeprom_Commit rom s = Some (st, t)"
  shows "same_core s t"
proof -
  obtain test where test: "commit_test (unat EEPROM_FLASH_SIZE) 0 s = Some test"
    using assms by (auto simp: eeprom_Commit_def Option.bind_eq_Some_conv)
  obtain st1 s1 where p: "IAP_PrepareSectorForWrite rom eeprom_flash_sector eeprom_flash_end_sector s = (st1, s1)" by fastforce
  obtain st2 s2 where e: "IAP_ErasePage rom eeprom_flash_page eeprom_flash_end_page s1 = (st2, s2)" by fastforce
  have s2: "same_core s s2"
    using same_core_trans [OF iap_status_core [OF p [unfolded IAP_PrepareSectorForWrite_def]]
        iap_status_core [OF e [unfolded IAP_ErasePage_def]]] .
  show ?thesis
  proof (cases test)
    case False
    then show ?thesis using assms test by (simp add: eeprom_Commit_def same_core_refl)
  next
    case True
    then have "for_loop 0 eeprom_flash_page_num (commit_page rom) s2 = Some t"
      using assms test p e by (auto simp: eeprom_Commit_def Option.bind_eq_Some_conv)
    from for_loop_inv [OF this, where P = "\<lambda>_. same_core s"] s2 show ?thesis
      using commit_page_core same_core_trans by blast
  qed
qed

lemma eeprom_Reset_core:
  assumes "eeprom_Reset rom s = Some (st, t)"
  shows "same_core s t"
proof -
  obtain u where u: "for_loop 0 (unat EEPROM_FLASH_SIZE) (\<lambda>i s. do {
       vet \<leftarrow> arr_set (eeprom_flash_Vet s) i 0xFF; Some (s\<lparr>eeprom_flash_Vet := vet\<rparr>) }) s = Some u"
    "\<exists>st. eeprom_Commit rom u = Some (st, t)"
    using assms by (auto simp: eeprom_Reset_def Option.bind_eq_Some_conv)
  have "same_core s u"
    by (rule for_loop_inv [OF u(1), where P = "\<lambda>_. same_core s"])
      (auto simp: Option.bind_eq_Some_conv same_core_refl intro: same_core_updates)
  then show ?thesis using u(2) eeprom_Commit_core same_core_trans by blast
qed

lemma reg_Begin_core:
  assumes "wf_flash s" "reg_Begin rom s = Some t"
  shows "same_core s t"
proof -
  obtain s1 where s1: "eeprom_Begin s = Some s1" using assms(2) by (auto simp: reg_Begin_def Option.bind_eq_Some_conv)
  then have c1: "same_core s s1"
    using eeprom_Begin_eq [OF assms(1)] by (auto simp: same_core_def core_def masks_def split: if_splits)
  obtain bs st where bs: "eeprom_ReadVet (ucast reg_mem_size) 0 s1 = Some (bs, st)"
    using assms(2) s1 by (auto simp: reg_Begin_def Option.bind_eq_Some_conv)
  define u where "u = s1\<lparr>regs := reg_load bs (regs s1)\<rparr>"
  define v where "v = u\<lparr>regs := reg_load (payload_bytes (data nv_defaults)) (regs u)\<rparr>"
  have u: "same_core s u" unfolding u_def by (rule same_core_updates(1) [OF c1])
  then have v: "same_core s v" unfolding v_def by (rule same_core_updates(1))
  have run: "do { model \<leftarrow> arr_get (short_reg_vet (regs u)) (nat (Sys_RegMap_GetIndex Sys_RegMap_Model));
      if model = Sys_equip_code then Some u
      else do { (st, s) \<leftarrow> eeprom_Reset rom v; (st, s) \<leftarrow> eeprom_Commit rom s; Some s } } = Some t"
    using assms(2) by (simp only: reg_Begin_def s1 bs Let_def Option.bind.simps prod.case u_def v_def)
  then obtain model where m: "(if model = Sys_equip_code then Some u
      else do { (st, s) \<leftarrow> eeprom_Reset rom v; (st, s) \<leftarrow> eeprom_Commit rom s; Some s }) = Some t"
    by (auto simp: Option.bind_eq_Some_conv)
  show ?thesis
  proof (cases "model = Sys_equip_code")
    case True
    then show ?thesis using m u by simp
  next
    case False
    then obtain st2 s2 st3 where "eeprom_Reset rom v = Some (st2, s2)" "eeprom_Commit rom s2 = Some (st3, t)"
      using m by (auto simp: Option.bind_eq_Some_conv)
    then show ?thesis using v eeprom_Reset_core eeprom_Commit_core same_core_trans by metis
  qed
qed

lemma reg_Begin_run:
  assumes "wf_flash s" "rom_refuses rom prepared" "\<not> prepared (nvm s)" "wf_regs (regs s)"
  shows "\<exists>t. reg_Begin rom s = Some t \<and> wf_regs (regs t) \<and> same_core s t"
proof -
  obtain t where t: "reg_Begin rom s = Some t"
    "stored_model s = Sys_equip_code \<longrightarrow> regs t = reg_load (stored_image s) (regs s)"
    "stored_model s \<noteq> Sys_equip_code \<longrightarrow> regs t = (regs s)\<lparr>bool_reg_vet := bools (data nv_defaults),
         short_reg_vet := shorts (data nv_defaults), int_reg_vet := ints (data nv_defaults)\<rparr>"
    using reg_Begin_outcome [OF assms(1-3)] by blast
  have "length (stored_image s) = 784" using assms(1) by (simp add: stored_image_def wf_flash_def)
  then have "wf_regs (regs t)"
    using t(2,3) wf_reg_load by (cases "stored_model s = Sys_equip_code") (simp_all add: wf_regs_def)
  then show ?thesis using t(1) reg_Begin_core [OF assms(1) t(1)] by blast
qed

end
