(* ===== verification/Ring_Slots.thy ===== *)
theory Ring_Slots
  imports Main_Rounds
begin

text \<open>
  Every slot of the ring, also those outside its content, holds a message the loop can handle. The
  loop's removal of the head lets such a slot into the content when an interrupt queues a message at
  the wrong moment, so under preemption the invariant has to speak about all of them.
\<close>

section \<open>All slots\<close>

definition owned :: "msg_queue \<Rightarrow> bool" where
  "owned q \<longleftrightarrow> (\<forall>e\<in>set (Queue q). own_message (message e))"

lemma owned_init: "owned (message_Init q)"
  by (simp add: owned_def message_Init_def)

lemma owned_slot: "inv_queue q \<Longrightarrow> owned q \<Longrightarrow> own_message (slot q i)"
  by (simp add: owned_def slot_def inv_queueD(1))

lemma owned_content: "inv_queue q \<Longrightarrow> owned q \<Longrightarrow> \<forall>m\<in>set (queue_content q). own_message m"
  by (auto simp: queue_content_def owned_slot simp del: upt_Suc)

lemma owned_update:
  "owned q \<Longrightarrow> own_message m \<Longrightarrow> owned (q\<lparr>Queue := (Queue q)[p := e\<lparr>message := m\<rparr>]\<rparr>)"
  by (auto simp: owned_def dest!: set_update_subset_insert [THEN subsetD])

lemma owned_fields [simp]:
  "owned (q\<lparr>ptrQueue := p\<rparr>) = owned q" "owned (q\<lparr>message_queue_lenght := n\<rparr>) = owned q"
  by (simp_all add: owned_def)

lemma set_message_owned: "set_message p m q = Some q' \<Longrightarrow> owned q \<Longrightarrow> own_message m \<Longrightarrow> owned q'"
  by (auto simp: set_message_def arr_set_def Option.bind_eq_Some_conv owned_update split: if_splits)

lemma message_New_owned: "message_New m q = Some (st, q') \<Longrightarrow> owned q \<Longrightarrow> own_message m \<Longrightarrow> owned q'"
  by (auto simp: message_New_def Let_def Option.bind_eq_Some_conv split: if_splits dest: set_message_owned)

section \<open>Steps that keep them\<close>

definition owns :: "'a device_scheme option \<Rightarrow> bool" where
  "owns r \<longleftrightarrow> (\<forall>s. r = Some s \<longrightarrow> owned (mq s))"

lemma owns_Some: "owned (mq s) \<Longrightarrow> owns (Some s)"
  by (simp add: owns_def)

lemma owns_bind:
  fixes x :: "'a device_scheme option" and f :: "'a device_scheme \<Rightarrow> 'a device_scheme option"
  shows "owns x \<Longrightarrow> (\<And>s. owned (mq s) \<Longrightarrow> owns (f s)) \<Longrightarrow> owns (x \<bind> f)"
  by (auto simp: owns_def Option.bind_eq_Some_conv)

lemma owns_if: "(c \<Longrightarrow> owns x) \<Longrightarrow> (\<not> c \<Longrightarrow> owns y) \<Longrightarrow> owns (if c then x else y)"
  by simp

lemma owns_post: "owned (mq s) \<Longrightarrow> own_message m \<Longrightarrow> owns (post m s)"
  by (auto simp: owns_def post_def new_message_def Option.bind_eq_Some_conv dest: message_New_owned)

lemma owns_store: "owned (mq s) \<Longrightarrow> own_message m \<Longrightarrow> owns (store_head m s)"
  by (auto simp: owns_def store_head_def Option.bind_eq_Some_conv dest: set_message_owned)

lemma owns_regs: "owned (mq s) \<Longrightarrow> owns (on_regs f s)"
  by (auto simp: owns_def on_regs_eq_Some)

lemmas owns_rules = owns_Some owns_bind owns_if owns_post owns_store owns_regs

lemma owns_change: "owned (mq s) \<Longrightarrow> owns (Reg_chage ad flag s)"
  unfolding Reg_chage_eq by (intro owns_rules own_messages | assumption)+

lemma bus_only_owned:
  fixes s t :: "'a rtc_scheme"
  shows "bus_only s t \<Longrightarrow> owned (mq t) = owned (mq s)"
  using bus_only_quiet [of s t] by simp

section \<open>The answers\<close>

lemma owns_setValue:
  fixes s :: "'a rtc_scheme"
  shows "owned (mq s) \<Longrightarrow> owns (RTC_setValue v s)"
  using setValue_total [of v s] by (auto simp: owns_def bus_only_owned)

lemma report_owned:
  fixes s s' :: "'a rtc_scheme"
  assumes own: "owned (mq s)" and run: "Report_Slave_ID m s = Some (st, s')"
  shows "owned (mq s')"
proof (cases "addr m = SysI2C_ADDR_WiFi")
  case False
  then show ?thesis using assms by (simp add: Report_Slave_ID_def)
next
  case True
  obtain reply s1 where r: "read_reply (addr m) 16 s = Some (reply, s1)" "bus_only s s1"
    using read_reply_total [of 16 16 "addr m" s] by auto
  then have s1: "owned (mq s1)" using own by (simp add: bus_only_owned)
  show ?thesis
  proof (cases reply)
    case None
    then show ?thesis using True r(1) run s1 by (simp add: Report_Slave_ID_def)
  next
    case (Some bs)
    then have "(\<exists>v b c flag. on_regs (store_int (Reg_Vet 272) v) s1 = Some b \<and> RTC_setValue v b = Some c \<and>
        Reg_chage SysI2C_ADDR_WiFi flag c = Some s') \<or> (\<exists>flag. Reg_chage SysI2C_ADDR_WiFi flag s1 = Some s')"
      using True r(1) run unfolding Report_Slave_ID_def pointers
      by (simp add: Option.bind_eq_Some_conv split: if_splits) blast
    then show ?thesis using s1 owns_regs owns_setValue owns_change unfolding owns_def by metis
  qed
qed

lemma answer_owned:
  fixes s s' :: "'a rtc_scheme"
  assumes inv: "loop_inv n s" "owned (mq s)" and m: "own_message m" and run: "take_answer st m s = Some (st', s')"
  shows "owned (mq s')"
proof -
  consider "code m = 0" | "code m = Modbus_Report_Slave_ID" | "code m = Modbus_Set_Mult_Num_Reg"
    using m by (auto simp: own_message_def)
  then show ?thesis
  proof cases
    case 1
    then show ?thesis using run inv(2) by (simp add: take_answer_def codes)
  next
    case 2
    then have "take_answer st m s = Report_Slave_ID m s" by (simp add: take_answer_def codes)
    then have "Report_Slave_ID m s = Some (st', s')" using run by simp
    then show ?thesis by (rule report_owned [OF inv(2)])
  next
    case 3
    then have "take_answer st m s = Generic_Set_Reg m s" "code m \<noteq> Modbus_Diagnostics"
      by (simp_all add: take_answer_def codes Set_Mult_Num_Reg_def)
    moreover have "5 \<le> length (payload (ptrMessage m) (regs s))"
      using own_payload(3) [OF m _ 3] inv(1) by (simp add: loop_inv_def)
    ultimately have "bus_only s s'" using Generic_Set_Reg_total [of m s] run by auto
    then show ?thesis using inv(2) by (simp add: bus_only_owned)
  qed
qed

section \<open>The functions behind the pointers\<close>

lemma create_messages_owned:
  fixes s s' :: "'a recirc_scheme"
  assumes ok: "ring_ok s" "owned (mq s)" and run: "rec_create_messages s = Some s'"
  shows "owned (mq s')"
proof -
  obtain q where q: "post status_message s = Some (s\<lparr>mq := q\<rparr>)"
    using post_ring [OF ok(1) own_reports(1)] by blast
  then have "owned q" using owns_post [OF ok(2) own_reports(1)] by (simp add: owns_def)
  then have "owns (rec_create_messages s)"
    using create_messages_code [OF _ q] ok(1) by (auto simp: ring_ok_def intro: owns_rules)
  then show ?thesis using run by (simp add: owns_def)
qed

lemma change_verify_owned:
  fixes s s' :: "'a recirc_scheme"
  assumes "owned (mq s)" "rec_change_verify s = Some s'"
  shows "owned (mq s')"
proof -
  have "owns (rec_change_verify s)"
    using assms(1) unfolding change_verify_code Let_def
    by (auto split: list.split intro!: owns_bind owns_post owns_Some dest: announced_own)
  then show ?thesis using assms(2) by (simp add: owns_def)
qed

lemma task_body_owned:
  fixes s s' :: "'a recirc_scheme"
  assumes ok: "ring_ok s" "owned (mq s)" and run: "task_body f arg s = Some s'"
  shows "owned (mq s')"
proof (cases "f \<in> {Rec_create_messages, Rec_change_verify}")
  case True
  then show ?thesis
    using create_messages_owned [OF ok] change_verify_owned [OF ok(2)] run by (auto simp: task_body_def)
next
  case False
  have wf: "wf_regs (regs s)" using ok(1) by (simp add: ring_ok_def)
  have "quiet_step (mq s) (rec_isr_Flow s)" using wf by (simp add: quiet_step_def rec_isr_Flow_def)
  then have "quiet_step (mq s) (task_body f arg s) \<or> quietly (mq s) (task_body f arg s)"
    using False quietly_measurements [OF wf refl] RTC_loop_quietly [OF wf refl] quiet_control [OF wf refl]
      quiet_system [OF wf refl] quiet_button [OF wf refl] quiet_error [OF wf refl] quiet_timestamp [OF wf refl]
    by (cases f) (simp_all add: task_body_def quietly_def)
  then have "mq s' = mq s" using run by (auto simp: quiet_step_def quietly_def)
  then show ?thesis using ok(2) by simp
qed

section \<open>An interrupt\<close>

text \<open>What a tick is: it counts, it may store the start of a slot, it may run one function.\<close>

lemma tick_cases:
  fixes s s' :: "'a recirc_scheme"
  assumes run: "SysTick_Handler (isr_call body) s = Some s'" and len: "length (task_vet s) = Sys_task_max"
  obtains t where "t = tick s \<or> (\<exists>j<length (task_vet s). t = start_slot (tick s) j)"
    "s' = t \<or> (\<exists>f arg. body f arg t = Some s')"
proof (cases "ptrSysTickISR s")
  case None
  then show ?thesis using that [of "tick s"] run by (simp add: SysTick_Handler_def tick_def Let_def)
next
  case (Some f)
  then have f: "isr_call body f (tick s) = Some s'" using run by (simp add: SysTick_Handler_def tick_def Let_def)
  show ?thesis
  proof (cases "f = IsrScheduler \<and> pause s = 0")
    case False
    then show ?thesis
      using that [of "tick s"] f by (auto simp: isr_call_def isrScheduler_def tick_def split: if_splits)
  next
    case True
    then have "(case chosen (tick s) of None \<Rightarrow> Some (tick s) | Some j \<Rightarrow> run_slot body (tick s) j) = Some s'"
      using scheduler_loop_find [of 0 Sys_task_max "tick s" body] len f
      by (simp add: isr_call_def isrScheduler_def chosen_def tick_def)
    moreover have "chosen (tick s) = Some j \<Longrightarrow> j < length (task_vet s)" for j
      using len find_chosen_bounds by (fastforce simp: chosen_def)
    ultimately consider "s' = tick s"
      | j where "j < length (task_vet s)" "\<exists>f arg. body f arg (start_slot (tick s) j) = Some s'"
      by (cases "chosen (tick s)") (auto simp: run_slot_def)
    then show ?thesis using that by cases blast+
  qed
qed

text \<open>Any function that runs in an interrupt, and a tick.\<close>

lemma body_step:
  fixes s s' :: "'a recirc_scheme"
  assumes "loop_inv n s" "owned (mq s)" "task_body f arg s = Some s'"
  shows "calm n s s' \<and> owned (mq s')"
proof -
  have "ring_ok s" using assms(1) by (simp add: loop_inv_ring)
  from task_body_ring [OF this assms(3)] task_body_owned [OF this assms(2,3)] show ?thesis
    using assms(1) by (simp add: calm_def loop_inv_ring sched_view_def frame_def)
qed

lemma tick_keeps:
  fixes s s' :: "'a recirc_scheme"
  assumes inv: "loop_inv (Suc n) s" "owned (mq s)" and len: "length (task_vet s) = Sys_task_max"
    and run: "SysTick_Handler (isr_call task_body) s = Some s'"
  shows "loop_inv n s' \<and> appended s s' \<and> frame s' = frame s \<and> owned (mq s')"
proof -
  have t0: "loop_inv n (tick s)" "length (task_vet (tick s)) = length (task_vet s)" "frame (tick s) = frame s"
    "mq (tick s) = mq s"
    using loop_inv_tick(1) [OF inv(1)] by (simp_all add: tick_def)
  obtain t where t: "t = tick s \<or> (\<exists>j<length (task_vet s). t = start_slot (tick s) j)"
    "s' = t \<or> (\<exists>f arg. task_body f arg t = Some s')"
    using tick_cases [OF run len] by blast
  have c: "calm n (tick s) t \<and> owned (mq t)"
    using t(1) start_slot_calm [OF t0(1)] calm_refl [OF t0(1)] t0(2,4) inv(2) by (auto simp: start_slot_def)
  then have "loop_inv n t" by (simp add: calm_def)
  then have "calm n t s' \<and> owned (mq s')" using t(2) body_step c calm_refl by blast
  then have "calm n (tick s) s' \<and> owned (mq s')" using c calm_trans by blast
  then show ?thesis using t0(3,4) by (simp add: calm_def appended_def)
qed

section \<open>Delays\<close>

text \<open>Set-up waits while interrupts run, so what they keep also holds after its delays.\<close>

lemma wait_until_keeps:
  assumes "wait_until idle stop s = Some t" "P s" "\<And>s s'. P s \<Longrightarrow> idle s = Some s' \<Longrightarrow> P s'"
  shows "P t"
proof -
  have "(\<forall>s s'. P s \<longrightarrow> idle s = Some s' \<longrightarrow> P s') \<longrightarrow> P s \<longrightarrow> P t"
  proof (rule wait_until.raw_induct [where P = "\<lambda>i c s t. (\<forall>s s'. P s \<longrightarrow> i s = Some s' \<longrightarrow> P s') \<longrightarrow> P s \<longrightarrow> P t",
      OF _ assms(1)], intro impI)
    fix w i c s t
    assume IH: "\<And>i c s t. w i c s = Some t \<Longrightarrow> (\<forall>s s'. P s \<longrightarrow> i s = Some s' \<longrightarrow> P s') \<longrightarrow> P s \<longrightarrow> P t"
      and step: "(if c s then Some s else i s \<bind> w i c) = Some t"
      and keep: "\<forall>s s'. P s \<longrightarrow> i s = Some s' \<longrightarrow> P s'" and s: "P s"
    show "P t"
    proof (cases "c s")
      case True
      then show ?thesis using step s by simp
    next
      case False
      then obtain u where "i s = Some u" "w i c u = Some t" using step by (auto simp: Option.bind_eq_Some_conv)
      then show ?thesis using IH [of i c u t] keep s by blast
    qed
  qed
  then show ?thesis using assms(2,3) by blast
qed

definition ring_safe :: "'a device_scheme \<Rightarrow> bool" where
  "ring_safe s \<longleftrightarrow> ring_ok s \<and> owned (mq s) \<and> length (task_vet s) = Sys_task_max"

lemma skip_failing_safe:
  fixes s s' :: "'a recirc_scheme"
  assumes "ring_safe s" "skip_failing f arg s = Some s'"
  shows "ring_safe s'"
proof (cases "task_body f arg s")
  case None
  then show ?thesis using assms by (simp add: skip_failing_def)
next
  case (Some u)
  moreover have ok: "ring_ok s" "owned (mq s)" using assms(1) by (simp_all add: ring_safe_def)
  ultimately show ?thesis
    using assms task_body_ring [OF ok(1) Some] task_body_owned [OF ok Some]
    by (simp add: skip_failing_def ring_safe_def sched_view_def)
qed

lemma background_safe:
  fixes s s' :: "'a recirc_scheme"
  assumes safe: "ring_safe s" and run: "background pin s = Some s'"
  shows "ring_safe s'"
proof -
  obtain u where u: "SysTick_Handler (isr_call skip_failing) s = Some u"
    "(case pin u of None \<Rightarrow> Some u
      | Some f \<Rightarrow> if f \<in> {Rec_isr_Botoeira, Rec_isr_Flow} then skip_failing f 0 u else Some u) = Some s'"
    using run by (auto simp: interrupts_def Option.bind_eq_Some_conv)
  have len: "length (task_vet s) = Sys_task_max" using safe by (simp add: ring_safe_def)
  obtain t where t: "t = tick s \<or> (\<exists>j<length (task_vet s). t = start_slot (tick s) j)"
    "u = t \<or> (\<exists>f arg. skip_failing f arg t = Some u)"
    using tick_cases [OF u(1) len] by blast
  have "ring_safe t" using t(1) safe by (auto simp: ring_safe_def ring_ok_def tick_def start_slot_def)
  then have "ring_safe u" using t(2) skip_failing_safe by blast
  then show ?thesis using u(2) skip_failing_safe by (auto split: option.splits if_splits)
qed

lemma delay_safe:
  fixes s s' :: "'a recirc_scheme"
  shows "ring_safe s \<Longrightarrow> task_delay_ms (background pin) ms s = Some s' \<Longrightarrow> ring_safe s'"
  unfolding task_delay_ms_def Let_def by (erule wait_until_keeps) (auto intro: background_safe)

end
