(* ===== verification/Startup.thy ===== *)
theory Startup
  imports Setup_Steps Ring_Slots
begin

text \<open>
  The start of the firmware as a whole: interrupts, bus, ring of messages, tasks, the two delays, the
  clock chip and then the loop.
\<close>

section \<open>Interrupts, bus and clock chip\<close>

definition scene :: "'a device_scheme \<Rightarrow> (i32 \<times> u64 \<times> msg_queue \<times> reg_state \<times> u32 \<times> u32) \<times> i32 \<times> i32 \<times> u32" where
  "scene s = (kept s, tasks_on s, scheduler_on s, SystemCoreClock s)"

lemma scene_hw [simp]:
  fixes s :: "'a device_scheme"
  shows "scene (hw_write r v s) = scene s" "scene (hw_or r v s) = scene s" "scene (hw_and r v s) = scene s"
    "scene (disable_irq s) = scene s" "scene (enable_irq s) = scene s"
    "scene (NVIC_EnableIRQ n s) = scene s" "scene (NVIC_DisableIRQ n s) = scene s"
    "scene (s\<lparr>ptrIsrFunc := fs, intCount := c\<rparr>) = scene s" "scene (s\<lparr>I2C_mode := m\<rparr>) = scene s"
  by (simp_all add: scene_def kept_def hw_or_def hw_and_def hw_read_def hw_write_def disable_irq_def enable_irq_def
      NVIC_EnableIRQ_def NVIC_DisableIRQ_def Let_def)

lemma scene_nvic_all [simp]:
  fixes s :: "'a device_scheme"
  shows "scene (nvic_all NVIC_EnableIRQ n s) = scene s" "scene (nvic_all NVIC_DisableIRQ n s) = scene s"
  by (induction n) simp_all

lemma extern_interrupt_scene:
  fixes s :: "'a device_scheme"
  assumes "wf_int s" "intCount s < 8"
  shows "\<exists>t. newExternInterrupt pin (Some f) trig s = Some t \<and> wf_int t \<and> intCount t = intCount s + 1 \<and>
    scene t = scene s"
proof -
  obtain t where t: "newExternInterrupt pin (Some f) trig s = Some t"
    "ptrIsrFunc t = (ptrIsrFunc s)[unat (intCount s) := Some f]" "ptrIsrTimer t = ptrIsrTimer s"
    "intCount t = intCount s + 1"
    using newExternInterrupt_ok [OF assms] by blast
  have "unat (intCount s) < 8" using assms(2) by (simp add: word_less_nat_alt)
  then have "unat (intCount s + 1) \<le> 8" by (subst unat_add_lem [THEN iffD1]) simp_all
  then have "wf_int t" using assms(1) t by (simp add: wf_int_def)
  moreover have "scene t = scene s"
  proof -
    have "unat (intCount s) < length (ptrIsrFunc s)" using assms by (simp add: wf_int_def word_less_nat_alt)
    moreover have "\<not> 8 \<le> intCount s" using assms(2) by simp
    ultimately have "scene (the (newExternInterrupt pin (Some f) trig s)) = scene s"
      by (cases "intCount s = 0") (simp_all add: newExternInterrupt_def Let_def)
    then show ?thesis by (simp add: t(1))
  qed
  ultimately show ?thesis using t by blast
qed

text \<open>With a 15 MHz clock the search for a divider ends in its second step.\<close>

lemma i2cBegin_scene:
  fixes s :: "'a device_scheme"
  assumes "SystemCoreClock s = 15000000"
  shows "\<exists>t. i2cBegin ad sda scl SysI2CBaudRate i2cModeMaster s = Some t \<and> scene t = scene s"
proof -
  have eight: "(8 :: nat) = Suc (Suc (Suc (Suc (Suc (Suc (Suc (Suc 0)))))))" by simp
  obtain d c where dc: "baud_loop 8 9 SysI2CBaudRate 15000000 (0, 0, 0) = Some (d, c)"
    unfolding eight by (simp add: SysI2CBaudRate_def)
  define a where "a = i2c_pins_and_clock sda scl s"
  have a: "scene a = scene s" by (simp add: a_def i2c_pins_and_clock_def Let_def)
  then have "SystemCoreClock a = 15000000" using assms by (simp add: scene_def)
  then have "i2cBegin ad sda scl SysI2CBaudRate i2cModeMaster s \<noteq> None"
    "scene (the (i2cBegin ad sda scl SysI2CBaudRate i2cModeMaster s)) = scene s"
    using a dc by (simp_all add: i2cBegin_def i2cModeMaster_def a_def [symmetric] I2C_PrimarySetBaudRate_def Let_def)
  then show ?thesis by auto
qed

lemma resynchronization_ring:
  fixes s t :: "'a rtc_scheme"
  assumes "RTC_resynchronization s = Some t" "ring_ok s"
  shows "ring_ok t"
  using resynchronization_quiet [OF assms(1)] assms(2) by (simp add: ring_ok_def)

section \<open>From power on to the loop\<close>

lemma power_on_clock:
  fixes a s :: "'a recirc_scheme"
  assumes "hw.more a = hw.more s" "power_on s"
  shows "power_on (clock_Exit a) \<and> SystemCoreClock (clock_Exit a) = 15000000 \<and> nvm (clock_Exit a) = nvm s"
  using assms by (cases a; cases s) (simp add: power_on_def clock_Exit_def wf_int_def wf_flash_def)

text \<open>The first half, up to the first delay, without the tasks: pins, converter and registers \<dots>\<close>

lemma setup_inputs_run:
  fixes s :: "'a recirc_scheme"
  assumes on: "power_on s" and rom: "rom_refuses rom prepared" "\<not> prepared (nvm s)"
  shows "\<exists>t. do {
     s \<leftarrow> setup_pins s;
     let s = setup_adc s;
     s \<leftarrow> reg_Begin rom s;
     Some (s\<lparr>temp_S1 := th1, temp_S2 := th2\<rparr>) } = Some t \<and> core t = core s \<and> pump_ready t"
proof -
  obtain a r where a: "setup_pins s = Some a" "core a = core s" "rest a = (r, snd (rest s))" "wf_regs r"
    "wf_gpio a" "is_output Syspin_Pump a"
    using setup_pins_run [of s] on by (auto simp: power_on_def)
  define b where "b = setup_adc a"
  have b: "core b = core s" "rest b = (r, snd (rest s))" "masks b = masks a"
    using setup_adc_keeps [of a] a by (simp_all add: b_def)
  then have "wf_flash b" "nvm b = nvm s" "wf_regs (regs b)"
    using on a(4) by (simp_all add: rest_def power_on_def wf_flash_def)
  then obtain c where c: "reg_Begin rom b = Some c" "wf_regs (regs c)" "same_core b c"
    using reg_Begin_run [of b rom prepared] rom by auto
  define d where "d = c\<lparr>temp_S1 := th1, temp_S2 := th2\<rparr>"
  have d: "core d = core s" "masks d = masks a" "wf_regs (regs d)"
    using c b by (simp_all add: d_def same_core_def core_def masks_def)
  then have "pump_ready d" using masks_ready [OF d(2)] a(5,6) by (simp add: pump_ready_def)
  moreover have "do {
     s \<leftarrow> setup_pins s;
     let s = setup_adc s;
     s \<leftarrow> reg_Begin rom s;
     Some (s\<lparr>temp_S1 := th1, temp_S2 := th2\<rparr>) } = Some d"
    by (simp only: a(1) Option.bind.simps Let_def b_def [symmetric] c(1) d_def [symmetric])
  ultimately show ?thesis using d(1) by blast
qed

text \<open>\<dots> then interrupts, ring and bus.\<close>

lemma setup_lines_run:
  fixes s :: "'a recirc_scheme"
  assumes int: "wf_int s" "intCount s = 0" and len: "message_queue_lenght (mq s) = 0"
    and clk: "SystemCoreClock s = 15000000" and ready: "pump_ready s"
  shows "\<exists>t. do {
     s \<leftarrow> newExternInterrupt p1 (Some f1) t1 s;
     s \<leftarrow> newExternInterrupt p2 (Some f2) t2 s;
     let s = s\<lparr>mq := message_Init (mq s)\<rparr>;
     i2cBegin ad sda scl SysI2CBaudRate i2cModeMaster s } = Some t \<and>
   ring_ok t \<and> owned (mq t) \<and> pump_ready t \<and> scene t = scene (s\<lparr>mq := message_Init (mq s)\<rparr>)"
proof -
  obtain e where e: "newExternInterrupt p1 (Some f1) t1 s = Some e" "wf_int e" "intCount e = intCount s + 1"
    "scene e = scene s"
    using extern_interrupt_scene [of s p1 f1 t1] int by auto
  obtain f where f: "newExternInterrupt p2 (Some f2) t2 e = Some f" "scene f = scene e"
    using extern_interrupt_scene [of e p2 f2 t2] e(2,3) int(2) by auto
  define g where "g = f\<lparr>mq := message_Init (mq f)\<rparr>"
  have g: "scene g = scene (s\<lparr>mq := message_Init (mq s)\<rparr>)" "SystemCoreClock g = 15000000" "wf_regs (regs g)"
    "message_queue_lenght (mq f) = 0"
    using f(2) e(4) len clk ready by (simp_all add: g_def scene_def kept_def pump_ready_def)
  have ring: "ring_ok g"
    using inv_message_Init [OF g(4)] content_message_Init [OF g(4)] g(3) by (simp add: ring_ok_def g_def)
  obtain t where t: "i2cBegin ad sda scl SysI2CBaudRate i2cModeMaster g = Some t" "scene t = scene g"
    using i2cBegin_scene [OF g(2), of ad sda scl] by blast
  have m: "masks t = masks s" "wf_regs (regs t)"
    using t(2) g(1,3) by (simp_all add: scene_def kept_def masks_def)
  have "ring_ok t" using t(2) ring by (simp add: ring_ok_def scene_def kept_def)
  moreover have "owned (mq t)" using t(2) owned_init by (simp add: g_def scene_def kept_def)
  moreover have "pump_ready t" using masks_ready [OF m(1)] ready m(2) by (simp add: pump_ready_def)
  moreover have "do {
     s \<leftarrow> newExternInterrupt p1 (Some f1) t1 s;
     s \<leftarrow> newExternInterrupt p2 (Some f2) t2 s;
     let s = s\<lparr>mq := message_Init (mq s)\<rparr>;
     i2cBegin ad sda scl SysI2CBaudRate i2cModeMaster s } = Some t"
    by (simp only: Option.bind.simps Let_def e(1) f(1) g_def [symmetric] t(1))
  ultimately show ?thesis using t(2) g(1) by simp
qed

text \<open>A state in which interrupts are served and the loop may run for so many ticks.\<close>

definition in_service :: "(c_func option \<times> u32) list \<Rightarrow> nat \<Rightarrow> 'a device_scheme \<Rightarrow> bool" where
  "in_service xs n s \<longleftrightarrow> loop_inv n s \<and> pump_ready s \<and> pause s = 0 \<and> dT_us s = 500 \<and>
     ptrSysTickISR s = Some IsrScheduler \<and> stage xs s"

lemma service_table: "in_service xs n s \<Longrightarrow> length (task_vet s) = Sys_task_max"
  by (simp add: in_service_def stage_def table_ok_def)

text \<open>Whatever keeps the frame, the invariant of the loop and the pause flag keeps the service.\<close>

lemma service_frame:
  fixes s t :: "'a device_scheme"
  assumes "in_service xs n s" "loop_inv m t" "frame t = frame s" "pause t = pause s"
  shows "in_service xs m t"
proof -
  have "masks t = masks s" "dT_us t = dT_us s" "ptrSysTickISR t = ptrSysTickISR s"
    using assms(3) by (simp_all add: frame_def masks_def)
  then show ?thesis
    using assms masks_ready [of t s] stage_frame [OF assms(3)]
    by (simp add: in_service_def pump_ready_def loop_inv_def)
qed

lemma service_new:
  fixes s :: "'a device_scheme"
  assumes "in_service xs n s" "kept t = kept s" "stage ys t" "dT_us t = dT_us s" "ptrSysTickISR t = ptrSysTickISR s"
  shows "in_service ys n t"
proof -
  have "loop_inv n s" using assms(1) by (simp add: in_service_def)
  then have "loop_inv n t" using assms(2,4) by (simp add: loop_inv_def kept_def)
  then show ?thesis
    using assms masks_ready [of t s] by (simp add: in_service_def pump_ready_def kept_def masks_def)
qed

lemma service_sched:
  fixes s t :: "'a device_scheme"
  assumes "in_service xs n s" "ring_ok t" "sched_view t = sched_view s"
  shows "in_service xs n t"
proof -
  have "frame t = frame s" "pause t = pause s" "SysTickCount t = SysTickCount s" "dT_us t = dT_us s"
    using assms(3) by (simp_all add: sched_view_def frame_def)
  moreover have "loop_inv n s" using assms(1) by (simp add: in_service_def)
  ultimately have "loop_inv n t" using assms(2) by (simp add: loop_inv_ring)
  then show ?thesis using service_frame [OF assms(1)] \<open>frame t = frame s\<close> \<open>pause t = pause s\<close> by blast
qed

lemma service_delay:
  fixes s :: "'a recirc_scheme"
  assumes "in_service xs (n + 1000 * unat ms) s" "owned (mq s)"
  shows "\<exists>t. task_delay_ms (background pin) ms s = Some t \<and> in_service xs n t \<and> owned (mq t)"
proof -
  have safe: "ring_safe s"
    using assms service_table [OF assms(1)] by (simp add: ring_safe_def in_service_def loop_inv_ring)
  have "(\<lambda>(vet, _). length vet = Sys_task_max) (frame s)"
    using service_table [OF assms(1)] by (simp add: frame_def)
  from busy.delay_returns [OF _ this, of n ms pin] assms obtain t where
    "task_delay_ms (background pin) ms s = Some t" "loop_inv n t" "frame t = frame s" "pause t = pause s"
    by (auto simp: in_service_def)
  then show ?thesis using service_frame [OF assms(1)] delay_safe [OF safe] by (auto simp: ring_safe_def)
qed

text \<open>The second half: the tasks and the two delays.\<close>

lemma setup_service_run:
  fixes s :: "'a recirc_scheme"
  assumes s: "ring_ok s" "owned (mq s)" "pump_ready s" "pause s = 0" "SysTickCount s = 0" "tasks_on s = 0" "scheduler_on s = 0"
      "SystemCoreClock s = 15000000"
    and time: "500 * (n + 5000000) < 2 ^ 64"
  shows "\<exists>t. do {
     s \<leftarrow> setup_tasks s; s \<leftarrow> task_delay_ms (background pin) 4000 s; s \<leftarrow> setup_late_tasks s;
     task_delay_ms (background pin) 1000 s } = Some t \<and> in_service (first_tasks @ late_tasks) n t \<and> owned (mq t)"
proof -
  obtain c where c: "setup_tasks s = Some c" "stage first_tasks c" "kept c = kept s" "dT_us c = 500"
    "ptrSysTickISR c = Some IsrScheduler"
    using setup_tasks_run [OF s(6-8)] by blast
  have dt: "unat (dT_us c) = 500" using c(4) by simp
  have same: "mq c = mq s" "regs c = regs s" "SysTickCount c = 0" "pause c = 0" "masks c = masks s"
    using c(3) s(4,5) by (simp_all add: kept_def masks_def)
  then have "loop_inv (n + 5000000) c" using s(1) time dt by (simp add: loop_inv_ring ring_ok_def)
  then have "in_service first_tasks (n + 5000000) c"
    using s(3) c(2,4,5) same masks_ready [OF same(5)] by (simp add: in_service_def pump_ready_def)
  then have "in_service first_tasks (n + 1000000 + 1000 * unat (4000 :: u32)) c" by (simp add: add.assoc)
  from service_delay [OF this, of pin] obtain d where d: "task_delay_ms (background pin) 4000 c = Some d"
    "in_service first_tasks (n + 1000000) d" "owned (mq d)" using s(2) same(1) by auto
  obtain e where e: "setup_late_tasks d = Some e" "stage (first_tasks @ late_tasks) e" "kept e = kept d"
    "dT_us e = dT_us d" "ptrSysTickISR e = ptrSysTickISR d"
    using setup_late_tasks_run [of d] d(2) unfolding in_service_def by blast
  have "in_service (first_tasks @ late_tasks) (n + 1000 * unat (1000 :: u32)) e"
    using service_new [OF d(2) e(3,2,4,5)] by simp
  from service_delay [OF this, of pin] obtain t where "task_delay_ms (background pin) 1000 e = Some t"
    "in_service (first_tasks @ late_tasks) n t" "owned (mq t)" using d(3) e(3) by (auto simp: kept_def)
  then show ?thesis using c(1) d(1) e(1) by simp
qed

lemma setup_equipment_run:
  fixes s :: "'a recirc_scheme"
  assumes on: "power_on s" and rom: "rom_refuses rom prepared" "\<not> prepared (nvm s)"
    and osc: "\<forall>f t. hw.more (rom_fro f t) = hw.more (t :: 'a recirc_scheme)"
    and time: "500 * (n + 5000000) < 2 ^ 64"
  shows "\<exists>t. setup_equipment rom_fro rom (background pin) s = Some t \<and> in_service (first_tasks @ late_tasks) n t \<and>
    owned (mq t)"
proof -
  define a where "a = SysConfigClock30M rom_fro s"
  have a: "power_on a" "SystemCoreClock a = 15000000" "nvm a = nvm s"
    using power_on_clock [OF osc [rule_format, of 30000 s] on] by (simp_all add: a_def SysConfigClock30M_def)
  let ?th = "thermistor_new 10000 3300 2500 (- 55) 125 NTC_10K_3380_VET"
  have "\<not> prepared (nvm a)" using rom(2) a(3) by simp
  from setup_inputs_run [OF a(1) rom(1) this, of ?th ?th] obtain b where b: "do {
     s \<leftarrow> setup_pins a;
     let s = setup_adc s;
     s \<leftarrow> reg_Begin rom s;
     Some (s\<lparr>temp_S1 := ?th, temp_S2 := ?th\<rparr>) } = Some b" "core b = core a" "pump_ready b" by blast
  have "wf_int b" "intCount b = 0" "message_queue_lenght (mq b) = 0" "SystemCoreClock b = 15000000"
    using a(1,2) b(2) by (simp_all add: power_on_def core_def wf_int_def)
  from setup_lines_run [OF this b(3)] obtain c where c: "do {
     s \<leftarrow> newExternInterrupt Syspin_Botoeira (Some Rec_isr_Botoeira) FALLING b;
     s \<leftarrow> newExternInterrupt Syspin_SensorDeFluxo (Some Rec_isr_Flow) FALLING s;
     let s = s\<lparr>mq := message_Init (mq s)\<rparr>;
     i2cBegin SysI2C_ADDR_Recirculador Syspin_SDA Syspin_SCL SysI2CBaudRate i2cModeMaster s } = Some c"
    "ring_ok c" "owned (mq c)" "pump_ready c" "scene c = scene (b\<lparr>mq := message_Init (mq b)\<rparr>)" by blast
  have "pause c = 0" "SysTickCount c = 0" "tasks_on c = 0" "scheduler_on c = 0" "SystemCoreClock c = 15000000"
    using c(5) b(2) a(1,2) by (simp_all add: scene_def kept_def core_def power_on_def)
  from setup_service_run [OF c(2-4) this time] obtain t where t: "do {
     s \<leftarrow> setup_tasks c; s \<leftarrow> task_delay_ms (background pin) 4000 s; s \<leftarrow> setup_late_tasks s;
     task_delay_ms (background pin) 1000 s } = Some t" "in_service (first_tasks @ late_tasks) n t" "owned (mq t)" by blast
  have "setup_equipment rom_fro rom (background pin) s = Some t"
    unfolding t(1) [symmetric] using b(1) c(1)
    by (simp add: setup_equipment_def a_def [symmetric] Let_def Option.bind_eq_Some_conv) (auto)
  then show ?thesis using t(2,3) by blast
qed

text \<open>
  The month of the chip decides whether the clock's start returns: it indexes the table of months.
\<close>

lemma resync_returns:
  assumes "RTC_read_chip s = Some (d, c)" "bus_only s c" "load_ts s = Some ts"
  shows "RTC_resynchronization s = None \<longleftrightarrow> 12 < month_read d"
proof (cases "12 < month_read d")
  case True
  then show ?thesis using assms(1) to_timestamp_out [of d] by (simp add: RTC_resynchronization_def)
next
  case False
  then obtain w where w: "RTC_convertTimeToTimestamp d = Some w" using to_timestamp_total [of d] by auto
  have l: "load_ts c = Some ts" using assms(3) bus_only_fields(1) [OF assms(2)] by simp
  show ?thesis
    using resync_trusted [OF assms(1) w] resync_reset [OF assms(1) w _ l] store_total [OF l] False
    by (cases "chip_trusted d w") auto
qed

text \<open>The clock chip, its task and the watchdog.\<close>

lemma setup_board_run:
  fixes s :: "'a recirc_scheme"
  assumes "setup_equipment rom_fro rom idle s = Some t" "in_service (first_tasks @ late_tasks) n t"
    and "RTC_begin (Ts_Reg (Reg_Vet 272)) t = Some u"
  shows "\<exists>v. setup_board rom_fro rom idle s = Some v \<and> mq v = mq t \<and>
    in_service (first_tasks @ late_tasks @ [(Some RTC_Loop, 1000000)]) n v"
proof -
  define a where "a = t\<lparr>flagBegin := True, ptrTimestamp := Ts_Reg (Reg_Vet 272)\<rparr>"
  have run: "RTC_resynchronization a = Some u"
    using assms(3) by (simp add: RTC_begin_def a_def)
  have "ring_ok t" using assms(2) by (simp add: in_service_def loop_inv_ring)
  then have "ring_ok a" by (simp add: a_def ring_ok_def)
  moreover have "sched_view a = sched_view t" by (simp add: a_def sched_view_def)
  ultimately have u: "in_service (first_tasks @ late_tasks) n u"
    using service_sched [OF assms(2)] resynchronization_ring [OF run] resynchronization_sched [OF run] by simp
  have "wf_regs (regs a)" using \<open>ring_ok a\<close> by (simp add: ring_ok_def)
  from resynchronization_quiet [OF run this] have mq: "mq u = mq t" by (simp add: a_def)
  have "length (first_tasks @ late_tasks) = 9" by (simp add: first_tasks_def late_tasks_def)
  then obtain w where w: "task_new (Some RTC_Loop) (c_str ''RTC_loops'') 1 0 0 u = Some w"
    "stage ((first_tasks @ late_tasks) @ [(Some RTC_Loop, 1000000 div 1)]) w" "kept w = kept u" "dT_us w = dT_us u"
    "ptrSysTickISR w = ptrSysTickISR u"
    using stage_new [of "first_tasks @ late_tasks" u 1 RTC_Loop "''RTC_loops''"] u by (auto simp: in_service_def)
  have "in_service ((first_tasks @ late_tasks) @ [(Some RTC_Loop, 1000000 div 1)]) n w"
    using service_new [OF u w(3,2,4,5)] .
  moreover have "loop_inv m (watchdog_init 5000 w) = loop_inv m w" "frame (watchdog_init 5000 w) = frame w"
    "pause (watchdog_init 5000 w) = pause w" for m
    by (simp_all add: watchdog_init_def Let_def loop_inv_def frame_def hw_or_def hw_and_def hw_read_def hw_write_def)
  ultimately have "in_service ((first_tasks @ late_tasks) @ [(Some RTC_Loop, 1000000 div 1)]) n (watchdog_init 5000 w)"
    by (metis service_frame in_service_def)
  moreover have "setup_board rom_fro rom idle s = Some (watchdog_init 5000 w)"
    using assms(1,3) w(1) by (simp add: setup_board_def)
  moreover have "mq (watchdog_init 5000 w) = mq t"
    using mq w(3) by (simp add: kept_def watchdog_init_def Let_def hw_or_def hw_and_def hw_read_def hw_write_def)
  ultimately show ?thesis by simp
qed

lemma service_rounds:
  fixes s :: "'a recirc_scheme"
  assumes "in_service xs (n * 25000) s"
  shows "\<exists>t. main_rounds (background pin) n s = Some t \<and> in_service xs 0 t"
proof -
  have "loop_inv (n * 25000) s" "pause s = 0" using assms by (simp_all add: in_service_def)
  moreover have "(\<lambda>(vet, _). length vet = Sys_task_max) (frame s)"
    using service_table [OF assms] by (simp add: frame_def)
  ultimately show ?thesis using busy.rounds [of n s pin]
    using service_frame [OF assms] by metis
qed

text \<open>The state in which the clock chip is asked for its date.\<close>

definition clock_on :: "'a rtc_scheme \<Rightarrow> 'a rtc_scheme" where
  "clock_on s = s\<lparr>flagBegin := True, ptrTimestamp := Ts_Reg (Reg_Vet 272)\<rparr>"

lemma RTC_begin_on: "RTC_begin (Ts_Reg (Reg_Vet 272)) s = RTC_resynchronization (clock_on s)"
  by (simp add: RTC_begin_def clock_on_def)

lemma clock_on_reads:
  fixes s :: "'a rtc_scheme"
  assumes "ring_ok s"
  shows "\<exists>d c. RTC_read_chip (clock_on s) = Some (d, c) \<and>
    (RTC_begin (Ts_Reg (Reg_Vet 272)) s = None \<longleftrightarrow> 12 < month_read d)"
proof -
  have "wf_regs (regs s)" using assms by (simp add: ring_ok_def)
  then obtain ts where ts: "load_ts (clock_on s) = Some ts"
    by (auto simp: load_ts_def clock_on_def)
  from read_chip_total [OF this] obtain d c where
    "RTC_read_chip (clock_on s) = Some (d, c)" "bus_only (clock_on s) c" by blast
  then show ?thesis using resync_returns [OF _ _ ts] RTC_begin_on by metis
qed

lemma recirc_zero_on: "power_on recirc_zero" "rom_state (nvm recirc_zero) = 0"
  by (simp_all add: power_on_def wf_reg_zero wf_int_def wf_flash_def queue_zero_def recirc_zero_def rtc.defs
      rtc_zero_def flash.defs flash_zero_def iap.defs device.defs device_zero_def tasks.defs task_zero_def
      i2c.defs i2c_zero_def interrupt.defs int_zero_def adc.defs adc_zero_def gpio.defs gpio_zero_def)



end
