(* ===== verification/Preemption.thy ===== *)
theory Preemption
  imports Ring_Slots
begin

text \<open>
  The loop of \<open>main\<close> and the interrupts side by side. The loop is cut into its statements, each with
  the point where the program stands; between any two of them a tick or a pin may interrupt. A
  statement is a step as far as interrupts can tell: while the bus is used the scheduler is paused,
  and the only assignment outside that reads and writes a variable the tasks write, the decrement of
  the length, is cut into its test, its load and its store.
\<close>

section \<open>The statements of the loop\<close>

text \<open>A message goes to its own address or, when it is for all, to one slave after the other.\<close>

datatype target = To_One | To_Slave nat

text \<open>The three delays: before the answer is taken, between two slaves, and after the removal.\<close>

datatype delay = Reply target int | Between nat | Removed

datatype point =
    Feed | Test_Init | Test_Length | Test_Address | Set_Address nat
  | Pause_Send target | Send target | Continue_Send target int
  | Delay delay | Wait delay u64
  | Pause_Answer target int | Answer target int | Clear target int | Continue_Answer target
  | Pop_Reset | Pop_Advance | Shrink_Test | Shrink_Load | Shrink_Store int

fun after :: "delay \<Rightarrow> point" where
  "after (Reply d st) = Pause_Answer d st"
| "after (Between i) = Set_Address (Suc i)"
| "after Removed = Feed"

fun main_at :: "point \<Rightarrow> 'a rtc_scheme \<Rightarrow> (point \<times> 'a rtc_scheme) option" where
  "main_at Feed s = Some (Test_Init, watchdog_feed s)"
| "main_at Test_Init s = Some (if message_init (mq s) = 0 then Feed else Test_Length, s)"
| "main_at Test_Length s = Some (if message_queue_lenght (mq s) = 0 then Feed else Test_Address, s)"
| "main_at Test_Address s = do {
     m \<leftarrow> head_message s; Some (if addr m = SysI2C_ADDR_ALL then Set_Address 0 else Pause_Send To_One, s) }"
| "main_at (Set_Address i) s =
     (if i < length SysI2C_ADDR_Slave_Vet
      then do {
        ad \<leftarrow> arr_get SysI2C_ADDR_Slave_Vet i;
        m \<leftarrow> head_message s;
        s \<leftarrow> store_head (m\<lparr>addr := ad\<rparr>) s;
        Some (Pause_Send (To_Slave i), s) }
      else Some (Pop_Reset, s))"
| "main_at (Pause_Send d) s = Some (Send d, task_scheduler_pause s)"
| "main_at (Send d) s = do {
     m \<leftarrow> head_message s;
     (st, m, s) \<leftarrow> i2cSend_master_modbus m (regs s) s;
     s \<leftarrow> store_head m s;
     Some (Continue_Send d st, s) }"
| "main_at (Continue_Send d st) s = Some (Delay (Reply d st), task_scheduler_continue s)"
| "main_at (Delay w) s = Some (Wait w (SysTickGetTime_ms s + ucast Sys_Modbus_Time_Reply), s)"
| "main_at (Wait w T) s = Some (if SysTickGetTime_ms s < T then Wait w T else after w, s)"
| "main_at (Pause_Answer d st) s = Some (Answer d st, task_scheduler_pause s)"
| "main_at (Answer d st) s = do {
     m \<leftarrow> head_message s; (st, s) \<leftarrow> take_answer st m s; Some (Clear d st, s) }"
| "main_at (Clear d st) s = do {
     s \<leftarrow> (if st = replyFail
          then do { m \<leftarrow> head_message s; Some (snd (i2cReadClearBuffer_master (addr m) s)) }
          else Some s);
     Some (Continue_Answer d, s) }"
| "main_at (Continue_Answer d) s =
     Some (case d of To_One \<Rightarrow> Pop_Reset | To_Slave i \<Rightarrow> Delay (Between i), task_scheduler_continue s)"
| "main_at Pop_Reset s = do { q \<leftarrow> pop_reset (mq s); Some (Pop_Advance, s\<lparr>mq := q\<rparr>) }"
| "main_at Pop_Advance s = do { q \<leftarrow> pop_advance (mq s); Some (Shrink_Test, s\<lparr>mq := q\<rparr>) }"
| "main_at Shrink_Test s = Some (if message_queue_lenght (mq s) > 0 then Shrink_Load else Delay Removed, s)"
| "main_at Shrink_Load s = Some (Shrink_Store (message_queue_lenght (mq s)), s)"
| "main_at (Shrink_Store v) s = Some (Delay Removed, s\<lparr>mq := (mq s)\<lparr>message_queue_lenght := v - 1\<rparr>\<rparr>)"

section \<open>The waiting messages\<close>

text \<open>Points where the round has a head it will remove, and points where the ring has moved but not shrunk.\<close>

fun holding :: "point \<Rightarrow> bool" where
  "holding (Delay w) = (w \<noteq> Removed)"
| "holding (Wait w T) = (w \<noteq> Removed)"
| "holding p = (p \<notin> {Feed, Test_Init, Test_Length, Test_Address, Shrink_Test, Shrink_Load} \<and> (\<forall>v. p \<noteq> Shrink_Store v))"

fun shrinking :: "point \<Rightarrow> bool" where
  "shrinking Shrink_Test = True"
| "shrinking Shrink_Load = True"
| "shrinking (Shrink_Store v) = True"
| "shrinking p = False"

text \<open>What the ring holds once a removal that has moved the head is complete.\<close>

fun remaining :: "point \<Rightarrow> msg_queue \<Rightarrow> nat" where
  "remaining Shrink_Test q = nat (message_queue_lenght q)"
| "remaining Shrink_Load q = nat (message_queue_lenght q)"
| "remaining (Shrink_Store v) q = nat v"
| "remaining p q = nat (message_queue_lenght q) + 1"

definition waiting :: "point \<Rightarrow> 'a device_scheme \<Rightarrow> i2c_modbus_s list" where
  "waiting p s = map (slot (mq s)) [0..<remaining p (mq s)]"

definition place :: "point \<Rightarrow> 'a device_scheme \<Rightarrow> bool" where
  "place p s \<longleftrightarrow> (holding p \<or> p \<in> {Test_Address, Shrink_Test, Shrink_Load} \<longrightarrow> 0 < message_queue_lenght (mq s)) \<and>
     (\<forall>v. p = Shrink_Store v \<longrightarrow> 0 < v \<and> v \<le> 14)"

fun sound :: "nat \<Rightarrow> point \<times> 'a recirc_scheme \<Rightarrow> bool" where
  "sound n (p, s) \<longleftrightarrow> loop_inv n s \<and> owned (mq s) \<and> length (task_vet s) = Sys_task_max \<and> place p s"

lemma remaining_ring: "\<not> shrinking p \<Longrightarrow> remaining p q = nat (message_queue_lenght q) + 1"
  by (cases p) simp_all

lemma waiting_ring: "\<not> shrinking p \<Longrightarrow> waiting p s = queue_content (mq s)"
  by (simp add: waiting_def queue_content_def remaining_ring)

lemma holding_ring: "holding p \<Longrightarrow> \<not> shrinking p"
  by (cases p) simp_all

section \<open>Runs\<close>

datatype mover = Loop | Tick | Pin c_func

inductive moves :: "mover \<Rightarrow> point \<times> 'a recirc_scheme \<Rightarrow> point \<times> 'a recirc_scheme \<Rightarrow> bool" where
  loop: "main_at p s = Some c \<Longrightarrow> moves Loop (p, s) c"
| tick: "SysTick_Handler (isr_call task_body) s = Some s' \<Longrightarrow> moves Tick (p, s) (p, s')"
| pin: "f \<in> {Rec_isr_Botoeira, Rec_isr_Flow} \<Longrightarrow> task_body f 0 s = Some s' \<Longrightarrow> moves (Pin f) (p, s) (p, s')"

inductive_simps moves_simps: "moves Loop (p, s) c" "moves Tick (p, s) c" "moves (Pin f) (p, s) c"

text \<open>
  A run with its log: at which point the loop stood, who moved, and the messages that came behind
  the waiting ones.
\<close>

type_synonym event = "point \<times> mover \<times> i2c_modbus_s list"

definition queued :: "point \<times> 'a recirc_scheme \<Rightarrow> point \<times> 'a recirc_scheme \<Rightarrow> i2c_modbus_s list" where
  "queued c c' = drop (length (waiting (fst c) (snd c))) (waiting (fst c') (snd c'))"

inductive runs :: "event list \<Rightarrow> point \<times> 'a recirc_scheme \<Rightarrow> point \<times> 'a recirc_scheme \<Rightarrow> bool" where
  stop: "runs [] c c"
| move: "moves m c c' \<Longrightarrow> runs log c' c'' \<Longrightarrow> runs ((fst c, m, queued c c') # log) c c''"

definition ticks :: "event list \<Rightarrow> nat" where
  "ticks log = length (filter (\<lambda>(p, m, ms). m = Tick) log)"

definition removals :: "event list \<Rightarrow> nat" where
  "removals log = length (filter (\<lambda>(p, m, ms). p = Pop_Advance \<and> m = Loop) log)"

definition all_queued :: "event list \<Rightarrow> i2c_modbus_s list" where
  "all_queued log = concat (map (\<lambda>(p, m, ms). ms) log)"

lemma log_simps [simp]:
  "ticks [] = 0" "ticks ((p, m, ms) # log) = (if m = Tick then 1 else 0) + ticks log"
  "removals [] = 0" "removals ((p, m, ms) # log) = (if p = Pop_Advance \<and> m = Loop then 1 else 0) + removals log"
  "all_queued [] = []" "all_queued ((p, m, ms) # log) = ms @ all_queued log"
  by (simp_all add: ticks_def removals_def all_queued_def)

lemma runs_append: "runs xs c c' \<Longrightarrow> runs ys c' c'' \<Longrightarrow> runs (xs @ ys) c c''"
  by (induction rule: runs.induct) (auto intro: runs.intros)

section \<open>A step of the loop\<close>

text \<open>
  A step keeps the state sound and leaves the waiting messages alone, but for the head of a round that
  holds one, and for the removal; in a round that holds the head it can add messages behind the others.
\<close>

definition advances :: "nat \<Rightarrow> point \<Rightarrow> 'a recirc_scheme \<Rightarrow> point \<Rightarrow> 'a recirc_scheme \<Rightarrow> bool" where
  "advances n p s p' s' \<longleftrightarrow> sound n (p', s') \<and> frame s' = frame s \<and>
     (if p = Pop_Advance then waiting p' s' = tl (waiting p s) \<and> \<not> holding p'
      else if holding p then holding p' \<and> (\<exists>h e. waiting p' s' = h # tl (waiting p s) @ e)
      else waiting p' s' = waiting p s)"

lemma frame_table: "frame t = frame s \<Longrightarrow> length (task_vet t) = length (task_vet s)"
  unfolding frame_def by (metis length_map prod.inject)

lemma advance_same:
  assumes "sound n (p, s)" "\<not> holding p" "loop_inv n s'" "mq s' = mq s" "frame s' = frame s"
    and "remaining p' (mq s) = remaining p (mq s)" "place p' s"
  shows "advances n p s p' s'"
proof -
  have "p \<noteq> Pop_Advance" using assms(2) by auto
  then show ?thesis
    using assms frame_table [OF assms(5)] by (simp add: advances_def waiting_def place_def)
qed

lemma grown_length:
  assumes "grown s s'"
  shows "nat (message_queue_lenght (mq s)) \<le> nat (message_queue_lenght (mq s'))"
proof -
  obtain h e where "queue_content (mq s') = h # tl (queue_content (mq s)) @ e" using assms by (auto simp: grown_def)
  then have "length (queue_content (mq s')) = Suc (length (tl (queue_content (mq s))) + length e)" by simp
  then show ?thesis by simp
qed

lemma advance_hold:
  assumes s: "sound n (p, s)" and p: "holding p" "p \<noteq> Pop_Advance"
    and s': "step_ok n s s'" "owned (mq s')" "holding p'"
  shows "advances n p s p' s'"
proof -
  have "waiting p s = queue_content (mq s)" "waiting p' s' = queue_content (mq s')"
    using p(1) s'(3) by (simp_all add: waiting_ring holding_ring)
  moreover have "place p' s'"
    using s p(1) s'(3) grown_length [of s s'] s'(1) by (auto simp: place_def step_ok_def)
  ultimately show ?thesis
    using assms frame_table [OF step_frame [OF s'(1)]] by (simp add: advances_def step_ok_def grown_def)
qed

lemma advance_bus:
  assumes "sound n (p, s)" "holding p" "p \<noteq> Pop_Advance" "bus_only s s'" "holding p'"
  shows "advances n p s p' s'"
  using assms by (intro advance_hold step_bus) (auto simp: bus_only_owned)

lemma advance_pause:
  assumes "sound n (p, s)" "holding p" "p \<noteq> Pop_Advance" "holding p'"
  shows "advances n p s p' (task_scheduler_pause s)" "advances n p s p' (task_scheduler_continue s)"
proof -
  have "loop_inv n s" "owned (mq s)" using assms(1) by simp_all
  then show "advances n p s p' (task_scheduler_pause s)" "advances n p s p' (task_scheduler_continue s)"
    using step_pause [of n s] assms
    by (auto intro!: advance_hold simp: task_scheduler_pause_def task_scheduler_continue_def)
qed

lemma advance_stay:
  assumes "sound n (p, s)" "holding p" "p \<noteq> Pop_Advance" "holding p'"
  shows "advances n p s p' s"
  using advance_bus [OF assms(1-3) _ assms(4), of s] by simp

text \<open>The statements that use the head.\<close>

lemma at_address:
  assumes "sound n (Set_Address i, s)"
  shows "\<exists>p' s'. main_at (Set_Address i) s = Some (p', s') \<and> advances n (Set_Address i) s p' s'"
proof (cases "i < length SysI2C_ADDR_Slave_Vet")
  case False
  then show ?thesis using advance_stay [OF assms, of Pop_Reset] by simp
next
  case True
  have s: "loop_inv n s" "owned (mq s)" using assms by simp_all
  obtain m where m: "head_message s = Some m" "own_message m" using head_own [OF s(1)] by blast
  obtain s' where s': "store_head (m\<lparr>addr := SysI2C_ADDR_Slave_Vet ! i\<rparr>) s = Some s'" "step_ok n s s'"
    using step_store_head [OF s(1), of "m\<lparr>addr := SysI2C_ADDR_Slave_Vet ! i\<rparr>"] m(2) by auto
  have "owned (mq s')" using owns_store [OF s(2), of "m\<lparr>addr := SysI2C_ADDR_Slave_Vet ! i\<rparr>"] m(2) s'(1)
    by (simp add: owns_def)
  then have "advances n (Set_Address i) s (Pause_Send (To_Slave i)) s'" using advance_hold [OF assms _ _ s'(2)] by simp
  then show ?thesis using True m(1) s'(1) by simp
qed

lemma at_send:
  assumes "sound n (Send d, s)"
  shows "\<exists>p' s'. main_at (Send d) s = Some (p', s') \<and> advances n (Send d) s p' s'"
proof -
  have s: "loop_inv n s" "owned (mq s)" using assms by simp_all
  obtain m st m' s1 s2 where run: "head_message s = Some m" "i2cSend_master_modbus m (regs s) s = Some (st, m', s1)"
    "store_head m' s1 = Some s2" "own_message m'" "bus_only s s1" "step_ok n s s2"
    using step_transmit [OF s(1)] by blast
  have "owned (mq s2)" using owns_store [of s1 m'] run(3-5) s(2) by (simp add: owns_def bus_only_owned)
  then have "advances n (Send d) s (Continue_Send d st) s2" using advance_hold [OF assms _ _ run(6)] by simp
  then show ?thesis using run by simp
qed

lemma at_answer:
  assumes "sound n (Answer d st, s)"
  shows "\<exists>p' s'. main_at (Answer d st) s = Some (p', s') \<and> advances n (Answer d st) s p' s'"
proof -
  have s: "loop_inv n s" "owned (mq s)" using assms by simp_all
  obtain m where m: "head_message s = Some m" "own_message m" using head_own [OF s(1)] by blast
  obtain st' s' where run: "take_answer st m s = Some (st', s')" "step_ok n s s'"
    using step_answer [OF s(1) m(2)] by blast
  have "advances n (Answer d st) s (Clear d st') s'"
    using advance_hold [OF assms _ _ run(2)] answer_owned [OF s m(2) run(1)] by simp
  then show ?thesis using m(1) run(1) by simp
qed

lemma at_clear:
  assumes "sound n (Clear d st, s)"
  shows "\<exists>p' s'. main_at (Clear d st) s = Some (p', s') \<and> advances n (Clear d st) s p' s'"
proof -
  have "loop_inv n s" using assms by simp
  then obtain m where m: "head_message s = Some m" using head_own by blast
  define s' where "s' = (if st = replyFail then snd (i2cReadClearBuffer_master (addr m) s) else s)"
  have "bus_only s s'" by (simp add: s'_def clear_only)
  then have "advances n (Clear d st) s (Continue_Answer d) s'" using advance_bus [OF assms] by simp
  then show ?thesis using m by (auto simp: s'_def)
qed

text \<open>The removal.\<close>

lemma at_reset:
  assumes "sound n (Pop_Reset, s)"
  shows "\<exists>p' s'. main_at Pop_Reset s = Some (p', s') \<and> advances n Pop_Reset s p' s'"
proof -
  have s: "loop_inv n s" "owned (mq s)" using assms by simp_all
  have "inv_queue (mq s)" using s(1) by (simp add: loop_inv_def)
  then obtain q where q: "pop_reset (mq s) = Some q"
    using inv_queueD [of "mq s"] by (auto simp: pop_reset_def set_message_def)
  obtain s' where s': "store_head message_default s = Some s'" "step_ok n s s'"
    using step_store_head [OF s(1), of message_default] by auto
  have "s' = s\<lparr>mq := q\<rparr>" using q s'(1) by (auto simp: pop_reset_def store_head_def Option.bind_eq_Some_conv)
  moreover have "owned (mq s')" using owns_store [OF s(2), of message_default] s'(1) by (simp add: owns_def)
  ultimately have "advances n Pop_Reset s Pop_Advance (s\<lparr>mq := q\<rparr>)"
    using advance_hold [OF assms _ _ s'(2)] by simp
  then show ?thesis using q by simp
qed

lemma at_advance:
  assumes "sound n (Pop_Advance, s)"
  shows "\<exists>p' s'. main_at Pop_Advance s = Some (p', s') \<and> advances n Pop_Advance s p' s'"
proof -
  define q q' where "q = mq s" and "q' = (mq s)\<lparr>ptrQueue := Some ((head (mq s) + 1) mod 15)\<rparr>"
  have inv: "inv_queue q" "owned q" "0 < message_queue_lenght q" "loop_inv n s"
    using assms by (simp_all add: q_def loop_inv_def place_def)
  note D = inv_queueD [OF inv(1)]
  have run: "pop_advance q = Some q'" using D by (simp add: pop_advance_def q'_def q_def)
  have inv': "inv_queue q'" "owned q'" using inv(1,2) by (simp_all add: q'_def q_def inv_queue_def)
  have "head q' = (head q + 1) mod 15" by (simp add: q'_def q_def head_def)
  then have "slot q' i = slot q (Suc i)" for i by (simp add: slot_def mod_simps q'_def q_def)
  then have "map (slot q') [0..<nat (message_queue_lenght q)] = tl (queue_content q)"
    by (simp add: queue_content_def map_Suc_upt [symmetric] upt_conv_Cons del: upt_Suc)
  then have "waiting Shrink_Test (s\<lparr>mq := q'\<rparr>) = tl (waiting Pop_Advance s)"
    by (simp add: waiting_def q_def q'_def queue_content_def)
  moreover have "sound n (Shrink_Test, s\<lparr>mq := q'\<rparr>)"
    using assms inv owned_content [OF inv'] inv' by (simp add: loop_inv_def place_def q_def q'_def)
  ultimately have "advances n Pop_Advance s Shrink_Test (s\<lparr>mq := q'\<rparr>)" by (simp add: advances_def)
  then show ?thesis using run by (simp add: q_def)
qed

lemma at_store:
  assumes "sound n (Shrink_Store v, s)"
  shows "\<exists>p' s'. main_at (Shrink_Store v) s = Some (p', s') \<and> advances n (Shrink_Store v) s p' s'"
proof -
  define q where "q = (mq s)\<lparr>message_queue_lenght := v - 1\<rparr>"
  have s: "loop_inv n s" "owned (mq s)" "0 < v" "v \<le> 14" using assms by (simp_all add: place_def)
  have inv: "inv_queue q" "owned q" using s by (simp_all add: q_def loop_inv_def inv_queue_def)
  have "slot q = slot (mq s)" by (simp add: fun_eq_iff slot_def head_def q_def)
  moreover have "nat (v - 1) + 1 = nat v" using s(3) by simp
  ultimately have "waiting (Delay Removed) (s\<lparr>mq := q\<rparr>) = waiting (Shrink_Store v) s"
    by (simp add: waiting_def q_def)
  moreover have "sound n (Delay Removed, s\<lparr>mq := q\<rparr>)"
    using assms s owned_content [OF inv] inv by (simp add: loop_inv_def place_def)
  ultimately have "advances n (Shrink_Store v) s (Delay Removed) (s\<lparr>mq := q\<rparr>)" by (simp add: advances_def)
  then show ?thesis by (simp add: q_def)
qed

text \<open>The statements that leave the ring alone.\<close>

lemma advance_ring:
  assumes "sound n (p, s)" "\<not> holding p" "remaining p' (mq s) = remaining p (mq s)" "place p' s"
  shows "advances n p s p' s"
  using advance_same [OF assms(1,2)] assms by simp

lemma at_top:
  assumes "sound n (p, s)" "p \<in> {Feed, Test_Init, Test_Length, Test_Address}"
  shows "\<exists>p' s'. main_at p s = Some (p', s') \<and> advances n p s p' s'"
proof -
  have inv: "loop_inv n s" and pl: "place p s" using assms by simp_all
  then have len: "0 \<le> message_queue_lenght (mq s)" by (auto simp: loop_inv_def dest: inv_queueD)
  obtain m where m: "head_message s = Some m" using head_own [OF inv] by blast
  have "loop_inv n (watchdog_feed s)" using inv by (simp add: feed_keeps)
  then have "advances n Feed s Test_Init (watchdog_feed s)" if "p = Feed"
    using advance_same [of n Feed s] assms(1) that by (simp add: feed_keeps place_def)
  then show ?thesis
    using assms(2) advance_ring [OF assms(1)] pl len m by (auto simp: place_def)
qed

lemma at_shrink:
  assumes "sound n (p, s)" "p \<in> {Shrink_Test, Shrink_Load}"
  shows "\<exists>p' s'. main_at p s = Some (p', s') \<and> advances n p s p' s'"
proof -
  have "place p s" "message_queue_lenght (mq s) \<le> 14"
    using assms by (auto simp: loop_inv_def dest: inv_queueD)
  then show ?thesis using assms(2) advance_ring [OF assms(1)] by (auto simp: place_def)
qed

lemma at_delay:
  assumes "sound n (p, s)" "p = Delay w \<or> p = Wait w T"
  shows "\<exists>p' s'. main_at p s = Some (p', s') \<and> advances n p s p' s'"
  using assms(2) advance_ring [OF assms(1)] advance_stay [OF assms(1)] by (cases w) (auto simp: place_def)

lemma at_pause:
  assumes "sound n (p, s)" "p \<in> {Pause_Send d, Continue_Send d st, Pause_Answer d st, Continue_Answer d}"
  shows "\<exists>p' s'. main_at p s = Some (p', s') \<and> advances n p s p' s'"
  using assms(2) advance_pause [OF assms(1)] by (cases d) auto

lemma loop_advances:
  assumes "sound n (p, s)"
  shows "\<exists>p' s'. main_at p s = Some (p', s') \<and> advances n p s p' s'"
proof (cases p)
  case (Set_Address i) then show ?thesis using at_address assms by metis
next
  case (Send d) then show ?thesis using at_send assms by metis
next
  case (Answer d st) then show ?thesis using at_answer assms by metis
next
  case (Clear d st) then show ?thesis using at_clear assms by metis
next
  case Pop_Reset then show ?thesis using at_reset assms by metis
next
  case Pop_Advance then show ?thesis using at_advance assms by metis
next
  case (Shrink_Store v) then show ?thesis using at_store assms by metis
next
  case (Delay w) then show ?thesis using at_delay [OF assms] by metis
next
  case (Wait w T) then show ?thesis using at_delay [OF assms] by metis
qed (use at_top [OF assms] at_shrink [OF assms] at_pause [OF assms] in blast)+

section \<open>A step of an interrupt\<close>

lemma place_grows:
  assumes "place p s" "appended s s'" "0 \<le> message_queue_lenght (mq s)"
  shows "place p s'"
proof -
  have "nat (message_queue_lenght (mq s)) \<le> nat (message_queue_lenght (mq s'))"
    using grown_length [OF appended_grown [OF assms(2)]] .
  then show ?thesis using assms by (auto simp: place_def)
qed

lemma tick_moves:
  assumes "sound (Suc n) (p, s)" "moves Tick (p, s) c"
  obtains s' where "c = (p, s')" "sound n (p, s')" "frame s' = frame s" "appended s s'"
proof -
  obtain s' where s': "c = (p, s')" "SysTick_Handler (isr_call task_body) s = Some s'"
    using assms(2) by (auto simp: moves_simps)
  have inv: "loop_inv (Suc n) s" "owned (mq s)" "length (task_vet s) = Sys_task_max" "place p s"
    using assms(1) by simp_all
  have "0 \<le> message_queue_lenght (mq s)" using inv(1) by (auto simp: loop_inv_def dest: inv_queueD)
  note step = tick_keeps [OF inv(1-3) s'(2)]
  then have "place p s'" using place_grows [OF inv(4)] \<open>0 \<le> _\<close> by blast
  moreover have "length (task_vet s') = Sys_task_max" using step frame_table [of s' s] inv(3) by simp
  ultimately show ?thesis using that [OF s'(1)] step by simp
qed

lemma pin_moves:
  assumes "sound n (p, s)" "moves (Pin f) (p, s) c"
  obtains s' where "c = (p, s')" "sound n (p, s')" "frame s' = frame s" "mq s' = mq s"
proof -
  obtain s' where s': "c = (p, s')" "f \<in> {Rec_isr_Botoeira, Rec_isr_Flow}" "task_body f 0 s = Some s'"
    using assms(2) by (auto simp: moves_simps)
  have inv: "loop_inv n s" "owned (mq s)" using assms(1) by simp_all
  have wf: "wf_regs (regs s)" using inv(1) by (simp add: loop_inv_def)
  have "quiet_step (mq s) (rec_isr_Flow s)" using wf by (simp add: quiet_step_def rec_isr_Flow_def)
  then have "mq s' = mq s"
    using s'(2,3) quiet_button [OF wf refl] by (auto simp: task_body_def quiet_step_def)
  moreover have "calm n s s'" using body_step [OF inv s'(3)] by blast
  ultimately show ?thesis
    using that [OF s'(1)] assms(1) frame_table [of s' s] by (simp add: calm_def place_def)
qed

lemma move_sound:
  assumes "moves m c c'" "sound (if m = Tick then Suc n else n) c"
  shows "sound n c' \<and> frame (snd c') = frame (snd c)"
proof -
  obtain p s where c: "c = (p, s)" by (cases c)
  show ?thesis
  proof (cases m)
    case Loop
    then show ?thesis using assms loop_advances [of n p s] by (auto simp: c moves_simps advances_def)
  next
    case Tick
    then have "sound (Suc n) (p, s)" "moves Tick (p, s) c'" using assms by (simp_all add: c)
    from tick_moves [OF this] show ?thesis by (metis c snd_conv)
  next
    case (Pin f)
    then have "sound n (p, s)" "moves (Pin f) (p, s) c'" using assms by (simp_all add: c)
    from pin_moves [OF this] show ?thesis by (metis c snd_conv)
  qed
qed

lemma runs_sound: "runs log c c' \<Longrightarrow> sound (n + ticks log) c \<Longrightarrow> sound n c' \<and> frame (snd c') = frame (snd c)"
proof (induction rule: runs.induct)
  case (stop c)
  then show ?case by simp
next
  case (move m c c' log c'')
  then have "sound (if m = Tick then Suc (n + ticks log) else n + ticks log) c" by (cases m) simp_all
  from move_sound [OF move.hyps(1) this] move.IH show ?case by simp
qed

lemma start_sound:
  "sound n (Feed, s) \<longleftrightarrow> ring_ok s \<and> owned (mq s) \<and> length (task_vet s) = Sys_task_max \<and> 0 < unat (dT_us s) \<and>
     unat (dT_us s) * (unat (SysTickCount s) + n) < 2 ^ 64"
  by (auto simp: loop_inv_ring place_def)

lemma sound_moves:
  assumes "sound n (p, s)"
  shows "\<exists>c. moves Loop (p, s) c"
  using loop_advances [OF assms] by (auto simp: moves_simps)

text \<open>
  C5: no interrupt breaks the loop, wherever it arrives. From a ring whose slots hold messages the
  loop can handle, in every run in which ticks and pins interrupt between any two statements of the
  loop, also in the middle of a removal, the ring and the register banks stay well formed, the table
  of tasks stays the same but for the starts, the next statement of the loop is defined, and the
  button, the flow sensor, the control of the pump, the error task, the seconds and the two tasks that
  queue messages would return if an interrupt called them.
\<close>

theorem no_interrupt_breaks_the_loop:
  fixes s :: "'a recirc_scheme"
  assumes "ring_ok s" "owned (mq s)" "length (task_vet s) = Sys_task_max" "0 < unat (dT_us s)"
    and "unat (dT_us s) * (unat (SysTickCount s) + ticks log) < 2 ^ 64"
    and "runs log (Feed, s) (p, s')"
  shows "ring_ok s' \<and> frame s' = frame s \<and> (\<exists>c. moves Loop (p, s') c) \<and>
    (\<forall>f. f \<in> set returning_tasks \<longrightarrow> task_body f 0 s' \<noteq> None)"
proof -
  have "sound (0 + ticks log) (Feed, s)" using assms(1-5) by (simp only: start_sound add_0)
  from runs_sound [OF assms(6) this] have s': "sound 0 (p, s')" "frame s' = frame s" by simp_all
  then have "ring_ok s'" by (simp add: loop_inv_ring)
  then show ?thesis using s' sound_moves returning_task by blast
qed


text \<open>A round with nothing to send, and a pulse of the flow sensor after its first statement.\<close>

definition sample_start :: recirc where
  "sample_start = two_tasks\<lparr>mq := message_Init queue_zero\<rparr>"

lemma sample_run_preempted:
  "\<exists>log s'. runs log (Feed, sample_start) (Feed, s') \<and>
    map (\<lambda>(p, m, ms). (p, m)) log =
      [(Feed, Loop), (Test_Init, Pin Rec_isr_Flow), (Test_Init, Loop), (Test_Length, Loop)]"
proof -
  define a where "a = watchdog_feed sample_start"
  have a: "mq a = message_Init queue_zero" by (simp add: a_def feed_keeps sample_start_def)
  obtain b where b: "rec_isr_Flow a = Some b" "mq b = mq a" by (simp add: rec_isr_Flow_def)
  have "moves Loop (Feed, sample_start) (Test_Init, a)" "moves (Pin Rec_isr_Flow) (Test_Init, a) (Test_Init, b)"
    "moves Loop (Test_Init, b) (Test_Length, b)" "moves Loop (Test_Length, b) (Feed, b)"
    using a b by (simp_all add: moves_simps a_def task_body_def message_Init_def queue_zero_def)
  note m = this
  show ?thesis
    using runs.move [OF m(1) runs.move [OF m(2) runs.move [OF m(3) runs.move [OF m(4) runs.stop]]]]
    by (intro exI conjI) (assumption, simp)
qed

theorem no_interrupt_breaks_the_loop_witness:
  "\<exists>log s'. runs log (Feed, sample_start) (Feed, s') \<and> length log = 4 \<and> ring_ok s' \<and>
    frame s' = frame sample_start \<and> (\<exists>c. moves Loop (Feed, s') c)"
proof -
  obtain log s' where run: "runs log (Feed, sample_start) (Feed, s')" "map (\<lambda>(p, m, ms). (p, m)) log =
      [(Feed, Loop), (Test_Init, Pin Rec_isr_Flow), (Test_Init, Loop), (Test_Length, Loop)]"
    using sample_run_preempted by (elim exE conjE)
  have "length log = 4" using arg_cong [OF run(2), of length] by simp
  moreover have "ticks log = 0"
    using arg_cong [OF run(2), of "\<lambda>xs. length (filter (\<lambda>(p, m). m = Tick) xs)"]
    by (simp add: ticks_def filter_map comp_def case_prod_unfold)
  moreover have "ring_ok s' \<and> frame s' = frame sample_start \<and> (\<exists>c. moves Loop (Feed, s') c) \<and>
      (\<forall>f. f \<in> set returning_tasks \<longrightarrow> task_body f 0 s' \<noteq> None)"
    using \<open>ticks log = 0\<close>
    by (intro no_interrupt_breaks_the_loop [OF _ _ _ _ _ run(1)])
      (simp_all add: sample_start_def two_tasks_def ring_ok_def wf_reg_zero Sys_task_max_def owned_init)
  ultimately show ?thesis using run(1) by blast
qed

end
