(* ===== verification/Preempted_Order.thy ===== *)
theory Preempted_Order
  imports Preemption
begin

text \<open>
  What preemption does to the order of the messages, and how the loop as one function relates to the
  loop cut into statements: its runs are the runs whose interrupts all arrive in the delays.
\<close>

section \<open>First in, first out\<close>

text \<open>No tick arrives after the head has moved and before the length is stored.\<close>

definition undisturbed :: "event list \<Rightarrow> bool" where
  "undisturbed log = list_all (\<lambda>(p, m, ms). m = Tick \<longrightarrow> \<not> shrinking p) log"

lemma undisturbed_Cons: "undisturbed ((p, m, ms) # log) \<longleftrightarrow> (m = Tick \<longrightarrow> \<not> shrinking p) \<and> undisturbed log"
  by (simp add: undisturbed_def)

lemma waiting_head: "holding p \<Longrightarrow> waiting p s \<noteq> []"
  using length_queue_content [of "mq s"] by (auto simp: waiting_ring holding_ring simp del: length_queue_content)

text \<open>The three kinds of moves.\<close>

lemma removal_order:
  assumes "moves Loop (Pop_Advance, s) (p', s')" "sound n (Pop_Advance, s)"
  shows "waiting p' s' = tl (waiting Pop_Advance s) \<and> queued (Pop_Advance, s) (p', s') = [] \<and> \<not> holding p'"
  using assms(1) loop_advances [OF assms(2)] by (auto simp: moves_simps advances_def queued_def)

lemma round_order:
  assumes "moves Loop (p, s) (p', s')" "sound n (p, s)" "holding p" "p \<noteq> Pop_Advance"
  shows "\<exists>h. waiting p' s' = h # tl (waiting p s) @ queued (p, s) (p', s') \<and> holding p'"
proof -
  obtain h e where e: "waiting p' s' = h # tl (waiting p s) @ e" "holding p'"
    using assms loop_advances [OF assms(2)] by (auto simp: moves_simps advances_def)
  obtain x xs where "waiting p s = x # xs" using waiting_head [OF assms(3), of s] by (cases "waiting p s") auto
  then show ?thesis using e by (simp add: queued_def)
qed

lemma other_order:
  assumes "moves m (p, s) (p', s')" "sound (if m = Tick then Suc n else n) (p, s)" "m = Tick \<longrightarrow> \<not> shrinking p"
    and "m = Loop \<longrightarrow> \<not> holding p"
  shows "waiting p' s' = waiting p s @ queued (p, s) (p', s') \<and> (m \<noteq> Loop \<longrightarrow> p' = p)"
proof (cases m)
  case Loop
  then have "\<not> holding p" "p \<noteq> Pop_Advance" using assms(4) by auto
  then show ?thesis using assms(1,2) Loop loop_advances [of n p s]
    by (auto simp: moves_simps advances_def queued_def)
next
  case Tick
  then have "sound (Suc n) (p, s)" "moves Tick (p, s) (p', s')" using assms(1,2) by simp_all
  from tick_moves [OF this] have "p' = p" "appended s s'" by auto
  then show ?thesis using assms(3) Tick by (auto simp: waiting_ring appended_def queued_def)
next
  case (Pin f)
  then have "sound n (p, s)" "moves (Pin f) (p, s) (p', s')" using assms(1,2) by simp_all
  from pin_moves [OF this] have "p' = p" "mq s' = mq s" by auto
  then show ?thesis using Pin by (simp add: waiting_def queued_def)
qed

lemma runs_order:
  assumes "runs log c c'" "sound (n + ticks log) c" "undisturbed log" "fst c' = Feed"
  shows "(holding (fst c) \<longrightarrow> 0 < removals log) \<and>
    waiting (fst c') (snd c') = drop (removals log) (waiting (fst c) (snd c) @ all_queued log)"
  using assms
proof (induction rule: runs.induct)
  case (stop c)
  then show ?case by simp
next
  case (move m c c' log c'')
  obtain p s p' s' where c: "c = (p, s)" "c' = (p', s')" by (cases c; cases c')
  define w w' q k e where "w = waiting p s" and "w' = waiting p' s'" and "q = queued c c'"
    and "k = removals log" and "e = all_queued log"
  have m: "moves m (p, s) (p', s')" using move.hyps(1) by (simp add: c)
  have snd: "sound (if m = Tick then Suc (n + ticks log) else n + ticks log) (p, s)"
    using move.prems(1) by (cases m) (simp_all add: c)
  have dist: "m = Tick \<longrightarrow> \<not> shrinking p" "undisturbed log" using move.prems(2) by (simp_all add: undisturbed_Cons c)
  have "sound (n + ticks log) c'" using move_sound [OF m snd] by (simp add: c)
  from move.IH [OF this dist(2) move.prems(3)] have IH: "holding p' \<longrightarrow> 0 < k" "waiting (fst c'') (snd c'') = drop k (w' @ e)"
    by (simp_all add: c k_def e_def w'_def)
  have goal: "(holding p \<longrightarrow> 0 < r) \<and> drop k (w' @ e) = drop r (w @ q @ e)"
    if "r = (if p = Pop_Advance \<and> m = Loop then 1 else 0) + k" for r
  proof (cases "m = Loop \<and> holding p")
    case False
    then have "w' = w @ q \<and> (m \<noteq> Loop \<longrightarrow> p' = p)" using other_order [OF m snd dist(1)]
      by (simp add: w_def w'_def q_def c)
    moreover have "r = k" using False that by auto
    ultimately show ?thesis using False IH(1) by auto
  next
    case True
    then have l: "moves Loop (p, s) (p', s')" "sound (n + ticks log) (p, s)" "holding p" using m snd by auto
    obtain x xs where w: "w = x # xs" using waiting_head [OF l(3), of s] by (cases w) (auto simp: w_def)
    show ?thesis
    proof (cases "p = Pop_Advance")
      case True
      then have "moves Loop (Pop_Advance, s) (p', s')" "sound (n + ticks log) (Pop_Advance, s)" using l by simp_all
      from removal_order [OF this] have "w' = xs \<and> q = []" using True w by (simp add: w_def w'_def q_def c)
      then show ?thesis using that True \<open>m = Loop \<and> _\<close> w by simp
    next
      case False
      then obtain h where "w' = h # xs @ q" "0 < k" using round_order [OF l] w IH(1) by (auto simp: w_def w'_def q_def c)
      then show ?thesis using that False w by (cases k) simp_all
    qed
  qed
  show ?case using goal [OF refl] IH(2) by (simp add: c k_def e_def q_def w_def)
qed

text \<open>
  C7: preemption does not reorder messages. In every run from the top of the loop to the top of the
  loop, with ticks and pins between any two statements but no tick between the move of the head and
  the store of the length, the ring holds at the end what it held at the start, followed by all that
  was queued since in the order it was queued, less as many messages from the front as heads were
  removed.
\<close>

theorem preempted_rounds_in_order:
  fixes s :: "'a recirc_scheme"
  assumes "ring_ok s" "owned (mq s)" "length (task_vet s) = Sys_task_max" "0 < unat (dT_us s)"
    and "unat (dT_us s) * (unat (SysTickCount s) + ticks log) < 2 ^ 64"
    and "runs log (Feed, s) (Feed, s')" "undisturbed log"
  shows "queue_content (mq s') = drop (removals log) (queue_content (mq s) @ all_queued log)"
proof -
  have "sound (0 + ticks log) (Feed, s)" using assms(1-5) by (simp only: start_sound add_0)
  from runs_order [OF assms(6) this assms(7)] show ?thesis by (simp add: waiting_ring)
qed

text \<open>A ring and a table whose only task reports, due at the next tick.\<close>

definition reporter :: "msg_queue \<Rightarrow> recirc" where
  "reporter q = recirc_zero\<lparr>ptrSysTickISR := Some IsrScheduler, dT_us := 500, SysTickCount := 2000,
     task_vet := task_s_default\<lparr>ptrFunc := Some Rec_create_messages, dt_us := 250000\<rparr> # replicate 11 task_s_default,
     mq := q\<rparr>"

lemma reporter_fields [simp]:
  "length (task_vet (reporter q)) = Sys_task_max" "dT_us (reporter q) = 500" "SysTickCount (reporter q) = 2000"
  "mq (reporter q) = q" "regs (reporter q) = reg_zero" "ptrSysTickISR (reporter q) = Some IsrScheduler"
  "pause (reporter q) = 0"
  by (simp_all add: reporter_def Sys_task_max_def)

lemma create_messages_posts:
  fixes s :: "'a recirc_scheme"
  assumes ok: "ring_ok s" and len: "message_queue_lenght (mq s) \<le> 13"
  shows "\<exists>s' e. rec_create_messages s = Some s' \<and> queue_content (mq s') = queue_content (mq s) @ e \<and> e \<noteq> []"
proof -
  have inv: "inv_queue (mq s)" "wf_regs (regs s)" using ok by (simp_all add: ring_ok_def)
  obtain q where q: "post status_message s = Some (s\<lparr>mq := q\<rparr>)" "inv_queue q"
    "queue_content q = queue_content (mq s) @ [status_message]"
    using post_any [OF inv(1), of status_message] len by auto
  define t where "t = s\<lparr>mq := q, rec_create_messages_var := snapshot (regs s) (rec_create_messages_var s)\<rparr>"
  have t: "mq t = q" by (simp add: t_def)
  obtain q' where q': "post measures_message t = Some (t\<lparr>mq := q'\<rparr>)"
    "queue_content q' = queue_content q \<or> queue_content q' = queue_content q @ [measures_message]"
    using post_any [of t measures_message] q(2) unfolding t by metis
  have "rec_create_messages s = Some (if varied (rec_create_messages_var s) (regs s) then t\<lparr>mq := q'\<rparr> else s\<lparr>mq := q\<rparr>)"
    using create_messages_code [OF inv(2) q(1)] q'(1) by (simp add: t_def)
  then show ?thesis using q(3) q'(2) by (auto split: if_splits)
qed

lemma reporter_tick:
  assumes "ring_ok (reporter q)" "message_queue_lenght q \<le> 13"
  shows "\<exists>s' e. SysTick_Handler (isr_call task_body) (reporter q) = Some s' \<and>
    queue_content (mq s') = queue_content q @ e \<and> e \<noteq> []"
proof -
  let ?t = "tick (reporter q)"
  have "due ?t 0" by (simp add: due_def tick_def reporter_def task_s_default_def SysTickGetTime_us_def word_le_nat_alt)
  then have "chosen ?t = Some 0" by (simp add: chosen_def Sys_task_max_def upt_rec)
  then have run: "SysTick_Handler (isr_call task_body) (reporter q) = run_slot task_body ?t 0"
    using scheduler_loop_find [of 0 Sys_task_max ?t task_body]
    by (simp add: SysTick_Handler_def isr_call_def isrScheduler_def chosen_def tick_def Let_def)
  have "ptrFunc (task_vet ?t ! 0) = Some Rec_create_messages" by (simp add: tick_def reporter_def)
  then have "run_slot task_body ?t 0 = rec_create_messages (start_slot ?t 0)" by (simp add: run_slot_def task_body_def)
  moreover have "mq (start_slot ?t 0) = q" "ring_ok (start_slot ?t 0)"
    using assms(1) by (simp_all add: start_slot_def tick_def ring_ok_def)
  ultimately show ?thesis using create_messages_posts [of "start_slot ?t 0"] assms(2) run by simp
qed

lemma reporter_ok: "inv_queue q \<Longrightarrow> owned q \<Longrightarrow> ring_ok (reporter q)"
  by (simp add: ring_ok_def wf_reg_zero owned_content)

theorem preempted_rounds_in_order_witness:
  "\<exists>log s'. runs log (Feed, reporter (message_Init queue_zero)) (Feed, s') \<and> ticks log = 1 \<and>
    all_queued log \<noteq> [] \<and>
    queue_content (mq s') = drop (removals log) ([message_default] @ all_queued log)"
proof -
  let ?s = "reporter (message_Init queue_zero)"
  have ok: "ring_ok ?s" by (simp add: reporter_ok owned_init)
  obtain b e where b: "SysTick_Handler (isr_call task_body) ?s = Some b"
    "queue_content (mq b) = [message_default] @ e" "e \<noteq> []"
    using reporter_tick [OF ok] by auto
  define log where "log = [(Feed, Tick, queued (Feed, ?s) (Feed, b))]"
  have m: "moves Tick (Feed, ?s) (Feed, b)" using b(1) by (simp add: moves_simps)
  have run: "runs log (Feed, ?s) (Feed, b)" using runs.move [OF m runs.stop] by (simp add: log_def)
  have "queued (Feed, ?s) (Feed, b) = e" using b(2) by (simp add: queued_def waiting_ring)
  then have log: "ticks log = 1" "all_queued log = e" "undisturbed log"
    by (simp_all add: log_def undisturbed_def)
  have "queue_content (mq b) = drop (removals log) (queue_content (mq ?s) @ all_queued log)"
    by (rule preempted_rounds_in_order [OF ok _ _ _ _ run log(3)]) (simp_all add: owned_init log(1))
  then show ?thesis using run log b(3) by auto
qed

section \<open>The lost update\<close>

text \<open>
  C38: the decrement of the length is not protected. Whatever a tick queues between its load and its
  store is lost: the tick finds room and appends its messages, and after the store the ring holds
  exactly the messages it would hold without them.
\<close>

theorem tick_in_the_store_is_lost:
  fixes s :: "'a recirc_scheme"
  assumes "ring_ok s" "owned (mq s)" "length (task_vet s) = Sys_task_max" "0 < unat (dT_us s)"
    and "unat (dT_us s) * (unat (SysTickCount s) + 1) < 2 ^ 64"
    and "0 < v" "v \<le> message_queue_lenght (mq s)"
    and "moves Tick (Shrink_Store v, s) (Shrink_Store v, s1)" "moves Loop (Shrink_Store v, s1) (p, s2)"
  shows "p = Delay Removed \<and> (\<exists>e. queue_content (mq s1) = queue_content (mq s) @ e) \<and>
    queue_content (mq s2) = take (nat v) (queue_content (mq s))"
proof -
  have "loop_inv (Suc 0) s" using assms(1,4,5) by (simp add: loop_inv_ring)
  moreover from this have "v \<le> 14" using assms(7) by (auto simp: loop_inv_def dest: inv_queueD(5))
  ultimately have "sound (Suc 0) (Shrink_Store v, s)" using assms(2,3,6) by (simp add: place_def)
  from tick_moves [OF this assms(8)] obtain e where e: "queue_content (mq s1) = queue_content (mq s) @ e"
    by (auto simp: appended_def)
  have s2: "p = Delay Removed" "mq s2 = (mq s1)\<lparr>message_queue_lenght := v - 1\<rparr>" using assms(9) by (auto simp: moves_simps)
  have n: "nat v \<le> nat (message_queue_lenght (mq s)) + 1" "nat (v - 1) + 1 = nat v" using assms(6,7) by simp_all
  have len: "length (queue_content (mq s1)) = length (queue_content (mq s)) + length e" using e by simp
  have "slot (mq s2) = slot (mq s1)" by (simp add: fun_eq_iff slot_def head_def s2(2))
  then have "queue_content (mq s2) = map (slot (mq s1)) [0..<nat v]"
    using n(2) by (simp add: queue_content_def s2(2))
  also have "\<dots> = take (nat v) (queue_content (mq s1))"
    using n(1) len by (simp add: queue_content_def take_map del: upt_Suc)
  also have "\<dots> = take (nat v) (queue_content (mq s))" using n(1) by (simp add: e)
  finally show ?thesis using s2(1) e by blast
qed

theorem tick_in_the_store_is_lost_witness:
  "\<exists>q s1 s2 e. message_New sample_message (message_Init queue_zero) = Some (Message_Ok, q) \<and>
    moves Tick (Shrink_Store 1, reporter q) (Shrink_Store 1, s1) \<and> moves Loop (Shrink_Store 1, s1) (Delay Removed, s2) \<and>
    queue_content (mq s1) = [message_default, sample_message] @ e \<and> e \<noteq> [] \<and>
    queue_content (mq s2) = [message_default]"
proof -
  have own: "own_message sample_message"
    by (simp add: sample_message_def own_message_def message_default_def Modbus_Report_Slave_ID_def)
  obtain q where q: "message_New sample_message (message_Init queue_zero) = Some (Message_Ok, q)"
    "message_queue_lenght q = 1"
    using message_New_inv [OF init_queue(1), of sample_message] by auto
  have "queue_put sample_message (message_Init queue_zero) = Some q" using q(1) by (simp add: queue_put_def)
  from queue_put_some [OF init_queue(1) this] have c: "inv_queue q" "queue_content q = [message_default, sample_message]"
    by simp_all
  have o: "owned q" using message_New_owned [OF q(1) owned_init own] .
  note ok = reporter_ok [OF c(1) o]
  obtain s1 e where s1: "SysTick_Handler (isr_call task_body) (reporter q) = Some s1"
    "queue_content (mq s1) = [message_default, sample_message] @ e" "e \<noteq> []"
    using reporter_tick [OF ok] q(2) c(2) by auto
  then have m1: "moves Tick (Shrink_Store 1, reporter q) (Shrink_Store 1, s1)" by (simp add: moves_simps)
  obtain s2 where m2: "moves Loop (Shrink_Store 1, s1) (Delay Removed, s2)" by (simp add: moves_simps)
  have "Delay Removed = Delay Removed \<and> (\<exists>e. queue_content (mq s1) = queue_content (mq (reporter q)) @ e) \<and>
      queue_content (mq s2) = take (nat 1) (queue_content (mq (reporter q)))"
    by (rule tick_in_the_store_is_lost [OF ok _ _ _ _ _ _ m1 m2]) (simp_all add: o q(2))
  then show ?thesis using q(1) m1 m2 s1(2,3) c(2) by auto
qed

section \<open>The loop as one function\<close>

fun at_wait :: "point \<Rightarrow> bool" where
  "at_wait (Wait w T) = True"
| "at_wait p = False"

fun_cases at_waitE: "at_wait p"

text \<open>Interrupts only while the clock is polled.\<close>

definition in_waits :: "event list \<Rightarrow> bool" where
  "in_waits log = list_all (\<lambda>(p, m, ms). m = Loop \<or> at_wait p) log"

definition reaches :: "point \<times> 'a recirc_scheme \<Rightarrow> point \<times> 'a recirc_scheme \<Rightarrow> bool" where
  "reaches c c' \<longleftrightarrow> (\<exists>log. runs log c c' \<and> in_waits log)"

lemma reaches_refl: "reaches c c"
  unfolding reaches_def by (intro exI [of _ "[]"]) (simp add: in_waits_def runs.stop)

lemma reaches_trans [trans]:
  assumes "reaches c d" "reaches d e"
  shows "reaches c e"
proof -
  obtain xs ys where "runs xs c d" "in_waits xs" "runs ys d e" "in_waits ys" using assms by (auto simp: reaches_def)
  then show ?thesis unfolding reaches_def by (intro exI [of _ "xs @ ys"]) (simp add: runs_append in_waits_def)
qed

lemma reaches_move:
  assumes "moves m c d" "m = Loop \<or> at_wait (fst c)"
  shows "reaches c d"
  unfolding reaches_def using runs.move [OF assms(1) runs.stop] assms(2)
  by (intro exI [of _ "[(fst c, m, queued c d)]"]) (simp add: in_waits_def)

lemma reaches_loop: "main_at p s = Some c \<Longrightarrow> reaches c d \<Longrightarrow> reaches (p, s) d"
  by (rule reaches_trans [OF reaches_move [OF moves.loop]]) simp_all

lemma reaches_interrupts:
  assumes "firmware_runs pin s = Some s'"
  shows "reaches (Wait w T, s) (Wait w T, s')"
proof -
  obtain t where t: "SysTick_Handler (isr_call task_body) s = Some t"
    "(case pin t of None \<Rightarrow> Some t
      | Some f \<Rightarrow> if f \<in> {Rec_isr_Botoeira, Rec_isr_Flow} then task_body f 0 t else Some t) = Some s'"
    using assms by (auto simp: interrupts_def Option.bind_eq_Some_conv)
  have "reaches (Wait w T, s) (Wait w T, t)" using moves.tick [OF t(1)] by (rule reaches_move) simp
  moreover have "t = s' \<or> (\<exists>f. moves (Pin f) (Wait w T, t) (Wait w T, s'))"
    using t(2) by (auto simp: moves_simps split: option.splits if_splits)
  then have "reaches (Wait w T, t) (Wait w T, s')"
    using reaches_refl reaches_move [of _ "(Wait w T, t)"] by fastforce
  ultimately show ?thesis by (rule reaches_trans)
qed

lemma reaches_wait:
  assumes "wait_until (firmware_runs pin) (\<lambda>s. \<not> SysTickGetTime_ms s < T) s = Some s'"
  shows "reaches (Wait w T, s) (after w, s')"
proof -
  have "i = firmware_runs pin \<longrightarrow> c = (\<lambda>s. \<not> SysTickGetTime_ms s < T) \<longrightarrow> reaches (Wait w T, s) (after w, s')"
    if "wait_until i c s = Some s'" for i c and s s' :: "'a recirc_scheme"
  proof (rule wait_until.raw_induct [where P = "\<lambda>i c s s'. i = firmware_runs pin \<longrightarrow>
        c = (\<lambda>s. \<not> SysTickGetTime_ms s < T) \<longrightarrow> reaches (Wait w T, s) (after w, s')", OF _ that], intro impI)
    fix wu i c and s s' :: "'a recirc_scheme"
    assume IH: "\<And>i c s s'. wu i c s = Some s' \<Longrightarrow> i = firmware_runs pin \<longrightarrow>
        c = (\<lambda>s. \<not> SysTickGetTime_ms s < T) \<longrightarrow> reaches (Wait w T, s) (after w, s')"
      and step: "(if c s then Some s else i s \<bind> wu i c) = Some s'"
      and i: "i = firmware_runs pin" and c: "c = (\<lambda>s. \<not> SysTickGetTime_ms s < T)"
    show "reaches (Wait w T, s) (after w, s')"
    proof (cases "SysTickGetTime_ms s < T")
      case False
      then have "s' = s" using step by (simp add: c)
      then show ?thesis using False by (intro reaches_loop [OF _ reaches_refl]) simp
    next
      case True
      then obtain u where u: "firmware_runs pin s = Some u" "wu i c u = Some s'"
        using step by (auto simp: i c Option.bind_eq_Some_conv)
      show ?thesis using reaches_trans [OF reaches_interrupts [OF u(1)]] IH [OF u(2)] i c by blast
    qed
  qed
  then show ?thesis using assms by blast
qed

lemma reaches_delay:
  assumes "task_delay_ms (firmware_runs pin) Sys_Modbus_Time_Reply s = Some s'"
  shows "reaches (Delay w, s) (after w, s')"
  using assms by (intro reaches_loop [OF _ reaches_wait]) (simp_all add: task_delay_ms_def Let_def)

text \<open>One sending with its answer.\<close>

lemma reaches_aux:
  assumes "message_loop_aux (firmware_runs pin) s = Some s'"
  shows "reaches (Pause_Send d, s) (case d of To_One \<Rightarrow> Pop_Reset | To_Slave i \<Rightarrow> Delay (Between i), s')"
proof -
  define s0 where "s0 = task_scheduler_pause s"
  obtain m st m' s1 s2 where send: "head_message s0 = Some m" "i2cSend_master_modbus m (regs s0) s0 = Some (st, m', s1)"
    "store_head m' s1 = Some s2" and rest: "do {
      s \<leftarrow> task_delay_ms (firmware_runs pin) Sys_Modbus_Time_Reply (task_scheduler_continue s2);
      let s = task_scheduler_pause s;
      m \<leftarrow> head_message s;
      (st, s) \<leftarrow> take_answer st m s;
      s \<leftarrow> (if st = replyFail
           then do { m \<leftarrow> head_message s; Some (snd (i2cReadClearBuffer_master (addr m) s)) }
           else Some s);
      Some (task_scheduler_continue s) } = Some s'"
    using assms by (auto simp: message_loop_aux_def Let_def Option.bind_eq_Some_conv s0_def)
  then obtain s3 m3 st' s4 s5 where answer:
    "task_delay_ms (firmware_runs pin) Sys_Modbus_Time_Reply (task_scheduler_continue s2) = Some s3"
    "head_message (task_scheduler_pause s3) = Some m3" "take_answer st m3 (task_scheduler_pause s3) = Some (st', s4)"
    "(if st' = replyFail then do { m \<leftarrow> head_message s4; Some (snd (i2cReadClearBuffer_master (addr m) s4)) }
      else Some s4) = Some s5" "s' = task_scheduler_continue s5"
    by (auto simp: Let_def Option.bind_eq_Some_conv)
  have "reaches (Pause_Send d, s) (Delay (Reply d st), task_scheduler_continue s2)"
    by (rule reaches_loop, simp add: s0_def [symmetric], rule reaches_loop, simp add: send,
        rule reaches_loop, simp, rule reaches_refl)
  also have "reaches (Delay (Reply d st), task_scheduler_continue s2) (Pause_Answer d st, s3)"
    using reaches_delay [OF answer(1), of "Reply d st"] by simp
  also have "reaches (Pause_Answer d st, s3)
      (case d of To_One \<Rightarrow> Pop_Reset | To_Slave i \<Rightarrow> Delay (Between i), s')"
    by (rule reaches_loop, simp, rule reaches_loop, simp add: answer, rule reaches_loop, simp add: answer,
        rule reaches_loop, simp, simp only: answer, rule reaches_refl)
  finally show ?thesis .
qed

lemma reaches_slaves:
  fixes s s' :: "'a recirc_scheme"
  assumes "for_loop i k (\<lambda>i s. do {
      ad \<leftarrow> arr_get SysI2C_ADDR_Slave_Vet i;
      m \<leftarrow> head_message s;
      s \<leftarrow> store_head (m\<lparr>addr := ad\<rparr>) s;
      s \<leftarrow> message_loop_aux (firmware_runs pin) s;
      task_delay_ms (firmware_runs pin) Sys_Modbus_Time_Reply s }) s = Some s'"
    and "i + k = length SysI2C_ADDR_Slave_Vet"
  shows "reaches (Set_Address i, s) (Pop_Reset, s')"
  using assms
proof (induction k arbitrary: i s)
  case 0
  then have "\<not> i < length SysI2C_ADDR_Slave_Vet" "s' = s" by simp_all
  then show ?case by (intro reaches_loop [OF _ reaches_refl]) simp
next
  case (Suc k)
  have i: "i < length SysI2C_ADDR_Slave_Vet" "Suc i + k = length SysI2C_ADDR_Slave_Vet" using Suc.prems(2) by simp_all
  obtain m s1 s2 s3 where one: "head_message s = Some m"
    "store_head (m\<lparr>addr := SysI2C_ADDR_Slave_Vet ! i\<rparr>) s = Some s1"
    "message_loop_aux (firmware_runs pin) s1 = Some s2"
    "task_delay_ms (firmware_runs pin) Sys_Modbus_Time_Reply s2 = Some s3"
    and rest: "for_loop (Suc i) k (\<lambda>i s. do {
      ad \<leftarrow> arr_get SysI2C_ADDR_Slave_Vet i;
      m \<leftarrow> head_message s;
      s \<leftarrow> store_head (m\<lparr>addr := ad\<rparr>) s;
      s \<leftarrow> message_loop_aux (firmware_runs pin) s;
      task_delay_ms (firmware_runs pin) Sys_Modbus_Time_Reply s }) s3 = Some s'"
    using Suc.prems(1) i(1) by (auto simp: Option.bind_eq_Some_conv)
  have "reaches (Set_Address i, s) (Pause_Send (To_Slave i), s1)"
    using i(1) one(1,2) by (intro reaches_loop [OF _ reaches_refl]) simp
  also have "reaches (Pause_Send (To_Slave i), s1) (Delay (Between i), s2)"
    using reaches_aux [OF one(3), of "To_Slave i"] by simp
  also have "reaches (Delay (Between i), s2) (Set_Address (Suc i), s3)"
    using reaches_delay [OF one(4), of "Between i"] by simp
  also have "reaches (Set_Address (Suc i), s3) (Pop_Reset, s')" using Suc.IH [OF rest i(2)] .
  finally show ?case .
qed

lemma reaches_pop:
  assumes "message_pop (mq s) = Some q"
  shows "reaches (Pop_Reset, s) (Delay Removed, s\<lparr>mq := q\<rparr>)"
proof -
  obtain q1 q2 where q: "pop_reset (mq s) = Some q1" "pop_advance q1 = Some q2" "q = pop_shrink q2"
    using assms by (auto simp: message_pop_def Option.bind_eq_Some_conv)
  have "reaches (Pop_Reset, s) (Shrink_Test, s\<lparr>mq := q2\<rparr>)"
    by (rule reaches_loop, simp add: q, rule reaches_loop, simp add: q, rule reaches_refl)
  also have "reaches (Shrink_Test, s\<lparr>mq := q2\<rparr>) (Delay Removed, s\<lparr>mq := q\<rparr>)"
  proof (cases "message_queue_lenght q2 > 0")
    case True
    then show ?thesis
      by - (rule reaches_loop, simp, rule reaches_loop, simp, rule reaches_loop, simp, simp add: q(3) pop_shrink_def reaches_refl)
  next
    case False
    then show ?thesis by - (rule reaches_loop, simp, simp add: q(3) pop_shrink_def reaches_refl)
  qed
  finally show ?thesis .
qed

lemma reaches_empty:
  fixes s s' :: "'a recirc_scheme"
  assumes "message_init (mq s) = 0 \<or> message_queue_lenght (mq s) = 0"
    and "message_loop (firmware_runs pin) s = Some s'"
  shows "reaches (Test_Init, s) (Feed, s')"
proof -
  have "message_loop (firmware_runs pin) s = Some s"
    using assms(1) unfolding message_loop_def by (elim disjE) simp_all
  then have s: "s' = s" using assms(2) by simp
  show ?thesis
  proof (cases "message_init (mq s) = 0")
    case True
    then show ?thesis unfolding s by (intro reaches_loop [OF _ reaches_refl]) simp
  next
    case False
    then show ?thesis
      unfolding s using assms(1) by - (rule reaches_loop, simp, rule reaches_loop, simp, rule reaches_refl)
  qed
qed

lemma reaches_round:
  fixes s s' :: "'a recirc_scheme"
  assumes "message_loop (firmware_runs pin) s = Some s'"
  shows "reaches (Test_Init, s) (Feed, s')"
proof (cases "message_init (mq s) = 0 \<or> message_queue_lenght (mq s) = 0")
  case True
  then show ?thesis using assms by (rule reaches_empty)
next
  case False
  then have start: "reaches (Test_Init, s) (Test_Address, s)"
    by - (rule reaches_loop, simp, rule reaches_loop, simp, rule reaches_refl)
  obtain m s1 q where m: "head_message s = Some m"
    and body: "(if addr m = SysI2C_ADDR_ALL
      then for_loop 0 (length SysI2C_ADDR_Slave_Vet) (\<lambda>i s. do {
             ad \<leftarrow> arr_get SysI2C_ADDR_Slave_Vet i; m \<leftarrow> head_message s;
             s \<leftarrow> store_head (m\<lparr>addr := ad\<rparr>) s; s \<leftarrow> message_loop_aux (firmware_runs pin) s;
             task_delay_ms (firmware_runs pin) Sys_Modbus_Time_Reply s }) s
      else message_loop_aux (firmware_runs pin) s) = Some s1"
    and tail: "message_pop (mq s1) = Some q"
      "task_delay_ms (firmware_runs pin) Sys_Modbus_Time_Reply (s1\<lparr>mq := q\<rparr>) = Some s'"
    using assms False by (auto simp: message_loop_def Option.bind_eq_Some_conv)
  have "reaches (Test_Address, s) (Pop_Reset, s1)"
  proof (cases "addr m = SysI2C_ADDR_ALL")
    case True
    then have "reaches (Set_Address 0, s) (Pop_Reset, s1)" using body by (intro reaches_slaves) simp_all
    then show ?thesis using True m by (intro reaches_loop) simp_all
  next
    case False
    then have "reaches (Pause_Send To_One, s) (Pop_Reset, s1)" using reaches_aux [of pin s s1 To_One] body by simp
    then show ?thesis using False m by (intro reaches_loop) simp_all
  qed
  note reaches_trans [OF start this]
  also note reaches_pop [OF tail(1)]
  also have "reaches (Delay Removed, s1\<lparr>mq := q\<rparr>) (Feed, s')" using reaches_delay [OF tail(2), of Removed] by simp
  finally show ?thesis .
qed



end
