(* ===== verification/Whole_Run.thy ===== *)
theory Whole_Run
  imports Startup Preempted_Order
begin

text \<open>
  From power on into the loop, with interrupts between any two of its statements.
\<close>

text \<open>A state set-up leaves can run under preemption for as many ticks as its service has room for.\<close>

lemma service_sound:
  fixes s :: "'a recirc_scheme"
  assumes "in_service xs n s" "owned (mq s)" "k \<le> n"
  shows "sound k (Feed, s)"
  using assms service_table [OF assms(1)] loop_inv_less [of n s k] by (simp add: in_service_def place_def)

lemma service_preempted:
  fixes v w :: "'a recirc_scheme"
  assumes s: "in_service xs n v" "owned (mq v)" and run: "ticks log \<le> n" "runs log (Feed, v) (p, w)"
  shows "ring_ok w \<and> pump_ready w \<and> stage xs w \<and> (\<exists>c. moves Loop (p, w) c)"
proof -
  have "sound (0 + ticks log) (Feed, v)" using service_sound [OF s run(1)] by simp
  from runs_sound [OF run(2) this] have w: "sound 0 (p, w)" "frame w = frame v" by simp_all
  then have ok: "ring_ok w" by (simp add: loop_inv_ring)
  moreover have "masks w = masks v" using w(2) by (simp add: frame_def masks_def)
  then have "pump_ready w" using masks_ready [of w v] s(1) ok by (simp add: in_service_def pump_ready_def ring_ok_def)
  moreover have "stage xs w" using stage_frame [OF w(2)] s(1) by (simp add: in_service_def)
  ultimately show ?thesis using sound_moves [OF w(1)] by blast
qed



end
