(* ===== verification/Spec2Isabelle.thy ===== *)
theory Spec2Isabelle
  imports Whole_Run Scheduling
begin

text \<open>
  The firmware of a hot-water recirculator on an LPC804 microcontroller: a Cortex-M0+ that measures
  two temperatures, the flow and the current of a pump, decides when the pump runs, and exchanges
  registers with two slaves (a Wi-Fi module and a display) over I2C with frames in the Modbus format.
  This library models the application code of the repository, \<open>src/src\<close> and \<open>src/include\<close>, in
  the configuration its build selects: no floats, low memory, the flash driver for the EEPROM area.
  Integers have the width of the target, \<open>char\<close> is unsigned, arithmetic wraps.

  How the program runs. \<open>setup\<close> (\<open>app/main.c\<close>, a constructor) configures clock, pins, converter,
  register banks, interrupts, ring of messages and bus, creates the tasks and waits twice; then
  \<open>main\<close> feeds the watchdog and calls \<open>message_loop\<close> for ever. Everything else happens in
  interrupts: every 500 microseconds the system tick calls the scheduler, which starts at most one
  task that is due and runs it to its end; a falling edge on the button or on the flow sensor calls
  its function. The tasks write measurements and decisions to the register banks and put messages
  into the ring, the loop takes them out and talks to the slaves.

  Conventions. The state is one chain of records, each extending the one below it, so that an
  operation of a driver works on every larger state: the register accesses of the peripherals
  (\<open>Hardware\<close>, with the values read as an arbitrary function and a trace of all accesses), pins,
  converter, interrupts, bus, table of tasks, banks and ring (\<open>Device\<close>), flash, clock chip and
  finally the static variables of the control code. An operation is a function of the state; its result
  is \<open>None\<close> exactly where C is undefined (an index outside its array, a division by zero, an
  uninitialised pointer) or does not return. Error codes of C are values. Pointers to functions are
  constructors of a datatype; pointers into the banks are byte offsets. A loop is a recursion over its
  remaining passes, or over the bound the code has; only the waits for the clock are partial
  functions. What is not in the repository is a parameter: the ROM routines for the flash and for the
  oscillator, and \<open>idle\<close>, which says what interrupts do between two polls of a wait.

  The theories, from the bottom, and the code they model.

  \<^item> \<open>Prelude\<close>: widths, arrays with bounds, bytes of words, loops.
  \<^item> \<open>Board_Defs\<close>: \<open>board_defs.h\<close>; the register map and its constants.
  \<^item> \<open>Checksum\<close>: \<open>checksum.c\<close>; the table-driven CRC is the bitwise one, and its check refuses
    every damage within two neighbouring bytes.
  \<^item> \<open>Registers_Manager\<close>: \<open>registers_manager.c\<close>; a locale of memories, interpreted for the three
    banks, gives reads after writes; change flags; the array and untyped accessors.
  \<^item> \<open>Ntc_Thermistor\<close>: \<open>ntc_thermistor.c\<close> and its table; definedness, order and the ranges where
    the conversion fails.
  \<^item> \<open>Scheduling\<close>: \<open>scheduling.c\<close>; equivalence with days and windows of minutes.
  \<^item> \<open>Modbus_Frame\<close>, \<open>Message_Queue\<close>: the frame of \<open>i2c.h\<close> and the ring of
    \<open>message_manager.c\<close>, which refines a queue through a locale and its interpretation.
  \<^item> \<open>Hardware\<close>, \<open>Gpio\<close>, \<open>Adc\<close>, \<open>Interrupt\<close>, \<open>I2c\<close>, \<open>System\<close>, \<open>Log_Lpc804\<close>: the
    drivers. Their lemmas read the trace: what goes over the bus, which way a pin is, what is
    cleared and called by an interrupt; every polling loop ends within its limit of the code.
  \<^item> \<open>Task\<close>: \<open>task.c\<close>; one tick runs the lowest due slot, runs of ticks as an inductive relation,
    and in the locale of tasks that leave the scheduler alone each due slot gets its turn.
  \<^item> \<open>Device\<close>: banks and ring in one state.
  \<^item> \<open>Iap\<close>, \<open>Flash_Memory\<close>, \<open>Flash_Map\<close>: the vendor's wrappers of the ROM routine
    (\<open>fsl_iap.c\<close>), \<open>flash_memory.c\<close>, \<open>flash_map.c\<close> and \<open>reg_Begin\<close>; what a commit really does
    and which values the banks have after power-up. The hypothesis \<open>rom_refuses\<close> is the documented
    behaviour of the ROM: it neither prepares nor erases a range whose end lies before its start,
    and does not write what is not prepared.
  \<^item> \<open>Rtc\<close>: \<open>rtc.c\<close>; round trip of the conversions from 2024 to 2038, what a synchronisation
    leaves for every answer of the chip.
  \<^item> \<open>Message_Manager\<close>, \<open>Message_Loop\<close>: the handlers of the answers and the loop of
    \<open>message_manager.c\<close>. A round of the loop is proved in the locale \<open>delay_idle\<close>, whose law is
    what a poll of the clock may do meanwhile: one tick passes, messages are only appended.
  \<^item> \<open>Recirculador\<close>: \<open>recirculador.c\<close>; the control of the pump refines a plan over integers,
    faults stop the pump, button, measurements, announcements and reports, and the tasks that
    queue messages keep the ring.
  \<^item> \<open>Main_App\<close>: \<open>main.c\<close>; set-up, the functions of the tasks and the loop.
  \<^item> \<open>Task_Runs\<close>: the firmware's tasks interpret the scheduler's locale.
  \<^item> \<open>Quiet_Tasks\<close>: which functions behind the pointers always return, and that all of them only
    append to the ring. \<open>Defined_Runs\<close>: a run over functions that fail more often does the same or fails.
  \<^item> \<open>Main_Rounds\<close>: the scheduler and the pins' interrupts interpret \<open>delay_idle\<close>, so the loop runs
    for ever. The runs are shown with a function skipped in the states where it fails (the measurements
    divide by a reading or a register, the clock's task indexes a table with the chip's month), and
    the firmware itself does the same or fails; with a table of tasks that always return it does the
    same. A round waits at most five times 5 milliseconds, and
    a millisecond is at most 1000 ticks when a tick is at least a microsecond: 25000 ticks a round.
  \<^item> \<open>Setup_Steps\<close>, \<open>Startup\<close>: from power on to the loop, with the table of tasks that results.
  \<^item> \<open>Ring_Slots\<close>, \<open>Preemption\<close>, \<open>Preempted_Order\<close>: the loop of \<open>main\<close> and \<open>message_loop\<close> cut
    into statements (\<open>main_at\<close>), with ticks and pins between any two of them as a step relation with a
    log. Every reachable state is well formed and has a next statement; messages stay in order unless
    a tick falls between the move of the head and the store of the length; what it queues there is
    lost; and the rounds of \<open>Main_Rounds\<close> are such runs. \<open>Whole_Run\<close>: from power on into such runs.

  Bounds. The clock is a 64-bit count of ticks and is exact as long as the count times 500 fits;
  statements over time carry that bound. Reads over the bus are limited to 255 bytes, above which the
  code's one-byte counter never ends.

  Not modelled. The half of \<open>flash_memory.c\<close> under \<open>__IAP_MEM__\<close>, the half of
  \<open>recirculador.c\<close> without \<open>__LOW_MEMORY__\<close> and the float registers are not compiled. \<open>fota.c\<close>,
  \<open>log.c\<close>, \<open>board.c\<close>, \<open>led_control.c\<close> and \<open>app_config.c\<close> hold no code of effect. The vendor's
  SDK under \<open>src/lib\<close> is not the program: of it only the wrappers of the ROM calls this device has
  are modelled. Under preemption a statement of the loop is one step: an interrupt in the middle of a
  transfer on the bus, where the scheduler is paused but a pin may still change a register whose bytes
  are being sent, is not modelled. The handlers have the same priority and do not interrupt each
  other. Set-up is interrupted in its two delays only.
\<close>

end
